(* ===== verification/Prelude.thy ===== *)
theory Prelude imports Main "HOL-Library.Word" begin

text \<open>
  What every component shares: the fixed-width types of the C program, the
  outcomes of a C computation that does not return normally, the error-passing
  combinators the stateful components are written with, and generic facts about
  lists and byte ranges.
\<close>

unbundle bit_operations_syntax

section \<open>Types of the program\<close>

type_synonym byte = "8 word"
type_synonym u16 = "16 word"
type_synonym u32 = "32 word"

text \<open>A C string: its bytes before the terminating NUL, or an array that holds one.\<close>

type_synonym cstring = "byte list"

text \<open>A heap address.\<close>

type_synonym ptr = nat

section \<open>Abnormal outcomes\<close>

text \<open>
  A C step either completes or ends the process: a failing \<open>assert\<close>, a
  dereference of \<open>NULL\<close>, a dereference of a block that is not allocated, another use
  of the library or of memory for which C gives no meaning (\<open>Undefined\<close>).
\<close>

datatype fault = AssertFailed | NullDeref | UseAfterFree | Undefined

definition bind_r :: "'e + 'a \<Rightarrow> ('a \<Rightarrow> 'e + 'b) \<Rightarrow> 'e + 'b" where
  "bind_r r f = (case r of Inl e \<Rightarrow> Inl e | Inr x \<Rightarrow> f x)"

fun fold_r :: "('x \<Rightarrow> 's \<Rightarrow> 'e + 's) \<Rightarrow> 'x list \<Rightarrow> 's \<Rightarrow> 'e + 's" where
  "fold_r f [] s = Inr s"
| "fold_r f (x # xs) s = bind_r (f x s) (fold_r f xs)"

lemma bind_r_Inl [simp]: "bind_r (Inl e) f = Inl e"
  by (simp add: bind_r_def)

lemma bind_r_Inr [simp]: "bind_r (Inr x) f = f x"
  by (simp add: bind_r_def)

lemma bind_r_eq_Inr: "bind_r r f = Inr y \<longleftrightarrow> (\<exists>x. r = Inr x \<and> f x = Inr y)"
  by (cases r) auto

lemma bind_r_eq_Inl:
  "bind_r r f = Inl e \<longleftrightarrow> r = Inl e \<or> (\<exists>x. r = Inr x \<and> f x = Inl e)"
  by (cases r) auto

lemma bind_r_InrE:
  assumes "bind_r r f = Inr y"
  obtains x where "r = Inr x" and "f x = Inr y"
  using assms by (auto simp: bind_r_eq_Inr)

lemma if_Inl_eq_Inr [simp]:
  "((if b then Inl e else r) = Inr y) \<longleftrightarrow> (\<not> b \<and> r = Inr y)"
  by auto

lemma fold_r_append: "fold_r f (xs @ ys) s = bind_r (fold_r f xs s) (fold_r f ys)"
  by (induction xs arbitrary: s) (auto simp: bind_r_def split: sum.splits)

lemma fold_r_invariant:
  assumes "fold_r f xs s = Inr t" and "P s"
    and "\<And>x s t. x \<in> set xs \<Longrightarrow> f x s = Inr t \<Longrightarrow> P s \<Longrightarrow> P t"
  shows "P t"
  using assms
proof (induction xs arbitrary: s)
  case Nil
  then show ?case by simp
next
  case (Cons x xs)
  from Cons.prems(1) obtain s' where "f x s = Inr s'" and "fold_r f xs s' = Inr t"
    by (auto simp: bind_r_eq_Inr)
  with Cons.prems(2,3) Cons.IH [of s'] show ?case by (metis list.set_intros)
qed

section \<open>Byte ranges\<close>

text \<open>
  \<open>slice off n m\<close> reads \<open>n\<close> bytes at offset \<open>off\<close>; \<open>overlay d m\<close> writes
  the bytes \<open>d\<close> over the beginning of \<open>m\<close>.
\<close>

definition slice :: "nat \<Rightarrow> nat \<Rightarrow> 'a list \<Rightarrow> 'a list" where
  "slice off n m = take n (drop off m)"

definition overlay :: "'a list \<Rightarrow> 'a list \<Rightarrow> 'a list" where
  "overlay d m = d @ drop (length d) m"

named_theorems slice_simps

lemma slice_skip [slice_simps]:
  "length xs \<le> off \<Longrightarrow> slice off n (xs @ ys) = slice (off - length xs) n ys"
  by (simp add: slice_def)

lemma slice_here [slice_simps]: "length xs = n \<Longrightarrow> slice 0 n (xs @ ys) = xs"
  by (simp add: slice_def)

lemma slice_all [slice_simps]: "length xs = n \<Longrightarrow> slice 0 n xs = xs"
  by (simp add: slice_def)

lemma length_slice: "length (slice off n m) = min n (length m - off)"
  by (simp add: slice_def)

lemma length_overlay: "length d \<le> length m \<Longrightarrow> length (overlay d m) = length m"
  by (simp add: overlay_def)

lemma overlay_full: "length d = length m \<Longrightarrow> overlay d m = d"
  by (simp add: overlay_def)

section \<open>Lists\<close>

lemma find_eq_Some_distinct:
  assumes "x \<in> set xs" and "P x" and "\<And>y. y \<in> set xs \<Longrightarrow> P y \<Longrightarrow> y = x"
  shows "List.find P xs = Some x"
  using assms
proof (induction xs)
  case Nil
  then show ?case by simp
next
  case (Cons a xs)
  show ?case
  proof (cases "P a")
    case True
    with Cons.prems(3) [of a] show ?thesis by simp
  next
    case False
    have "x \<noteq> a" using Cons.prems(2) False by blast
    with Cons.prems(1) have "x \<in> set xs" by simp
    moreover have "\<And>y. y \<in> set xs \<Longrightarrow> P y \<Longrightarrow> y = x"
      using Cons.prems(3) by simp
    ultimately have "List.find P xs = Some x"
      using Cons.IH Cons.prems(2) by blast
    with False show ?thesis by simp
  qed
qed

lemma takeWhile_neq_append [simp]:
  "x \<notin> set xs \<Longrightarrow> takeWhile (\<lambda>y. y \<noteq> x) (xs @ x # ys) = xs"
  by (induction xs) auto

end
