(* ===== verification/CLib.thy ===== *)
theory CLib imports Prelude begin

text \<open>
  The string helpers of \<open>lib/common.c\<close> (\<open>null_terminated\<close>, \<open>is_nickchar\<close>,
  \<open>is_nickstr\<close>, \<open>nick_cmp\<close>) over the functions of the C standard library they
  call, in the "C" locale: \<open>strnlen\<close>, \<open>snprintf\<close> with the format \<open>"%s"\<close>, the
  classification functions of \<open>ctype.h\<close> and \<open>strncasecmp\<close>. A string argument is
  a byte list; reading at or behind its end reads the terminator.
\<close>

section \<open>The C library\<close>

definition chr_at :: "cstring \<Rightarrow> byte" where
  "chr_at s = (case s of [] \<Rightarrow> 0 | c # _ \<Rightarrow> c)"

definition cstr :: "byte list \<Rightarrow> cstring" where
  "cstr m = takeWhile (\<lambda>c. c \<noteq> 0) m"

definition strnlen :: "cstring \<Rightarrow> nat \<Rightarrow> nat" where
  "strnlen s n = length (takeWhile (\<lambda>c. c \<noteq> 0) (take n s))"

text \<open>\<open>snprintf(dst, n, "%s", src)\<close>: the memory \<open>dst\<close> afterwards.\<close>

definition snprintf_s :: "byte list \<Rightarrow> nat \<Rightarrow> cstring \<Rightarrow> byte list" where
  "snprintf_s dst n src =
     (if n = 0 then dst else overlay (take (n - 1) (cstr src) @ [0]) dst)"

definition isdigit :: "byte \<Rightarrow> bool" where
  "isdigit c \<longleftrightarrow> 48 \<le> c \<and> c \<le> 57"

definition isupper :: "byte \<Rightarrow> bool" where
  "isupper c \<longleftrightarrow> 65 \<le> c \<and> c \<le> 90"

definition islower :: "byte \<Rightarrow> bool" where
  "islower c \<longleftrightarrow> 97 \<le> c \<and> c \<le> 122"

definition isalnum :: "byte \<Rightarrow> bool" where
  "isalnum c \<longleftrightarrow> isdigit c \<or> isupper c \<or> islower c"

definition isgraph :: "byte \<Rightarrow> bool" where
  "isgraph c \<longleftrightarrow> 33 \<le> c \<and> c \<le> 126"

definition ispunct :: "byte \<Rightarrow> bool" where
  "ispunct c \<longleftrightarrow> isgraph c \<and> \<not> isalnum c"

definition isspace :: "byte \<Rightarrow> bool" where
  "isspace c \<longleftrightarrow> c = 32 \<or> (9 \<le> c \<and> c \<le> 13)"

definition tolower :: "byte \<Rightarrow> byte" where
  "tolower c = (if isupper c then c + 32 else c)"

fun strncasecmp :: "cstring \<Rightarrow> cstring \<Rightarrow> nat \<Rightarrow> int" where
  "strncasecmp s t 0 = 0"
| "strncasecmp s t (Suc n) =
     (let a = tolower (chr_at s); b = tolower (chr_at t)
      in if a \<noteq> b then uint a - uint b
         else if a = 0 then 0
         else strncasecmp (tl s) (tl t) n)"

section \<open>lib/common.c\<close>

definition NICKNAME_LEN :: nat where "NICKNAME_LEN = 32"

definition null_terminated :: "byte list \<Rightarrow> nat \<Rightarrow> bool" where
  "null_terminated str maxlen \<longleftrightarrow> strnlen str maxlen < maxlen"

definition is_nickchar :: "byte \<Rightarrow> bool" where
  "is_nickchar c \<longleftrightarrow> isalnum c \<or> ispunct c"

text \<open>The loop of \<open>is_nickstr\<close>, from the current position of \<open>s\<close> on.\<close>

fun nickstr_loop :: "cstring \<Rightarrow> bool" where
  "nickstr_loop [] = True"
| "nickstr_loop (c # s) =
     (if c = 0 then True else if \<not> is_nickchar c then False else nickstr_loop s)"

definition is_nickstr :: "cstring \<Rightarrow> bool" where
  "is_nickstr s =
     (if chr_at s = 0 \<or> strnlen s NICKNAME_LEN = NICKNAME_LEN then False
      else nickstr_loop s)"

definition nick_cmp :: "cstring \<Rightarrow> cstring \<Rightarrow> int" where
  "nick_cmp s t = strncasecmp s t NICKNAME_LEN"

section \<open>Facts\<close>

lemma cstr_no_nul [simp]: "0 \<notin> set (cstr m)"
  by (auto simp: cstr_def dest: set_takeWhileD)

lemma cstr_id: "0 \<notin> set s \<Longrightarrow> cstr s = s"
  by (induction s) (auto simp: cstr_def)

lemma cstr_cstr [simp]: "cstr (cstr m) = cstr m"
  by (simp add: cstr_id)

lemma cstr_Nil [simp]: "cstr [] = []"
  by (simp add: cstr_def)

lemma cstr_Cons [simp]: "cstr (c # m) = (if c = 0 then [] else c # cstr m)"
  by (simp add: cstr_def)

lemma cstr_terminated: "0 \<notin> set s \<Longrightarrow> cstr (s @ 0 # t) = s"
  by (simp add: cstr_def)

lemma set_cstr_subset: "set (cstr m) \<subseteq> set m"
  by (auto simp: cstr_def dest: set_takeWhileD)

lemma length_cstr_le: "length (cstr m) \<le> length m"
  by (simp add: cstr_def length_takeWhile_le)

lemma strnlen_le: "strnlen s n \<le> n"
  unfolding strnlen_def
  by (rule order_trans [OF length_takeWhile_le]) simp

lemma strnlen_eq: "strnlen s n = min n (length (cstr s))"
  unfolding strnlen_def cstr_def
  by (induction s arbitrary: n) (auto simp: take_Cons split: nat.splits)

lemma null_terminated_iff: "null_terminated m n \<longleftrightarrow> length (cstr m) < n"
  by (auto simp: null_terminated_def strnlen_eq)

lemma null_terminated_in: "length m = n \<Longrightarrow> null_terminated m n \<longleftrightarrow> 0 \<in> set m"
proof -
  assume n: "length m = n"
  have "length (cstr m) < length m \<longleftrightarrow> 0 \<in> set m"
    by (induction m) (auto simp: less_Suc_eq_le intro: length_cstr_le)
  with n show ?thesis by (simp add: null_terminated_iff)
qed

lemma notin_take: "x \<notin> set s \<Longrightarrow> x \<notin> set (take n s)"
  by (meson in_set_takeD)

lemma snprintf_s_cstr: "0 < n \<Longrightarrow> cstr (snprintf_s dst n src) = take (n - 1) (cstr src)"
  by (simp add: snprintf_s_def overlay_def cstr_terminated notin_take)

lemma snprintf_s_length:
  "0 < n \<Longrightarrow> n \<le> length dst \<Longrightarrow> length (snprintf_s dst n src) = length dst"
  by (simp add: snprintf_s_def length_overlay)

lemma is_nickchar_iff: "is_nickchar c \<longleftrightarrow> 33 \<le> c \<and> c \<le> 126"
  unfolding is_nickchar_def ispunct_def isalnum_def isgraph_def isdigit_def isupper_def
    islower_def
  by (auto simp: word_le_nat_alt)

lemma nickstr_loop_iff: "nickstr_loop s \<longleftrightarrow> (\<forall>c \<in> set (cstr s). is_nickchar c)"
  by (induction s) auto

lemma tolower_0 [simp]: "tolower 0 = 0"
  by (auto simp: tolower_def isupper_def)

lemma tolower_eq_0 [simp]: "tolower c = 0 \<longleftrightarrow> c = 0"
proof -
  have "c + 32 \<noteq> 0" if "isupper c"
  proof -
    from that have "unat c + 32 < 256"
      by (auto simp: isupper_def word_le_nat_alt)
    then have "unat (c + 32) = unat c + 32" by (simp add: unat_word_ariths)
    then show ?thesis by auto
  qed
  moreover have "\<not> isupper 0" by (simp add: isupper_def)
  ultimately show ?thesis by (auto simp: tolower_def)
qed

lemma chr_at_simps [simp]: "chr_at [] = 0" "chr_at (c # s) = c"
  by (simp_all add: chr_at_def)

text \<open>
  \<open>strncasecmp\<close> is the comparison of a total preorder on strings: antisymmetric up to
  sign and transitive. Both are by induction on the number of bytes compared.
\<close>

lemma strncasecmp_sym: "strncasecmp t s n = - strncasecmp s t n"
proof (induction n arbitrary: s t)
  case 0
  then show ?case by simp
next
  case (Suc n)
  show ?case using Suc.IH [of "tl t" "tl s"] by (simp add: Let_def)
qed

lemma strncasecmp_trans:
  "strncasecmp s t n \<le> 0 \<Longrightarrow> strncasecmp t u n \<le> 0 \<Longrightarrow> strncasecmp s u n \<le> 0"
proof (induction n arbitrary: s t u)
  case 0
  then show ?case by simp
next
  case (Suc n)
  let ?a = "tolower (chr_at s)" and ?b = "tolower (chr_at t)" and ?c = "tolower (chr_at u)"
  have st: "uint ?a \<le> uint ?b" and tu: "uint ?b \<le> uint ?c"
    using Suc.prems by (auto simp: Let_def split: if_splits)
  show ?case
  proof (cases "?a = ?b \<and> ?b = ?c")
    case True
    with Suc.prems Suc.IH [of "tl s" "tl t" "tl u"] show ?thesis
      by (auto simp: Let_def split: if_splits)
  next
    case False
    have "?a \<noteq> ?c"
    proof
      assume "?a = ?c"
      with st tu have "uint ?a = uint ?b" by simp
      then have "?a = ?b" by (rule word_uint_eqI)
      with \<open>?a = ?c\<close> False show False by simp
    qed
    with st tu show ?thesis by (simp add: Let_def)
  qed
qed

lemma strncasecmp_refl [simp]: "strncasecmp s s n = 0"
  by (induction n arbitrary: s) (auto simp: Let_def)

lemma strncasecmp_eq_0_iff:
  "strncasecmp s t n = 0 \<longleftrightarrow> map tolower (take n (cstr s)) = map tolower (take n (cstr t))"
proof (induction n arbitrary: s t)
  case 0
  then show ?case by simp
next
  case (Suc n)
  show ?case
    by (cases s; cases t) (auto simp: Let_def Suc.IH uint_0_iff dest: word_uint_eqI)
qed

end
