(* ===== verification/SearchTree.thy ===== *)
theory SearchTree imports Prelude begin

text \<open>
  The binary search trees of \<open>search.h\<close> that hold the server's and the client's
  tables: \<open>tfind\<close>, \<open>tsearch\<close>, \<open>tdelete\<close> and the in-order \<open>twalk_r\<close>. A tree is
  the list of the stored pointers in the order of the comparison function, which
  is called on the objects they point to; \<open>h\<close> is the heap.

  The comparison function is a parameter. Its law, that of a total preorder, is
  the locale \<open>comparator\<close>; the trees of a comparator find what was inserted, keep
  their order and lose exactly what is deleted. The theories that declare
  \<open>cmp_by_id\<close>, \<open>cmp_by_nick\<close>, \<open>cmp_by_fd\<close> and \<open>cmp_by_chid\<close> interpret it.
\<close>

section \<open>Operations\<close>

definition matches :: "('k \<Rightarrow> 'e \<Rightarrow> int) \<Rightarrow> (ptr \<rightharpoonup> 'e) \<Rightarrow> 'k \<Rightarrow> ptr \<Rightarrow> bool" where
  "matches cmp h key p \<longleftrightarrow>
     (case h p of None \<Rightarrow> False | Some e \<Rightarrow> cmp key e = 0)"

definition tfind :: "('k \<Rightarrow> 'e \<Rightarrow> int) \<Rightarrow> (ptr \<rightharpoonup> 'e) \<Rightarrow> 'k \<Rightarrow> ptr list \<Rightarrow> ptr option" where
  "tfind cmp h key t = List.find (matches cmp h key) t"

text \<open>The tree and the pointer in the node that \<open>tsearch\<close> returns.\<close>

fun tsearch :: "('e \<Rightarrow> 'e \<Rightarrow> int) \<Rightarrow> (ptr \<rightharpoonup> 'e) \<Rightarrow> ptr \<Rightarrow> 'e \<Rightarrow> ptr list \<Rightarrow> ptr list \<times> ptr"
where
  "tsearch cmp h p e [] = ([p], p)"
| "tsearch cmp h p e (q # t) =
     (case h q of
        None \<Rightarrow> (q # t, q)
      | Some a \<Rightarrow>
          if cmp e a = 0 then (q # t, q)
          else if cmp e a < 0 then (p # q # t, p)
          else (let (t', r) = tsearch cmp h p e t in (q # t', r)))"

fun tdelete :: "('k \<Rightarrow> 'e \<Rightarrow> int) \<Rightarrow> (ptr \<rightharpoonup> 'e) \<Rightarrow> 'k \<Rightarrow> ptr list \<Rightarrow> ptr list \<times> bool"
where
  "tdelete cmp h key [] = ([], False)"
| "tdelete cmp h key (q # t) =
     (if matches cmp h key q then (t, True)
      else (let (t', b) = tdelete cmp h key t in (q # t', b)))"

section \<open>Well-formed trees\<close>

definition less_at :: "('e \<Rightarrow> 'e \<Rightarrow> int) \<Rightarrow> (ptr \<rightharpoonup> 'e) \<Rightarrow> ptr \<Rightarrow> ptr \<Rightarrow> bool" where
  "less_at cmp h p q \<longleftrightarrow>
     (case (h p, h q) of (Some a, Some b) \<Rightarrow> cmp a b < 0 | _ \<Rightarrow> False)"

definition tree_ok :: "('e \<Rightarrow> 'e \<Rightarrow> int) \<Rightarrow> (ptr \<rightharpoonup> 'e) \<Rightarrow> ptr list \<Rightarrow> bool" where
  "tree_ok cmp h t \<longleftrightarrow> set t \<subseteq> dom h \<and> sorted_wrt (less_at cmp h) t"

lemma tree_ok_Nil [simp]: "tree_ok cmp h []"
  by (simp add: tree_ok_def)

lemma less_at_Some [simp]: "h p = Some a \<Longrightarrow> h q = Some b \<Longrightarrow> less_at cmp h p q \<longleftrightarrow> cmp a b < 0"
  by (simp add: less_at_def)

lemma less_atE:
  assumes "less_at cmp h p q"
  obtains a b where "h p = Some a" and "h q = Some b" and "cmp a b < 0"
  using assms by (auto simp: less_at_def split: option.splits)

lemma matches_Some [simp]: "h p = Some e \<Longrightarrow> matches cmp h key p \<longleftrightarrow> cmp key e = 0"
  by (simp add: matches_def)

lemma matchesE:
  assumes "matches cmp h key p"
  obtains e where "h p = Some e" and "cmp key e = 0"
  using assms by (auto simp: matches_def split: option.splits)

lemma tfind_SomeE:
  assumes "tfind cmp h key t = Some p"
  obtains e where "p \<in> set t" and "h p = Some e" and "cmp key e = 0"
proof -
  from assms have "p \<in> set t" and "matches cmp h key p"
    by (auto simp: tfind_def find_Some_iff)
  then show thesis using that by (auto elim: matchesE)
qed

lemma tfind_None_iff: "tfind cmp h key t = None \<longleftrightarrow> (\<forall>p \<in> set t. \<not> matches cmp h key p)"
  by (auto simp: tfind_def find_None_iff)

lemma tree_ok_live: "tree_ok cmp h t \<Longrightarrow> p \<in> set t \<Longrightarrow> \<exists>e. h p = Some e"
  by (auto simp: tree_ok_def)

lemma tree_ok_Cons:
  "tree_ok cmp h (p # t) \<longleftrightarrow>
     (\<exists>a. h p = Some a) \<and> (\<forall>q \<in> set t. less_at cmp h p q) \<and> tree_ok cmp h t"
  by (auto simp: tree_ok_def)

lemma tdelete_subset: "set (fst (tdelete cmp h key t)) \<subseteq> set t"
  by (induction t) (auto split: prod.splits)

lemma tdelete_found: "snd (tdelete cmp h key t) \<longleftrightarrow> tfind cmp h key t \<noteq> None"
  by (induction t) (auto simp: tfind_def split: prod.splits)

lemma tree_ok_tdelete: "tree_ok cmp h t \<Longrightarrow> tree_ok cmp h (fst (tdelete cmp h key t))"
proof (induction t)
  case Nil
  then show ?case by simp
next
  case (Cons q t)
  then show ?case
    using tdelete_subset [of cmp h key t]
    by (auto simp: tree_ok_Cons split: prod.splits)
qed

text \<open>A write to the heap that keeps what the comparison reads keeps the tree.\<close>

lemma tree_ok_cong:
  assumes "tree_ok cmp h t"
    and "\<And>p. p \<in> set t \<Longrightarrow> \<exists>a b. h p = Some a \<and> h' p = Some b \<and>
           (\<forall>c. cmp b c = cmp a c) \<and> (\<forall>c. cmp c b = cmp c a)"
  shows "tree_ok cmp h' t"
  using assms
proof (induction t)
  case Nil
  then show ?case by simp
next
  case (Cons p t)
  have "less_at cmp h' p q" if q: "q \<in> set t" for q
  proof -
    obtain a b where ab: "h p = Some a" "h' p = Some b"
      "\<forall>c. cmp b c = cmp a c"
      using Cons.prems(2) [of p] by auto
    obtain c d where cd: "h q = Some c" "h' q = Some d"
      "\<forall>e. cmp e d = cmp e c"
      using Cons.prems(2) [of q] q by auto
    from Cons.prems(1) q have "less_at cmp h p q" by (simp add: tree_ok_Cons)
    with ab cd show ?thesis by simp
  qed
  moreover have "tree_ok cmp h' t"
    using Cons by (auto simp: tree_ok_Cons)
  ultimately show ?case using Cons.prems(2) [of p] by (auto simp: tree_ok_Cons)
qed

lemma tree_ok_unused: "tree_ok cmp h t \<Longrightarrow> p \<notin> set t \<Longrightarrow> tree_ok cmp (h(p := x)) t"
proof -
  assume t: "tree_ok cmp h t" and p: "p \<notin> set t"
  show ?thesis
  proof (rule tree_ok_cong [OF t])
    fix q assume "q \<in> set t"
    with p have "q \<noteq> p" by blast
    moreover obtain a where "h q = Some a" using tree_ok_live [OF t \<open>q \<in> set t\<close>] by blast
    ultimately have "h q = Some a" "(h(p := x)) q = Some a" by simp_all
    then show "\<exists>a b. h q = Some a \<and> (h(p := x)) q = Some b \<and>
        (\<forall>c. cmp b c = cmp a c) \<and> (\<forall>c. cmp c b = cmp c a)" by auto
  qed
qed

text \<open>A search reads the objects of the tree only, and of the key only what is compared.\<close>

lemma tfind_cong_key: "(\<And>e. cmp k e = cmp k' e) \<Longrightarrow> tfind cmp h k t = tfind cmp h k' t"
proof -
  assume "\<And>e. cmp k e = cmp k' e"
  then have "matches cmp h k = matches cmp h k'"
    by (auto simp: matches_def fun_eq_iff split: option.split)
  then show ?thesis by (simp add: tfind_def)
qed

lemma tfind_unused: "p \<notin> set t \<Longrightarrow> tfind cmp (h(p := x)) k t = tfind cmp h k t"
  unfolding tfind_def by (induction t) (auto simp: matches_def)

section \<open>The interface\<close>

locale comparator =
  fixes cmp :: "'e \<Rightarrow> 'e \<Rightarrow> int"
  assumes cmp_sym: "sgn (cmp b a) = - sgn (cmp a b)"
    and cmp_trans: "cmp a b \<le> 0 \<Longrightarrow> cmp b c \<le> 0 \<Longrightarrow> cmp a c \<le> 0"
begin

lemma cmp_refl: "cmp a a = 0"
  using cmp_sym [of a a] by (simp add: sgn_if split: if_splits)

lemma cmp_neg_flip: "cmp b a < 0 \<longleftrightarrow> 0 < cmp a b"
  using cmp_sym [of a b] by (auto simp: sgn_if split: if_splits)

lemma cmp_zero_flip: "cmp b a = 0 \<longleftrightarrow> cmp a b = 0"
  using cmp_sym [of a b] by (auto simp: sgn_if split: if_splits)

lemma cmp_less_trans: "cmp a b < 0 \<Longrightarrow> cmp b c \<le> 0 \<Longrightarrow> cmp a c < 0"
proof -
  assume ab: "cmp a b < 0" and bc: "cmp b c \<le> 0"
  have "cmp a c \<le> 0" using ab bc cmp_trans [of a b c] by simp
  moreover have "cmp a c \<noteq> 0"
  proof
    assume "cmp a c = 0"
    then have "cmp c a \<le> 0" using cmp_zero_flip [of a c] by simp
    with bc have "cmp b a \<le> 0" by (rule cmp_trans)
    with ab show False using cmp_neg_flip [of a b] by simp
  qed
  ultimately show ?thesis by simp
qed

lemma cmp_eq_less: "cmp a b = 0 \<Longrightarrow> cmp b c < 0 \<Longrightarrow> cmp a c < 0"
  by (metis cmp_less_trans cmp_neg_flip cmp_trans cmp_zero_flip leD le_less_linear
      order_less_imp_le order_refl)

lemma less_at_trans: "less_at cmp h p q \<Longrightarrow> less_at cmp h q r \<Longrightarrow> less_at cmp h p r"
  by (elim less_atE) (auto intro: cmp_less_trans)

lemma less_at_irrefl: "\<not> less_at cmp h p p"
  by (auto simp: cmp_refl elim: less_atE)

lemma tree_ok_distinct: "tree_ok cmp h t \<Longrightarrow> distinct t"
  by (induction t) (auto simp: tree_ok_Cons less_at_irrefl)

text \<open>At most one node of a tree compares equal to a key.\<close>

lemma matches_unique:
  assumes "tree_ok cmp h t" and "p \<in> set t" and "q \<in> set t"
    and "matches cmp h k p" and "matches cmp h k q"
  shows "p = q"
proof (rule ccontr)
  assume ne: "p \<noteq> q"
  obtain a b where a: "h p = Some a" "cmp k a = 0" and b: "h q = Some b" "cmp k b = 0"
    using assms(4,5) by (auto elim!: matchesE)
  have "less_at cmp h p q \<or> less_at cmp h q p"
    using assms(1-3) ne
    by (induction t) (auto simp: tree_ok_Cons)
  with a b have "cmp a b < 0 \<or> cmp b a < 0" by auto
  then show False
    using a b cmp_eq_less [of k a b] cmp_eq_less [of k b a] by auto
qed

lemma tfind_eq:
  assumes "tree_ok cmp h t" and "p \<in> set t" and "h p = Some e" and "cmp k e = 0"
  shows "tfind cmp h k t = Some p"
  unfolding tfind_def
proof (rule find_eq_Some_distinct)
  show "p \<in> set t" by fact
  show m: "matches cmp h k p" using assms(3,4) by simp
  show "q = p" if "q \<in> set t" "matches cmp h k q" for q
    using matches_unique [OF assms(1) that(1) assms(2) that(2) m] .
qed

text \<open>Inserting a key that is not in the tree adds its pointer, and keeps the order.\<close>

lemma tsearch_new:
  assumes "tree_ok cmp h t" and "h p = Some e" and "tfind cmp h e t = None"
  shows "tree_ok cmp h (fst (tsearch cmp h p e t))
    \<and> snd (tsearch cmp h p e t) = p
    \<and> set (fst (tsearch cmp h p e t)) = insert p (set t)
    \<and> length (fst (tsearch cmp h p e t)) = Suc (length t)"
  using assms
proof (induction t)
  case Nil
  then show ?case by (simp add: tree_ok_def dom_def)
next
  case (Cons q t)
  obtain a where a: "h q = Some a" using Cons.prems(1) by (auto simp: tree_ok_Cons)
  have ne: "cmp e a \<noteq> 0" and none: "tfind cmp h e t = None"
    using Cons.prems(3) a by (auto simp: tfind_None_iff)
  have tok: "tree_ok cmp h t" using Cons.prems(1) by (simp add: tree_ok_Cons)
  show ?case
  proof (cases "cmp e a < 0")
    case True
    then have "less_at cmp h p r" if "r \<in> set (q # t)" for r
      using that Cons.prems(1,2) a less_at_trans [of h p q r] by (auto simp: tree_ok_Cons)
    with True a ne Cons.prems(1,2) show ?thesis by (simp add: tree_ok_Cons)
  next
    case False
    with ne have "cmp a e < 0" using cmp_neg_flip [of a e] by simp
    then have "less_at cmp h q p" using a Cons.prems(2) by simp
    with False ne a Cons.IH [OF tok Cons.prems(2) none] Cons.prems(1) show ?thesis
      by (auto simp: tree_ok_Cons split: prod.splits)
  qed
qed

text \<open>With an equal key already there, nothing changes and its node is returned.\<close>

lemma tsearch_old:
  assumes "tree_ok cmp h t" and "tfind cmp h e t = Some q"
  shows "tsearch cmp h p e t = (t, q)"
  using assms
proof (induction t)
  case Nil
  then show ?case by (simp add: tfind_def)
next
  case (Cons r t)
  obtain a where a: "h r = Some a" using Cons.prems(1) by (auto simp: tree_ok_Cons)
  show ?case
  proof (cases "cmp e a = 0")
    case True
    with a Cons.prems(2) show ?thesis by (simp add: tfind_def)
  next
    case False
    with a Cons.prems(2) have f: "tfind cmp h e t = Some q" by (simp add: tfind_def)
    then obtain b where b: "q \<in> set t" "h q = Some b" "cmp e b = 0"
      by (rule tfind_SomeE)
    with Cons.prems(1) a have "cmp a b < 0" by (auto simp: tree_ok_Cons)
    then have "\<not> cmp e a < 0"
      using b(3) cmp_less_trans [of e a b] by auto
    with False a Cons.IH f Cons.prems(1) show ?thesis by (simp add: tree_ok_Cons)
  qed
qed

text \<open>The test the code makes after an insertion: is the returned node its own?\<close>

lemma tsearch_own:
  assumes "tree_ok cmp h t" and "h p = Some e" and "p \<notin> set t" and "tsearch cmp h p e t = (t', p)"
  shows "tfind cmp h e t = None \<and> tree_ok cmp h t' \<and> set t' = insert p (set t) \<and>
    length t' = Suc (length t)"
proof -
  have "tfind cmp h e t = None"
  proof (rule ccontr)
    assume "tfind cmp h e t \<noteq> None"
    then obtain q where q: "tfind cmp h e t = Some q" by blast
    with tsearch_old [OF assms(1) q, of p] assms(4) have "q = p" by simp
    with q assms(3) show False by (auto elim: tfind_SomeE)
  qed
  with tsearch_new [OF assms(1,2)] assms(4) show ?thesis by simp
qed

text \<open>Deletion removes exactly the node that compares equal.\<close>

lemma tsearch_result:
  assumes "tree_ok cmp h t" and "h p = Some e" and "p \<notin> set t"
  shows "snd (tsearch cmp h p e t) = p \<longleftrightarrow> tfind cmp h e t = None"
proof (cases "tfind cmp h e t")
  case None
  with tsearch_new [OF assms(1,2)] show ?thesis by simp
next
  case (Some q)
  then have "q \<in> set t" by (auto elim: tfind_SomeE)
  with tsearch_old [OF assms(1) Some, of p] assms(3) Some show ?thesis by auto
qed

lemma tdelete_eq:
  assumes "tree_ok cmp h t" and "p \<in> set t" and "h p = Some e" and "cmp k e = 0"
  shows "fst (tdelete cmp h k t) = remove1 p t
    \<and> snd (tdelete cmp h k t)
    \<and> set (fst (tdelete cmp h k t)) = set t - {p}"
proof -
  have "fst (tdelete cmp h k t) = remove1 p t"
    using assms
  proof (induction t)
    case Nil
    then show ?case by simp
  next
    case (Cons q t)
    show ?case
    proof (cases "q = p")
      case True
      with Cons.prems show ?thesis by simp
    next
      case False
      then have "\<not> matches cmp h k q"
        using matches_unique [OF Cons.prems(1), of q p k] Cons.prems(2-4) by auto
      with False Cons show ?thesis by (auto simp: tree_ok_Cons split: prod.splits)
    qed
  qed
  with assms tree_ok_distinct [OF assms(1)] tfind_eq [OF assms] show ?thesis
    by (simp add: tdelete_found)
qed

lemma tfind_absent_after_delete:
  assumes "tree_ok cmp h t" and "p \<in> set t" and "h p = Some e" and "cmp k e = 0"
  shows "tfind cmp h k (fst (tdelete cmp h k t)) = None"
  using tdelete_eq [OF assms] matches_unique [OF assms(1)] assms
  by (auto simp: tfind_None_iff)

end

end
