(* ===== verification/Common.thy ===== *)
theory Common imports CLib SearchTree begin

text \<open>
  The declarations of \<open>lib/common.h\<close>: constants, enumerations, the records shared
  by the two programs and the packed structs of the protocol, the rules of the
  game and the comparison functions of the search trees.

  The enumerations that travel over the network (\<open>msg_kind_t\<close>, \<open>msg_err_t\<close>,
  \<open>user_state_t\<close>, \<open>battle_act_t\<close>, \<open>challenge_action_t\<close>) are kept as words with
  named values, because the code stores values into them that it has not checked.
  The field names carry the initials of their struct.
\<close>

section \<open>Constants and enumerations\<close>

definition UCHANGE_MAX_UCNT :: nat where "UCHANGE_MAX_UCNT = 16"

definition DEFAULT_PORT :: u32 where "DEFAULT_PORT = 22502"

definition ADDR_MAX_LEN :: nat where "ADDR_MAX_LEN = 128"

abbreviation (input) UOFFLINE :: u32 where "UOFFLINE \<equiv> 0"
abbreviation (input) UONLINE :: u32 where "UONLINE \<equiv> 1"
abbreviation (input) UBATTLING :: u32 where "UBATTLING \<equiv> 2"

abbreviation (input) B_ROCK :: u32 where "B_ROCK \<equiv> 0"
abbreviation (input) B_PAPER :: u32 where "B_PAPER \<equiv> 1"
abbreviation (input) B_SCISSORS :: u32 where "B_SCISSORS \<equiv> 2"

abbreviation (input) JOIN :: u16 where "JOIN \<equiv> 1"
abbreviation (input) JOIN_R :: u16 where "JOIN_R \<equiv> 2"
abbreviation (input) QUIT :: u16 where "QUIT \<equiv> 3"
abbreviation (input) UCHANGE :: u16 where "UCHANGE \<equiv> 4"
abbreviation (input) CHALLENGE :: u16 where "CHALLENGE \<equiv> 5"
abbreviation (input) CHALLENGE_R :: u16 where "CHALLENGE_R \<equiv> 6"
abbreviation (input) TURN :: u16 where "TURN \<equiv> 7"
abbreviation (input) TURN_R :: u16 where "TURN_R \<equiv> 8"
abbreviation (input) SENDMSG :: u16 where "SENDMSG \<equiv> 9"
abbreviation (input) MSG_MAX :: u16 where "MSG_MAX \<equiv> 10"

abbreviation (input) ME_OK :: u16 where "ME_OK \<equiv> 0"
abbreviation (input) DUPNICK :: u16 where "DUPNICK \<equiv> 1"
abbreviation (input) NXNICK :: u16 where "NXNICK \<equiv> 2"
abbreviation (input) ILLNICK :: u16 where "ILLNICK \<equiv> 3"
abbreviation (input) NXID :: u16 where "NXID \<equiv> 4"
abbreviation (input) ICKEY :: u16 where "ICKEY \<equiv> 5"
abbreviation (input) NXCHID :: u16 where "NXCHID \<equiv> 6"
abbreviation (input) TOOMANYUSER :: u16 where "TOOMANYUSER \<equiv> 7"
abbreviation (input) JOINTWICE :: u16 where "JOINTWICE \<equiv> 8"
abbreviation (input) ENGAGED :: u16 where "ENGAGED \<equiv> 9"
abbreviation (input) CHLSELF :: u16 where "CHLSELF \<equiv> 10"
abbreviation (input) INVARG :: u16 where "INVARG \<equiv> 11"
abbreviation (input) REJECTED :: u16 where "REJECTED \<equiv> 12"
abbreviation (input) CANCELLED :: u16 where "CANCELLED \<equiv> 13"
abbreviation (input) ME_OTHER :: u16 where "ME_OTHER \<equiv> 14"

abbreviation (input) C_START :: u16 where "C_START \<equiv> 0"
abbreviation (input) C_REJECT :: u16 where "C_REJECT \<equiv> 1"
abbreviation (input) C_ACCEPT :: u16 where "C_ACCEPT \<equiv> 2"
abbreviation (input) C_CANCEL :: u16 where "C_CANCEL \<equiv> 3"

datatype turn_result_t = TR_WIN | TR_LOSE | TR_EVEN

datatype challenge_state_t = ASKING | STARTED

section \<open>Users and challenges\<close>

text \<open>
  \<open>u_nickname\<close> is the C string in the nickname buffer; no code reads the bytes
  behind its terminator.
\<close>

record user_info_t =
  u_nickname :: cstring
  u_id :: u16
  u_score :: u32
  u_state :: u32

text \<open>The fields only the server has.\<close>

record server_user_t = user_info_t +
  u_fd :: int
  u_key :: u32
  u_chid :: u16

record challenge_t =
  ch_id :: u16
  user1 :: u16
  user2 :: u16
  turn_no :: u16
  acted1 :: bool
  acted2 :: bool
  act1 :: u32
  act2 :: u32
  hp1 :: u32
  hp2 :: u32
  maxhp1 :: u32
  maxhp2 :: u32
  ch_state :: challenge_state_t

section \<open>The protocol\<close>

record msg_join_t =
  j_nickname :: "byte list"

record msg_join_r_t =
  jr_nickname :: "byte list"
  jr_error :: u16
  jr_id :: u16
  jr_key :: u32

record msg_quit_t =
  qt_key :: u32
  qt_id :: u16

record uchange_user_t =
  uu_nickname :: "byte list"
  uu_id :: u16
  uu_state :: u16
  uu_score :: u32

record msg_uchange_t =
  uc_count :: u32
  uc_users :: "uchange_user_t list"

record msg_challenge_t =
  c_id1 :: u16
  c_id2 :: u16
  c_key :: u32
  c_chid :: u16
  c_action :: u16

record msg_challenge_r_t =
  cr_error :: u16
  cr_id1 :: u16
  cr_id2 :: u16
  cr_chid :: u16
  cr_is_id1 :: byte

record msg_turn_t =
  t_user :: u16
  t_chid :: u16
  t_key :: u32
  t_turn_no :: u16
  t_action :: u16

record msg_turn_r_t =
  tr_chid :: u16
  tr_turn_no :: u16
  tr_action1 :: u16
  tr_action2 :: u16
  tr_winner :: u16
  tr_hp1 :: u32
  tr_hp2 :: u32
  tr_maxhp1 :: u32
  tr_maxhp2 :: u32
  tr_fin :: byte

record msg_sendmsg_t =
  sm_id :: u16
  sm_key :: u32
  sm_text :: "byte list"

text \<open>The member of the union that is in use.\<close>

datatype msg_body_t =
    Join msg_join_t
  | Join_r msg_join_r_t
  | Quit msg_quit_t
  | Uchange msg_uchange_t
  | Challenge msg_challenge_t
  | Challenge_r msg_challenge_r_t
  | Turn msg_turn_t
  | Turn_r msg_turn_r_t
  | Sendmsg msg_sendmsg_t

record message_t =
  m_kind :: u16
  m_len :: u16
  m_body :: msg_body_t

section \<open>The rules of the game\<close>

definition get_turn_result :: "u32 \<Rightarrow> u32 \<Rightarrow> turn_result_t" where
  "get_turn_result a b =
     (if (a = B_ROCK \<and> b = B_SCISSORS) \<or> (a = B_PAPER \<and> b = B_ROCK) \<or>
         (a = B_SCISSORS \<and> b = B_PAPER) then TR_WIN
      else if (b = B_ROCK \<and> a = B_SCISSORS) \<or> (b = B_PAPER \<and> a = B_ROCK) \<or>
         (b = B_SCISSORS \<and> a = B_PAPER) then TR_LOSE
      else TR_EVEN)"

definition act_name :: "u32 \<Rightarrow> string" where
  "act_name act =
     (if act = B_ROCK then ''Rock''
      else if act = B_PAPER then ''Paper''
      else if act = B_SCISSORS then ''Scissors''
      else ''<unknown>'')"

fun flip_result :: "turn_result_t \<Rightarrow> turn_result_t" where
  "flip_result TR_WIN = TR_LOSE"
| "flip_result TR_LOSE = TR_WIN"
| "flip_result TR_EVEN = TR_EVEN"

definition valid_act :: "u32 \<Rightarrow> bool" where
  "valid_act a \<longleftrightarrow> a = B_ROCK \<or> a = B_PAPER \<or> a = B_SCISSORS"

lemma get_turn_result_flip: "get_turn_result b a = flip_result (get_turn_result a b)"
  by (auto simp: get_turn_result_def)

lemma get_turn_result_even_iff:
  "get_turn_result a b = TR_EVEN \<longleftrightarrow> a = b \<or> \<not> valid_act a \<or> \<not> valid_act b"
  unfolding get_turn_result_def valid_act_def by (auto split: if_splits)

section \<open>The comparison functions\<close>

text \<open>\<open>(x > y) - (x < y)\<close> in C.\<close>

definition c_compare :: "'a::linorder \<Rightarrow> 'a \<Rightarrow> int" where
  "c_compare x y = of_bool (x > y) - of_bool (x < y)"

definition cmp_by_id :: "'a user_info_t_scheme \<Rightarrow> 'b user_info_t_scheme \<Rightarrow> int" where
  "cmp_by_id u v = c_compare (u_id u) (u_id v)"

definition cmp_by_nick :: "'a user_info_t_scheme \<Rightarrow> 'b user_info_t_scheme \<Rightarrow> int" where
  "cmp_by_nick u v = nick_cmp (u_nickname u) (u_nickname v)"

definition cmp_by_fd :: "'a server_user_t_scheme \<Rightarrow> 'b server_user_t_scheme \<Rightarrow> int" where
  "cmp_by_fd u v = c_compare (u_fd u) (u_fd v)"

definition cmp_by_chid :: "challenge_t \<Rightarrow> challenge_t \<Rightarrow> int" where
  "cmp_by_chid c d = c_compare (ch_id c) (ch_id d)"

lemma c_compare_0 [simp]: "c_compare x y = 0 \<longleftrightarrow> x = y"
  by (auto simp: c_compare_def)

lemma c_compare_sym: "c_compare y x = - c_compare x y"
  by (simp add: c_compare_def)

lemma c_compare_le_0: "c_compare x y \<le> 0 \<longleftrightarrow> x \<le> y"
  by (auto simp: c_compare_def)

lemma cmp_by_id_0 [simp]: "cmp_by_id u v = 0 \<longleftrightarrow> u_id u = u_id v"
  by (simp add: cmp_by_id_def)

lemma cmp_by_fd_0 [simp]: "cmp_by_fd u v = 0 \<longleftrightarrow> u_fd u = u_fd v"
  by (simp add: cmp_by_fd_def)

lemma cmp_by_chid_0 [simp]: "cmp_by_chid c d = 0 \<longleftrightarrow> ch_id c = ch_id d"
  by (simp add: cmp_by_chid_def)

text \<open>
  Each of them is a \<open>comparator\<close>: the trees of the two programs are ordered by
  id, by case-insensitive nickname, by file descriptor and by challenge id.
\<close>

interpretation by_id: comparator "cmp_by_id :: 'a user_info_t_scheme \<Rightarrow> 'a user_info_t_scheme \<Rightarrow> int"
proof unfold_locales
  fix a b c :: "'a user_info_t_scheme"
  show "sgn (cmp_by_id b a) = - sgn (cmp_by_id a b)"
    by (simp add: cmp_by_id_def c_compare_sym [of "u_id b"])
  show "cmp_by_id a b \<le> 0 \<Longrightarrow> cmp_by_id b c \<le> 0 \<Longrightarrow> cmp_by_id a c \<le> 0"
    by (simp add: cmp_by_id_def c_compare_le_0)
qed

interpretation by_nick: comparator
  "cmp_by_nick :: 'a user_info_t_scheme \<Rightarrow> 'a user_info_t_scheme \<Rightarrow> int"
proof unfold_locales
  fix a b c :: "'a user_info_t_scheme"
  show "sgn (cmp_by_nick b a) = - sgn (cmp_by_nick a b)"
    using strncasecmp_sym [of "u_nickname b" "u_nickname a" NICKNAME_LEN]
    by (simp add: cmp_by_nick_def nick_cmp_def)
  show "cmp_by_nick a b \<le> 0 \<Longrightarrow> cmp_by_nick b c \<le> 0 \<Longrightarrow> cmp_by_nick a c \<le> 0"
    unfolding cmp_by_nick_def nick_cmp_def by (rule strncasecmp_trans)
qed

interpretation by_fd: comparator
  "cmp_by_fd :: 'a server_user_t_scheme \<Rightarrow> 'a server_user_t_scheme \<Rightarrow> int"
proof unfold_locales
  fix a b c :: "'a server_user_t_scheme"
  show "sgn (cmp_by_fd b a) = - sgn (cmp_by_fd a b)"
    by (simp add: cmp_by_fd_def c_compare_sym [of "u_fd b"])
  show "cmp_by_fd a b \<le> 0 \<Longrightarrow> cmp_by_fd b c \<le> 0 \<Longrightarrow> cmp_by_fd a c \<le> 0"
    by (simp add: cmp_by_fd_def c_compare_le_0)
qed

interpretation by_chid: comparator cmp_by_chid
proof unfold_locales
  fix a b c :: challenge_t
  show "sgn (cmp_by_chid b a) = - sgn (cmp_by_chid a b)"
    by (simp add: cmp_by_chid_def c_compare_sym [of "ch_id b"])
  show "cmp_by_chid a b \<le> 0 \<Longrightarrow> cmp_by_chid b c \<le> 0 \<Longrightarrow> cmp_by_chid a c \<le> 0"
    by (simp add: cmp_by_chid_def c_compare_le_0)
qed

end
