(* ===== verification/Wire.thy ===== *)
theory Wire imports Common begin

text \<open>
  How the packed structs of \<open>lib/common.h\<close> lie in memory, on a machine of either
  byte order: for every struct the bytes of a value (\<open>mem_...\<close>) and the value read
  from bytes (\<open>view_...\<close>), field after field without padding. The byte order of the
  host is an explicit parameter, because the conversion functions \<open>htons\<close> and
  \<open>htonl\<close> and the bytes that leave the machine depend on it.
\<close>

section \<open>Byte order\<close>

datatype endian = LittleEndian | BigEndian

definition hi8 :: "u16 \<Rightarrow> byte" where "hi8 w = ucast (drop_bit 8 w)"
definition lo8 :: "u16 \<Rightarrow> byte" where "lo8 w = ucast w"
definition mk16 :: "byte \<Rightarrow> byte \<Rightarrow> u16" where
  "mk16 h l = push_bit 8 (ucast h) OR ucast l"

definition hi16 :: "u32 \<Rightarrow> u16" where "hi16 w = ucast (drop_bit 16 w)"
definition lo16 :: "u32 \<Rightarrow> u16" where "lo16 w = ucast w"
definition mk32 :: "u16 \<Rightarrow> u16 \<Rightarrow> u32" where
  "mk32 h l = push_bit 16 (ucast h) OR ucast l"

definition be16 :: "u16 \<Rightarrow> byte list" where "be16 w = [hi8 w, lo8 w]"
definition be32 :: "u32 \<Rightarrow> byte list" where "be32 w = be16 (hi16 w) @ be16 (lo16 w)"

text \<open>The bytes of an integer in the memory of a host.\<close>

definition enc16 :: "endian \<Rightarrow> u16 \<Rightarrow> byte list" where
  "enc16 e w = (case e of LittleEndian \<Rightarrow> rev (be16 w) | BigEndian \<Rightarrow> be16 w)"

definition enc32 :: "endian \<Rightarrow> u32 \<Rightarrow> byte list" where
  "enc32 e w = (case e of LittleEndian \<Rightarrow> rev (be32 w) | BigEndian \<Rightarrow> be32 w)"

fun unbe16 :: "byte list \<Rightarrow> u16" where
  "unbe16 [h, l] = mk16 h l"
| "unbe16 _ = 0"

fun unbe32 :: "byte list \<Rightarrow> u32" where
  "unbe32 [a, b, c, d] = mk32 (mk16 a b) (mk16 c d)"
| "unbe32 _ = 0"

definition dec16 :: "endian \<Rightarrow> byte list \<Rightarrow> u16" where
  "dec16 e bs = unbe16 (case e of LittleEndian \<Rightarrow> rev bs | BigEndian \<Rightarrow> bs)"

definition dec32 :: "endian \<Rightarrow> byte list \<Rightarrow> u32" where
  "dec32 e bs = unbe32 (case e of LittleEndian \<Rightarrow> rev bs | BigEndian \<Rightarrow> bs)"

definition swap16 :: "u16 \<Rightarrow> u16" where "swap16 w = mk16 (lo8 w) (hi8 w)"
definition swap32 :: "u32 \<Rightarrow> u32" where
  "swap32 w = mk32 (swap16 (lo16 w)) (swap16 (hi16 w))"

text \<open>\<open>htons\<close>, \<open>htonl\<close>; \<open>ntohs\<close>, \<open>ntohl\<close> do the same.\<close>

definition hton16 :: "endian \<Rightarrow> u16 \<Rightarrow> u16" where
  "hton16 e w = (case e of LittleEndian \<Rightarrow> swap16 w | BigEndian \<Rightarrow> w)"

definition hton32 :: "endian \<Rightarrow> u32 \<Rightarrow> u32" where
  "hton32 e w = (case e of LittleEndian \<Rightarrow> swap32 w | BigEndian \<Rightarrow> w)"

named_theorems wire_simps

lemma hi8_mk16 [simp]: "hi8 (mk16 h l) = h"
  unfolding hi8_def mk16_def
  by (rule bit_word_eqI) (auto simp: bit_simps dest: bit_imp_le_length)

lemma lo8_mk16 [simp]: "lo8 (mk16 h l) = l"
  unfolding lo8_def mk16_def by (rule bit_word_eqI) (auto simp: bit_simps)

lemma mk16_hi8_lo8 [simp]: "mk16 (hi8 w) (lo8 w) = w"
  unfolding hi8_def lo8_def mk16_def
  by (rule bit_word_eqI) (auto simp: bit_simps not_less le_add_diff_inverse)

lemma hi16_mk32 [simp]: "hi16 (mk32 h l) = h"
  unfolding hi16_def mk32_def
  by (rule bit_word_eqI) (auto simp: bit_simps dest: bit_imp_le_length)

lemma lo16_mk32 [simp]: "lo16 (mk32 h l) = l"
  unfolding lo16_def mk32_def by (rule bit_word_eqI) (auto simp: bit_simps)

lemma mk32_hi16_lo16 [simp]: "mk32 (hi16 w) (lo16 w) = w"
  unfolding hi16_def lo16_def mk32_def
  by (rule bit_word_eqI) (auto simp: bit_simps not_less le_add_diff_inverse)

lemma swap16_swap16 [simp]: "swap16 (swap16 w) = w"
  by (simp add: swap16_def)

lemma swap32_swap32 [simp]: "swap32 (swap32 w) = w"
  by (simp add: swap32_def)

lemma length_enc16 [simp]: "length (enc16 e w) = 2"
  by (simp add: enc16_def be16_def split: endian.split)

lemma length_enc32 [simp]: "length (enc32 e w) = 4"
  by (simp add: enc32_def be32_def be16_def split: endian.split)

lemma dec16_enc16 [simp]: "dec16 e (enc16 e w) = w"
  by (simp add: dec16_def enc16_def be16_def split: endian.split)

lemma dec32_enc32 [simp]: "dec32 e (enc32 e w) = w"
  by (simp add: dec32_def enc32_def be32_def be16_def split: endian.split)

text \<open>What a converted integer puts on the wire does not depend on the host.\<close>

lemma enc16_hton16: "enc16 e (hton16 e w) = be16 w"
  by (simp add: enc16_def hton16_def be16_def swap16_def split: endian.split)

lemma enc32_hton32: "enc32 e (hton32 e w) = be32 w"
  by (simp add: enc32_def hton32_def be32_def be16_def swap32_def swap16_def
      split: endian.split)

lemma hton16_hton16 [simp]: "hton16 e (hton16 e w) = w"
  by (simp add: hton16_def split: endian.split)

lemma hton32_hton32 [simp]: "hton32 e (hton32 e w) = w"
  by (simp add: hton32_def split: endian.split)

lemma hton16_0 [simp]: "hton16 e 0 = 0"
  by (simp add: hton16_def swap16_def mk16_def hi8_def lo8_def split: endian.split)

section \<open>The structs in memory\<close>

definition mem_head :: "endian \<Rightarrow> u16 \<Rightarrow> u16 \<Rightarrow> byte list" where
  "mem_head e kind len = enc16 e kind @ enc16 e len"

definition mem_join :: "endian \<Rightarrow> msg_join_t \<Rightarrow> byte list" where
  "mem_join e m = j_nickname m"

definition mem_join_r :: "endian \<Rightarrow> msg_join_r_t \<Rightarrow> byte list" where
  "mem_join_r e m = jr_nickname m @ enc16 e (jr_error m) @ enc16 e (jr_id m) @ enc32 e (jr_key m)"

definition mem_quit :: "endian \<Rightarrow> msg_quit_t \<Rightarrow> byte list" where
  "mem_quit e m = enc32 e (qt_key m) @ enc16 e (qt_id m)"

definition mem_uchange_user :: "endian \<Rightarrow> uchange_user_t \<Rightarrow> byte list" where
  "mem_uchange_user e u =
     uu_nickname u @ enc16 e (uu_id u) @ enc16 e (uu_state u) @ enc32 e (uu_score u)"

definition mem_uchange :: "endian \<Rightarrow> msg_uchange_t \<Rightarrow> byte list" where
  "mem_uchange e m = enc32 e (uc_count m) @ concat (map (mem_uchange_user e) (uc_users m))"

definition mem_challenge :: "endian \<Rightarrow> msg_challenge_t \<Rightarrow> byte list" where
  "mem_challenge e m = enc16 e (c_id1 m) @ enc16 e (c_id2 m) @ enc32 e (c_key m) @
     enc16 e (c_chid m) @ enc16 e (c_action m)"

definition mem_challenge_r :: "endian \<Rightarrow> msg_challenge_r_t \<Rightarrow> byte list" where
  "mem_challenge_r e m = enc16 e (cr_error m) @ enc16 e (cr_id1 m) @ enc16 e (cr_id2 m) @
     enc16 e (cr_chid m) @ [cr_is_id1 m]"

definition mem_turn :: "endian \<Rightarrow> msg_turn_t \<Rightarrow> byte list" where
  "mem_turn e m = enc16 e (t_user m) @ enc16 e (t_chid m) @ enc32 e (t_key m) @
     enc16 e (t_turn_no m) @ enc16 e (t_action m)"

definition mem_turn_r :: "endian \<Rightarrow> msg_turn_r_t \<Rightarrow> byte list" where
  "mem_turn_r e m = enc16 e (tr_chid m) @ enc16 e (tr_turn_no m) @ enc16 e (tr_action1 m) @
     enc16 e (tr_action2 m) @ enc16 e (tr_winner m) @ enc32 e (tr_hp1 m) @ enc32 e (tr_hp2 m) @
     enc32 e (tr_maxhp1 m) @ enc32 e (tr_maxhp2 m) @ [tr_fin m]"

definition mem_sendmsg :: "endian \<Rightarrow> msg_sendmsg_t \<Rightarrow> byte list" where
  "mem_sendmsg e m = enc16 e (sm_id m) @ enc32 e (sm_key m) @ sm_text m"

definition byte_at :: "nat \<Rightarrow> byte list \<Rightarrow> byte" where
  "byte_at off bs = chr_at (drop off bs)"

definition view_join :: "endian \<Rightarrow> byte list \<Rightarrow> msg_join_t" where
  "view_join e bs = \<lparr>j_nickname = slice 0 32 bs\<rparr>"

definition view_join_r :: "endian \<Rightarrow> byte list \<Rightarrow> msg_join_r_t" where
  "view_join_r e bs = \<lparr>jr_nickname = slice 0 32 bs, jr_error = dec16 e (slice 32 2 bs),
     jr_id = dec16 e (slice 34 2 bs), jr_key = dec32 e (slice 36 4 bs)\<rparr>"

definition view_quit :: "endian \<Rightarrow> byte list \<Rightarrow> msg_quit_t" where
  "view_quit e bs = \<lparr>qt_key = dec32 e (slice 0 4 bs), qt_id = dec16 e (slice 4 2 bs)\<rparr>"

definition view_uchange_user :: "endian \<Rightarrow> byte list \<Rightarrow> uchange_user_t" where
  "view_uchange_user e bs = \<lparr>uu_nickname = slice 0 32 bs, uu_id = dec16 e (slice 32 2 bs),
     uu_state = dec16 e (slice 34 2 bs), uu_score = dec32 e (slice 36 4 bs)\<rparr>"

definition view_uchange :: "endian \<Rightarrow> byte list \<Rightarrow> msg_uchange_t" where
  "view_uchange e bs = \<lparr>uc_count = dec32 e (slice 0 4 bs),
     uc_users = map (\<lambda>i. view_uchange_user e (slice (4 + 40 * i) 40 bs)) [0..<UCHANGE_MAX_UCNT]\<rparr>"

definition view_challenge :: "endian \<Rightarrow> byte list \<Rightarrow> msg_challenge_t" where
  "view_challenge e bs = \<lparr>c_id1 = dec16 e (slice 0 2 bs), c_id2 = dec16 e (slice 2 2 bs),
     c_key = dec32 e (slice 4 4 bs), c_chid = dec16 e (slice 8 2 bs),
     c_action = dec16 e (slice 10 2 bs)\<rparr>"

definition view_challenge_r :: "endian \<Rightarrow> byte list \<Rightarrow> msg_challenge_r_t" where
  "view_challenge_r e bs = \<lparr>cr_error = dec16 e (slice 0 2 bs), cr_id1 = dec16 e (slice 2 2 bs),
     cr_id2 = dec16 e (slice 4 2 bs), cr_chid = dec16 e (slice 6 2 bs), cr_is_id1 = byte_at 8 bs\<rparr>"

definition view_turn :: "endian \<Rightarrow> byte list \<Rightarrow> msg_turn_t" where
  "view_turn e bs = \<lparr>t_user = dec16 e (slice 0 2 bs), t_chid = dec16 e (slice 2 2 bs),
     t_key = dec32 e (slice 4 4 bs), t_turn_no = dec16 e (slice 8 2 bs),
     t_action = dec16 e (slice 10 2 bs)\<rparr>"

definition view_turn_r :: "endian \<Rightarrow> byte list \<Rightarrow> msg_turn_r_t" where
  "view_turn_r e bs = \<lparr>tr_chid = dec16 e (slice 0 2 bs), tr_turn_no = dec16 e (slice 2 2 bs),
     tr_action1 = dec16 e (slice 4 2 bs), tr_action2 = dec16 e (slice 6 2 bs),
     tr_winner = dec16 e (slice 8 2 bs), tr_hp1 = dec32 e (slice 10 4 bs),
     tr_hp2 = dec32 e (slice 14 4 bs), tr_maxhp1 = dec32 e (slice 18 4 bs),
     tr_maxhp2 = dec32 e (slice 22 4 bs), tr_fin = byte_at 26 bs\<rparr>"

definition view_sendmsg :: "endian \<Rightarrow> byte list \<Rightarrow> msg_sendmsg_t" where
  "view_sendmsg e bs = \<lparr>sm_id = dec16 e (slice 0 2 bs), sm_key = dec32 e (slice 2 4 bs),
     sm_text = slice 6 128 bs\<rparr>"

lemma byte_at_here [slice_simps]: "byte_at 0 (b # bs) = b"
  by (simp add: byte_at_def)

lemma byte_at_skip [slice_simps]:
  "length xs \<le> off \<Longrightarrow> byte_at off (xs @ ys) = byte_at (off - length xs) ys"
  by (simp add: byte_at_def)

text \<open>Reading a struct from its own bytes gives it back.\<close>

lemma view_join_mem: "length (j_nickname m) = 32 \<Longrightarrow> view_join e (mem_join e m) = m"
  by (simp add: view_join_def mem_join_def slice_simps)

lemma view_join_r_mem: "length (jr_nickname m) = 32 \<Longrightarrow> view_join_r e (mem_join_r e m) = m"
  by (simp add: view_join_r_def mem_join_r_def slice_simps)

lemma view_quit_mem: "view_quit e (mem_quit e m) = m"
  by (simp add: view_quit_def mem_quit_def slice_simps)

lemma view_challenge_mem: "view_challenge e (mem_challenge e m) = m"
  by (simp add: view_challenge_def mem_challenge_def slice_simps)

lemma view_challenge_r_mem: "view_challenge_r e (mem_challenge_r e m) = m"
  by (simp add: view_challenge_r_def mem_challenge_r_def slice_simps)

lemma view_turn_mem: "view_turn e (mem_turn e m) = m"
  by (simp add: view_turn_def mem_turn_def slice_simps)

lemma view_turn_r_mem: "view_turn_r e (mem_turn_r e m) = m"
  by (simp add: view_turn_r_def mem_turn_r_def slice_simps)

lemma view_sendmsg_mem: "length (sm_text m) = 128 \<Longrightarrow> view_sendmsg e (mem_sendmsg e m) = m"
  by (simp add: view_sendmsg_def mem_sendmsg_def slice_simps)

lemma view_uchange_user_mem:
  "length (uu_nickname u) = 32 \<Longrightarrow> view_uchange_user e (mem_uchange_user e u) = u"
  by (simp add: view_uchange_user_def mem_uchange_user_def slice_simps)

lemma length_mem_uchange_user: "length (mem_uchange_user e u) = length (uu_nickname u) + 8"
  by (simp add: mem_uchange_user_def)

lemma slice_concat:
  "\<forall>x \<in> set xss. length x = n \<Longrightarrow> i < length xss \<Longrightarrow> slice (n * i) n (concat xss) = xss ! i"
proof (induction xss arbitrary: i)
  case Nil
  then show ?case by simp
next
  case (Cons x xss)
  then show ?case by (cases i) (auto simp: slice_simps)
qed

definition uchange_wf :: "msg_uchange_t \<Rightarrow> bool" where
  "uchange_wf m \<longleftrightarrow> length (uc_users m) = UCHANGE_MAX_UCNT \<and>
     list_all (\<lambda>u. length (uu_nickname u) = 32) (uc_users m)"

lemma length_mem_uchange: "uchange_wf m \<Longrightarrow> length (mem_uchange e m) = 644"
proof -
  assume wf: "uchange_wf m"
  have "sum_list (map (length \<circ> mem_uchange_user e) us) = 40 * length us"
    if "list_all (\<lambda>u. length (uu_nickname u) = 32) us" for us
    using that by (induction us) (auto simp: length_mem_uchange_user)
  with wf show ?thesis
    by (simp add: uchange_wf_def mem_uchange_def length_concat UCHANGE_MAX_UCNT_def)
qed

lemma view_uchange_mem: "uchange_wf m \<Longrightarrow> view_uchange e (mem_uchange e m) = m"
proof -
  assume wf: "uchange_wf m"
  let ?xss = "map (mem_uchange_user e) (uc_users m)"
  have ok: "length (uu_nickname (uc_users m ! i)) = 32" if "i < 16" for i
    using wf that by (auto simp: uchange_wf_def UCHANGE_MAX_UCNT_def list_all_length)
  have "slice (4 + 40 * i) 40 (mem_uchange e m) = mem_uchange_user e (uc_users m ! i)"
    if "i < 16" for i
  proof -
    have "slice (40 * i) 40 (concat ?xss) = ?xss ! i"
      using wf that
      by (intro slice_concat)
         (auto simp: length_mem_uchange_user uchange_wf_def UCHANGE_MAX_UCNT_def list_all_iff)
    with wf that show ?thesis
      by (simp add: mem_uchange_def slice_simps uchange_wf_def UCHANGE_MAX_UCNT_def)
  qed
  then have "map (\<lambda>i. view_uchange_user e (slice (4 + 40 * i) 40 (mem_uchange e m)))
      [0..<16] = map (\<lambda>i. uc_users m ! i) [0..<16]"
    using ok by (simp add: view_uchange_user_mem)
  also have "\<dots> = uc_users m"
    using wf map_nth [of "uc_users m"] by (simp add: uchange_wf_def UCHANGE_MAX_UCNT_def)
  finally show ?thesis
    by (simp add: view_uchange_def UCHANGE_MAX_UCNT_def mem_uchange_def slice_simps)
qed

end
