(* ===== verification/Net.thy ===== *)
theory Net imports Prelude begin

text \<open>
  Reading from a stream socket: the system call \<open>recv\<close> and \<open>recv_count\<close> of
  \<open>lib/common.c\<close>. What the peer's bytes look like to the reader is a list of
  segments: \<open>Data d\<close>, bytes that have arrived together, or \<open>Stall\<close>, a moment at
  which nothing is there. The end of the list is the end of the stream.
\<close>

section \<open>The socket\<close>

datatype segment = Data "byte list" | Stall

type_synonym socket = "segment list"

text \<open>
  \<open>recv_sock wait n\<close> returns at most \<open>n\<close> bytes of the first segment; no bytes stand
  for the results 0 (end of the stream) and -1. Without \<open>wait\<close>
  (\<open>MSG_DONTWAIT\<close>) it fails when nothing is there.
\<close>

fun recv_sock :: "bool \<Rightarrow> nat \<Rightarrow> socket \<Rightarrow> byte list \<times> socket" where
  "recv_sock wait n [] = ([], [])"
| "recv_sock wait n (Stall # r) = (if wait then recv_sock wait n r else ([], r))"
| "recv_sock wait n (Data d # r) =
     (if d = [] then ([], r)
      else (take n d, if n < length d then Data (drop n d) # r else r))"

text \<open>The bytes of the stream.\<close>

fun stream_of :: "socket \<Rightarrow> byte list" where
  "stream_of [] = []"
| "stream_of (Stall # r) = stream_of r"
| "stream_of (Data d # r) = d @ stream_of r"

lemma recv_sock_length: "length (fst (recv_sock wait n s)) \<le> n"
  by (induction wait n s rule: recv_sock.induct) auto

section \<open>recv_count\<close>

text \<open>
  The loop of \<open>recv_count\<close>: \<open>buf\<close> is the caller's buffer of \<open>len\<close> bytes. Each
  round writes at \<open>p\<close>, and \<open>p\<close> stays at the start of the buffer while \<open>len\<close>
  goes down. The result is whether all bytes came, the buffer and the rest of
  the stream.
\<close>

function recv_count :: "byte list \<Rightarrow> nat \<Rightarrow> bool \<Rightarrow> socket \<Rightarrow> bool \<times> byte list \<times> socket" where
  "recv_count buf len wait s =
     (if len = 0 then (True, buf, s)
      else case recv_sock wait len s of (d, s') \<Rightarrow>
        if d = [] then (False, buf, s')
        else recv_count (overlay d buf) (len - length d) wait s')"
  by pat_completeness auto
termination
  by (relation "measure (\<lambda>(buf, len, wait, s). len)") auto

declare recv_count.simps [simp del]

lemma recv_count_done [simp]: "recv_count buf 0 wait s = (True, buf, s)"
  by (simp add: recv_count.simps)

lemma recv_count_eof [simp]: "0 < len \<Longrightarrow> recv_count buf len wait [] = (False, buf, [])"
  by (simp add: recv_count.simps)

lemma recv_count_Data:
  assumes "0 < len" and "d \<noteq> []"
  shows "recv_count buf len wait (Data d # r) =
    (if len \<le> length d
     then (True, overlay (take len d) buf,
           if len < length d then Data (drop len d) # r else r)
     else recv_count (overlay d buf) (len - length d) wait r)"
  using assms by (subst recv_count.simps) auto

text \<open>
  When the bytes asked for have arrived in one piece, the buffer holds them and
  the stream goes on behind them.
\<close>

lemma recv_count_whole:
  assumes "length buf = len" and "len \<le> length d" and "0 < len"
  shows "recv_count buf len wait (Data d # r) =
    (True, take len d, if len < length d then Data (drop len d) # r else r)"
proof -
  from assms have "d \<noteq> []" by auto
  moreover have "overlay (take len d) buf = take len d"
    using assms by (intro overlay_full) simp
  ultimately show ?thesis using assms by (simp add: recv_count_Data)
qed

text \<open>
  When they arrive in two pieces, the second piece is written over the first.
\<close>

lemma recv_count_split:
  assumes "length buf = length d1 + length d2" and "d1 \<noteq> []" and "d2 \<noteq> []"
  shows "recv_count buf (length buf) wait (Data d1 # Data d2 # r) =
    (True, overlay d2 (overlay d1 buf), r)"
proof -
  from assms have pos: "0 < length d1" "0 < length d2" by simp_all
  then have "recv_count buf (length buf) wait (Data d1 # Data d2 # r) =
      recv_count (overlay d1 buf) (length d2) wait (Data d2 # r)"
    using assms by (subst recv_count_Data) auto
  also have "\<dots> = (True, overlay d2 (overlay d1 buf), r)"
    using pos assms(3) by (subst recv_count_Data) auto
  finally show ?thesis .
qed

lemma recv_count_length:
  "recv_count buf len wait s = (b, buf', s') \<Longrightarrow> len \<le> length buf \<Longrightarrow> length buf' = length buf"
proof (induction buf len wait s rule: recv_count.induct)
  case (1 buf len wait s)
  obtain d r where dr: "recv_sock wait len s = (d, r)" by fastforce
  have dlen: "length d \<le> len" using recv_sock_length [of wait len s] dr by simp
  show ?case
  proof (cases "len = 0 \<or> d = []")
    case True
    with "1.prems" dr show ?thesis by (subst (asm) recv_count.simps) (auto split: if_splits)
  next
    case False
    then have "recv_count (overlay d buf) (len - length d) wait r = (b, buf', s')"
      using "1.prems"(1) dr by (subst (asm) recv_count.simps) simp
    moreover have "len - length d \<le> length (overlay d buf)"
      using dlen "1.prems"(2) by (simp add: length_overlay)
    ultimately have "length buf' = length (overlay d buf)"
      using "1.IH" False dr by fastforce
    with dlen "1.prems"(2) show ?thesis by (simp add: length_overlay)
  qed
qed

end
