(* ===== verification/Messages.thy ===== *)
theory Messages imports Wire Net begin

text \<open>
  \<open>lib/messages.c\<close>: sizes and form of the nine kinds of messages, conversion between
  host and network byte order, sending and receiving, and the constructors.

  A message is its head and the union member its kind selects. \<open>msg_send\<close> yields the
  bytes it hands to the socket; \<open>msg_recv\<close> consumes a stream of segments.
\<close>

section \<open>Error texts\<close>

definition msg_err_desc :: "string list" where
  "msg_err_desc =
     [''OK'', ''Duplicate nickname'', ''Non-existence nickname'', ''Illegal nickname'',
      ''Non-existent ID'', ''Incorrect key'', ''Non-existent challenge ID'',
      ''Too many users online'', ''Joining twice on the same client'',
      ''User is engaged in another battle'', ''Challenging onself'', ''Invalid argument'',
      ''Challenge is rejected'', ''Challenge has been cancelled'', ''Other errors'']"

definition msg_strerror :: "u16 \<Rightarrow> string" where
  "msg_strerror err =
     (if ME_OK \<le> err \<and> err \<le> ME_OTHER then msg_err_desc ! unat (err - ME_OK)
      else msg_err_desc ! unat ME_OTHER)"

section \<open>Sizes and form\<close>

text \<open>The sizes of the packed structs.\<close>

definition msg_body_size :: "u16 \<Rightarrow> nat" where
  "msg_body_size kind =
     (if kind = JOIN then NICKNAME_LEN
      else if kind = JOIN_R then NICKNAME_LEN + 2 + 2 + 4
      else if kind = QUIT then 4 + 2
      else if kind = UCHANGE then 4 + UCHANGE_MAX_UCNT * (NICKNAME_LEN + 2 + 2 + 4)
      else if kind = CHALLENGE then 2 + 2 + 4 + 2 + 2
      else if kind = CHALLENGE_R then 2 + 2 + 2 + 2 + 1
      else if kind = TURN then 2 + 2 + 4 + 2 + 2
      else if kind = TURN_R then 2 + 2 + 2 + 2 + 2 + 4 + 4 + 4 + 4 + 1
      else if kind = SENDMSG then 2 + 4 + 128
      else if kind = MSG_MAX then 0
      else 0)"

definition bad_kind :: "u16 \<Rightarrow> bool" where
  "bad_kind kind \<longleftrightarrow> kind \<le> 0 \<or> MSG_MAX \<le> kind"

text \<open>The loop over the nicknames of a \<open>UCHANGE\<close> message.\<close>

definition check_nt_users :: "nat \<Rightarrow> uchange_user_t list \<Rightarrow> bool" where
  "check_nt_users count us \<longleftrightarrow>
     list_all (\<lambda>u. null_terminated (uu_nickname u) NICKNAME_LEN) (take count us)"

definition msg_check_form :: "message_t \<Rightarrow> bool" where
  "msg_check_form m =
     (if bad_kind (m_kind m) then False
      else if unat (m_len m) \<noteq> msg_body_size (m_kind m) then False
      else case m_body m of
          Join j \<Rightarrow> null_terminated (j_nickname j) NICKNAME_LEN
        | Join_r r \<Rightarrow> null_terminated (jr_nickname r) NICKNAME_LEN
        | Uchange u \<Rightarrow>
            (if unat (uc_count u) > UCHANGE_MAX_UCNT then False
             else check_nt_users (unat (uc_count u)) (uc_users u))
        | Sendmsg s \<Rightarrow> null_terminated (sm_text s) 128
        | Quit _ \<Rightarrow> True
        | Challenge _ \<Rightarrow> True
        | Challenge_r _ \<Rightarrow> True
        | Turn _ \<Rightarrow> True
        | Turn_r _ \<Rightarrow> True)"

section \<open>Byte order conversion\<close>

text \<open>
  The macro \<open>msg_body_conv\<close>. Each \<open>conv\<close> is its own inverse, so \<open>msg_body_n2l\<close> and
  \<open>msg_body_l2n\<close> differ in one place only: the loop over the users of a
  \<open>UCHANGE\<close> message is bounded by the count after its conversion, which on the
  way out is the count in network order. The scores are not converted.
\<close>

definition conv_user :: "endian \<Rightarrow> uchange_user_t \<Rightarrow> uchange_user_t" where
  "conv_user e u = u\<lparr>uu_id := hton16 e (uu_id u), uu_state := hton16 e (uu_state u)\<rparr>"

definition conv_users :: "endian \<Rightarrow> u32 \<Rightarrow> uchange_user_t list \<Rightarrow> uchange_user_t list" where
  "conv_users e count us =
     foldl (\<lambda>us i. us[i := conv_user e (us ! i)]) us [0..<min (unat count) UCHANGE_MAX_UCNT]"

definition conv_uchange :: "endian \<Rightarrow> msg_uchange_t \<Rightarrow> msg_uchange_t" where
  "conv_uchange e u =
     (let count' = hton32 e (uc_count u)
      in \<lparr>uc_count = count', uc_users = conv_users e count' (uc_users u)\<rparr>)"

definition conv_body :: "endian \<Rightarrow> msg_body_t \<Rightarrow> msg_body_t" where
  "conv_body e b =
     (case b of
        Join j \<Rightarrow> Join j
      | Join_r r \<Rightarrow> Join_r (r\<lparr>jr_error := hton16 e (jr_error r), jr_id := hton16 e (jr_id r),
          jr_key := hton32 e (jr_key r)\<rparr>)
      | Quit q \<Rightarrow> Quit (q\<lparr>qt_id := hton16 e (qt_id q), qt_key := hton32 e (qt_key q)\<rparr>)
      | Uchange u \<Rightarrow> Uchange (conv_uchange e u)
      | Challenge c \<Rightarrow> Challenge (c\<lparr>c_id1 := hton16 e (c_id1 c), c_id2 := hton16 e (c_id2 c),
          c_key := hton32 e (c_key c), c_chid := hton16 e (c_chid c),
          c_action := hton16 e (c_action c)\<rparr>)
      | Challenge_r r \<Rightarrow> Challenge_r (r\<lparr>cr_error := hton16 e (cr_error r),
          cr_id1 := hton16 e (cr_id1 r), cr_id2 := hton16 e (cr_id2 r),
          cr_chid := hton16 e (cr_chid r)\<rparr>)
      | Turn t \<Rightarrow> Turn (t\<lparr>t_user := hton16 e (t_user t), t_chid := hton16 e (t_chid t),
          t_key := hton32 e (t_key t), t_turn_no := hton16 e (t_turn_no t),
          t_action := hton16 e (t_action t)\<rparr>)
      | Turn_r t \<Rightarrow> Turn_r (t\<lparr>tr_chid := hton16 e (tr_chid t),
          tr_turn_no := hton16 e (tr_turn_no t), tr_action1 := hton16 e (tr_action1 t),
          tr_action2 := hton16 e (tr_action2 t), tr_hp1 := hton32 e (tr_hp1 t),
          tr_hp2 := hton32 e (tr_hp2 t), tr_maxhp1 := hton32 e (tr_maxhp1 t),
          tr_maxhp2 := hton32 e (tr_maxhp2 t), tr_winner := hton16 e (tr_winner t)\<rparr>)
      | Sendmsg s \<Rightarrow> Sendmsg (s\<lparr>sm_id := hton16 e (sm_id s), sm_key := hton32 e (sm_key s)\<rparr>))"

section \<open>The union in memory\<close>

definition mem_body :: "endian \<Rightarrow> msg_body_t \<Rightarrow> byte list" where
  "mem_body e b =
     (case b of Join j \<Rightarrow> mem_join e j | Join_r r \<Rightarrow> mem_join_r e r | Quit q \<Rightarrow> mem_quit e q
      | Uchange u \<Rightarrow> mem_uchange e u | Challenge c \<Rightarrow> mem_challenge e c
      | Challenge_r r \<Rightarrow> mem_challenge_r e r | Turn t \<Rightarrow> mem_turn e t
      | Turn_r t \<Rightarrow> mem_turn_r e t | Sendmsg s \<Rightarrow> mem_sendmsg e s)"

definition view_body :: "endian \<Rightarrow> u16 \<Rightarrow> byte list \<Rightarrow> msg_body_t" where
  "view_body e kind bs =
     (if kind = JOIN then Join (view_join e bs)
      else if kind = JOIN_R then Join_r (view_join_r e bs)
      else if kind = QUIT then Quit (view_quit e bs)
      else if kind = UCHANGE then Uchange (view_uchange e bs)
      else if kind = CHALLENGE then Challenge (view_challenge e bs)
      else if kind = CHALLENGE_R then Challenge_r (view_challenge_r e bs)
      else if kind = TURN then Turn (view_turn e bs)
      else if kind = TURN_R then Turn_r (view_turn_r e bs)
      else Sendmsg (view_sendmsg e bs))"

definition kind_of_body :: "msg_body_t \<Rightarrow> u16" where
  "kind_of_body b =
     (case b of Join _ \<Rightarrow> JOIN | Join_r _ \<Rightarrow> JOIN_R | Quit _ \<Rightarrow> QUIT | Uchange _ \<Rightarrow> UCHANGE
      | Challenge _ \<Rightarrow> CHALLENGE | Challenge_r _ \<Rightarrow> CHALLENGE_R | Turn _ \<Rightarrow> TURN
      | Turn_r _ \<Rightarrow> TURN_R | Sendmsg _ \<Rightarrow> SENDMSG)"

section \<open>Sending and receiving\<close>

text \<open>
  \<open>msg_recv\<close>: the result 0 with the message (\<open>Some\<close>) or -1 (\<open>None\<close>), and the rest of
  the stream. \<open>junk\<close> is the memory of the caller's uninitialised buffer.
\<close>

definition msg_recv :: "endian \<Rightarrow> byte list \<Rightarrow> bool \<Rightarrow> socket \<Rightarrow> message_t option \<times> socket" where
  "msg_recv e junk block_at_head s =
     (case recv_count (take 4 junk) 4 block_at_head s of (ok, hb, s1) \<Rightarrow>
        if \<not> ok then (None, s1)
        else let kind = hton16 e (dec16 e (slice 0 2 hb));
                 len = hton16 e (dec16 e (slice 2 2 hb))
        in if bad_kind kind then (None, s1)
        else if unat len \<noteq> msg_body_size kind then (None, s1)
        else case recv_count (slice 4 (unat len) junk) (unat len) True s1 of (ok2, bd, s2) \<Rightarrow>
          if \<not> ok2 then (None, s2)
          else let m = \<lparr>m_kind = kind, m_len = len, m_body = conv_body e (view_body e kind bd)\<rparr>
          in (if msg_check_form m then Some m else None, s2))"

text \<open>
  The bytes \<open>msg_send\<close> passes to \<open>send\<close>, \<open>None\<close> for the result -1 on a bad kind. The
  program only sends messages whose head describes the union member in use.
\<close>

definition msg_send_bytes :: "endian \<Rightarrow> message_t \<Rightarrow> byte list option" where
  "msg_send_bytes e m =
     (if bad_kind (m_kind m) then None
      else Some (take (4 + unat (m_len m))
        (mem_head e (hton16 e (m_kind m)) (hton16 e (m_len m)) @ mem_body e (conv_body e (m_body m)))))"

text \<open>\<open>sent\<close> is the result of the system call on that many bytes.\<close>

definition msg_send :: "endian \<Rightarrow> (nat \<Rightarrow> int) \<Rightarrow> message_t \<Rightarrow> int" where
  "msg_send e sent m =
     (case msg_send_bytes e m of None \<Rightarrow> -1
      | Some bs \<Rightarrow> if sent (length bs) = int (length bs) then 0 else -1)"

section \<open>Constructors\<close>

definition zeros :: "nat \<Rightarrow> byte list" where "zeros n = replicate n 0"

definition zero_user :: uchange_user_t where
  "zero_user = \<lparr>uu_nickname = zeros NICKNAME_LEN, uu_id = 0, uu_state = 0, uu_score = 0\<rparr>"

text \<open>The zeroed union, seen through the member of a kind.\<close>

definition zero_body :: "u16 \<Rightarrow> msg_body_t" where
  "zero_body kind =
     (if kind = JOIN then Join \<lparr>j_nickname = zeros NICKNAME_LEN\<rparr>
      else if kind = JOIN_R then
        Join_r \<lparr>jr_nickname = zeros NICKNAME_LEN, jr_error = 0, jr_id = 0, jr_key = 0\<rparr>
      else if kind = QUIT then Quit \<lparr>qt_key = 0, qt_id = 0\<rparr>
      else if kind = UCHANGE then
        Uchange \<lparr>uc_count = 0, uc_users = replicate UCHANGE_MAX_UCNT zero_user\<rparr>
      else if kind = CHALLENGE then
        Challenge \<lparr>c_id1 = 0, c_id2 = 0, c_key = 0, c_chid = 0, c_action = 0\<rparr>
      else if kind = CHALLENGE_R then
        Challenge_r \<lparr>cr_error = 0, cr_id1 = 0, cr_id2 = 0, cr_chid = 0, cr_is_id1 = 0\<rparr>
      else if kind = TURN then
        Turn \<lparr>t_user = 0, t_chid = 0, t_key = 0, t_turn_no = 0, t_action = 0\<rparr>
      else if kind = TURN_R then
        Turn_r \<lparr>tr_chid = 0, tr_turn_no = 0, tr_action1 = 0, tr_action2 = 0, tr_winner = 0,
                tr_hp1 = 0, tr_hp2 = 0, tr_maxhp1 = 0, tr_maxhp2 = 0, tr_fin = 0\<rparr>
      else Sendmsg \<lparr>sm_id = 0, sm_key = 0, sm_text = zeros 128\<rparr>)"

definition init_msg_buf :: "u16 \<Rightarrow> message_t" where
  "init_msg_buf kind =
     \<lparr>m_kind = kind, m_len = of_nat (msg_body_size kind), m_body = zero_body kind\<rparr>"

definition make_msg_buf :: "u16 \<Rightarrow> message_t" where
  "make_msg_buf kind = init_msg_buf kind"

definition make_join :: "cstring \<Rightarrow> message_t" where
  "make_join nickname =
     (make_msg_buf JOIN)\<lparr>m_body :=
        Join \<lparr>j_nickname = snprintf_s (zeros NICKNAME_LEN) NICKNAME_LEN nickname\<rparr>\<rparr>"

definition make_join_r :: "cstring \<Rightarrow> u16 \<Rightarrow> u16 \<Rightarrow> u32 \<Rightarrow> message_t" where
  "make_join_r nickname error uid key =
     (make_msg_buf JOIN_R)\<lparr>m_body :=
        Join_r \<lparr>jr_nickname = snprintf_s (zeros NICKNAME_LEN) NICKNAME_LEN nickname,
                jr_error = error, jr_id = uid, jr_key = key\<rparr>\<rparr>"

definition make_uchange :: "message_t" where
  "make_uchange = make_msg_buf UCHANGE"

definition make_challenge :: "message_t" where
  "make_challenge = make_msg_buf CHALLENGE"

definition init_challenge_r :: "message_t" where
  "init_challenge_r = init_msg_buf CHALLENGE_R"

text \<open>
  \<open>uchange_put\<close> is the branch of \<open>uchange_add_or_create\<close> that finds room:
  it fills the entry at \<open>count\<close> in place.
\<close>

definition uchange_put :: "msg_uchange_t \<Rightarrow> cstring \<Rightarrow> u16 \<Rightarrow> u32 \<Rightarrow> u32 \<Rightarrow> msg_uchange_t" where
  "uchange_put u nickname uid state score =
     (let cnt = unat (uc_count u); old = uc_users u ! cnt
      in \<lparr>uc_count = uc_count u + 1,
          uc_users = (uc_users u)[cnt :=
            \<lparr>uu_nickname = snprintf_s (uu_nickname old) NICKNAME_LEN nickname,
             uu_id = uid, uu_state = ucast state, uu_score = score\<rparr>]\<rparr>)"

definition uchange_of :: "message_t \<Rightarrow> msg_uchange_t" where
  "uchange_of m = (case m_body m of Uchange u \<Rightarrow> u | _ \<Rightarrow> \<lparr>uc_count = 0, uc_users = []\<rparr>)"

text \<open>
  The result, the message \<open>msg\<close> afterwards and what is stored through \<open>newmsg\<close>;
  \<open>want_new\<close> is whether that pointer is not \<open>NULL\<close>.
\<close>

definition uchange_add_or_create ::
  "message_t \<Rightarrow> bool \<Rightarrow> cstring \<Rightarrow> u16 \<Rightarrow> u32 \<Rightarrow> u32 \<Rightarrow> bool \<times> message_t \<times> message_t option" where
  "uchange_add_or_create msg want_new nickname uid state score =
     (if unat (uc_count (uchange_of msg)) \<ge> UCHANGE_MAX_UCNT then
        (False, msg,
         if want_new then
           Some (make_uchange\<lparr>m_body :=
             Uchange (uchange_put (uchange_of make_uchange) nickname uid state score)\<rparr>)
         else None)
      else (True, msg\<lparr>m_body := Uchange (uchange_put (uchange_of msg) nickname uid state score)\<rparr>, None))"

text \<open>\<open>msg_dup\<close> copies the head and \<open>body_len\<close> bytes of the body into a fresh message.\<close>

definition msg_dup :: "message_t \<Rightarrow> message_t" where
  "msg_dup m = (make_msg_buf (m_kind m))\<lparr>m_len := m_len m, m_body := m_body m\<rparr>"

end
