(* ===== verification/MessageProps.thy ===== *)
theory MessageProps imports Messages begin

text \<open>
  What the message layer guarantees: the memory image of a well-formed message has
  the size its head announces, the conversion undoes itself, what one side sends
  the other side receives, and what \<open>msg_recv\<close> accepts is well-formed.
\<close>

section \<open>Well-formed messages\<close>

text \<open>The arrays of the union member have their declared lengths.\<close>

definition body_wf :: "msg_body_t \<Rightarrow> bool" where
  "body_wf b =
     (case b of Join j \<Rightarrow> length (j_nickname j) = 32 | Join_r r \<Rightarrow> length (jr_nickname r) = 32
      | Uchange u \<Rightarrow> uchange_wf u | Sendmsg s \<Rightarrow> length (sm_text s) = 128 | _ \<Rightarrow> True)"

text \<open>Every string ends in its array, and a \<open>UCHANGE\<close> message has at most 16 entries.\<close>

definition strings_end :: "msg_body_t \<Rightarrow> bool" where
  "strings_end b =
     (case b of Join j \<Rightarrow> 0 \<in> set (j_nickname j) | Join_r r \<Rightarrow> 0 \<in> set (jr_nickname r)
      | Uchange u \<Rightarrow> unat (uc_count u) \<le> 16 \<and>
          list_all (\<lambda>v. 0 \<in> set (uu_nickname v)) (take (unat (uc_count u)) (uc_users u))
      | Sendmsg s \<Rightarrow> 0 \<in> set (sm_text s) | _ \<Rightarrow> True)"

text \<open>The head announces the kind of the body and its size in memory.\<close>

definition wf_message :: "message_t \<Rightarrow> bool" where
  "wf_message m \<longleftrightarrow> m_kind m = kind_of_body (m_body m) \<and> body_wf (m_body m) \<and>
     unat (m_len m) = length (mem_body LittleEndian (m_body m)) \<and> strings_end (m_body m)"

text \<open>The entries of a \<open>UCHANGE\<close> message behind its count are still zero.\<close>

definition tail_zero :: "msg_body_t \<Rightarrow> bool" where
  "tail_zero b =
     (case b of Uchange u \<Rightarrow>
        list_all (\<lambda>v. uu_id v = 0 \<and> uu_state v = 0) (drop (unat (uc_count u)) (uc_users u))
      | _ \<Rightarrow> True)"

lemmas size_defs = msg_body_size_def NICKNAME_LEN_def UCHANGE_MAX_UCNT_def

lemmas mem_defs = mem_join_def mem_join_r_def mem_quit_def mem_challenge_def
  mem_challenge_r_def mem_turn_def mem_turn_r_def mem_sendmsg_def

lemma kind_of_body_range: "\<not> bad_kind (kind_of_body b)"
  by (cases b) (simp_all add: bad_kind_def kind_of_body_def word_le_nat_alt)

lemma msg_body_size_le: "msg_body_size k \<le> 644"
  by (simp add: size_defs)

lemma good_kind_cases: "\<not> bad_kind k \<Longrightarrow> k \<in> {1, 2, 3, 4, 5, 6, 7, 8, 9}"
proof -
  assume "\<not> bad_kind k"
  then have "0 < unat k" and "unat k < 10"
    by (auto simp: bad_kind_def word_le_nat_alt not_le unat_gt_0)
  then have "unat k \<in> {1, 2, 3, 4, 5, 6, 7, 8, 9}" by auto
  then have "k = of_nat (unat k)" and "unat k \<in> {1, 2, 3, 4, 5, 6, 7, 8, 9}" by simp_all
  then show ?thesis
    by (metis (no_types, lifting) insert_iff of_nat_1 of_nat_numeral singletonD)
qed

lemma msg_body_size_pos: "\<not> bad_kind k \<Longrightarrow> 0 < msg_body_size k"
  using good_kind_cases [of k] by (auto simp: size_defs)

lemma length_mem_body: "body_wf b \<Longrightarrow> length (mem_body e b) = msg_body_size (kind_of_body b)"
  by (cases b)
     (simp_all add: body_wf_def mem_body_def kind_of_body_def size_defs mem_defs length_mem_uchange)

text \<open>Such a message passes \<open>msg_check_form\<close>, and conversely.\<close>

lemma strings_end_iff:
  assumes "m_kind m = kind_of_body (m_body m)" and "body_wf (m_body m)"
    and "unat (m_len m) = msg_body_size (m_kind m)"
  shows "msg_check_form m \<longleftrightarrow> strings_end (m_body m)"
proof (cases "m_body m")
  case (Uchange u)
  have "check_nt_users n (uc_users u) \<longleftrightarrow>
      list_all (\<lambda>v. 0 \<in> set (uu_nickname v)) (take n (uc_users u))" for n
  proof -
    have "length (uu_nickname v) = 32" if "v \<in> set (take n (uc_users u))" for v
      using assms(2) Uchange in_set_takeD [OF that]
      by (simp add: body_wf_def uchange_wf_def list_all_iff)
    then show ?thesis
      by (auto simp: check_nt_users_def list_all_iff NICKNAME_LEN_def null_terminated_in)
  qed
  with Uchange assms kind_of_body_range [of "m_body m"] show ?thesis
    by (auto simp: msg_check_form_def strings_end_def UCHANGE_MAX_UCNT_def)
qed (use assms kind_of_body_range [of "m_body m"] in
  \<open>auto simp: msg_check_form_def strings_end_def body_wf_def NICKNAME_LEN_def null_terminated_in\<close>)

lemma wf_message_iff:
  "wf_message m \<longleftrightarrow> m_kind m = kind_of_body (m_body m) \<and> body_wf (m_body m) \<and> msg_check_form m"
proof -
  have "unat (m_len m) = msg_body_size (m_kind m)" if "msg_check_form m"
    using that by (simp add: msg_check_form_def split: if_splits)
  then show ?thesis
    using strings_end_iff [of m] length_mem_body [of "m_body m" LittleEndian]
    by (auto simp: wf_message_def)
qed

lemma view_body_mem: "body_wf b \<Longrightarrow> view_body e (kind_of_body b) (mem_body e b) = b"
  by (cases b)
     (simp_all add: body_wf_def mem_body_def kind_of_body_def view_body_def view_join_mem
        view_join_r_mem view_quit_mem view_uchange_mem view_challenge_mem view_challenge_r_mem
        view_turn_mem view_turn_r_mem view_sendmsg_mem)

section \<open>Conversion\<close>

lemma conv_user_0: "uu_id v = 0 \<Longrightarrow> uu_state v = 0 \<Longrightarrow> conv_user e v = v"
  by (simp add: conv_user_def)

lemma conv_user_conv_user [simp]: "conv_user e (conv_user e v) = v"
  by (simp add: conv_user_def)

lemma conv_user_BigEndian [simp]: "conv_user BigEndian = (\<lambda>v. v)"
  by (simp add: conv_user_def hton16_def fun_eq_iff)

lemma uu_nickname_conv_user [simp]: "uu_nickname (conv_user e v) = uu_nickname v"
  by (simp add: conv_user_def)

lemma conv_users_eq:
  assumes "length us = UCHANGE_MAX_UCNT"
  shows "conv_users e count us =
    map (conv_user e) (take (unat count) us) @ drop (unat count) us"
proof -
  have "foldl (\<lambda>us i. us[i := conv_user e (us ! i)]) us [0..<n] =
      map (conv_user e) (take n us) @ drop n us" if "n \<le> length us" for n
    using that
  proof (induction n)
    case 0
    then show ?case by simp
  next
    case (Suc n)
    then have "n < length us" by simp
    with Suc show ?case
      by (simp add: take_Suc_conv_app_nth list_update_append nth_append min_absorb2
          flip: Cons_nth_drop_Suc)
  qed
  from this [of "min (unat count) UCHANGE_MAX_UCNT"] assms show ?thesis
    by (cases "unat count \<le> UCHANGE_MAX_UCNT") (simp_all add: conv_users_def)
qed

lemma small_count_swap:
  assumes "unat (c :: u32) \<le> 16" and "c \<noteq> 0"
  shows "16 \<le> unat (hton32 LittleEndian c)"
proof -
  have "unat c \<in> set [0..<17]" using assms(1) by simp
  moreover have "c = of_nat (unat c)" by simp
  ultimately have "c \<in> of_nat ` set [0..<17]" by blast
  with assms(2) show ?thesis
    by (auto simp: upt_rec hton32_def swap32_def swap16_def mk32_def mk16_def lo16_def hi16_def
        lo8_def hi8_def)
qed

text \<open>
  With the unused entries zero, the conversion in either direction amounts to
  converting the count and every entry.
\<close>

lemma conv_uchange_out:
  assumes "uchange_wf u" and "unat (uc_count u) \<le> 16" and "tail_zero (Uchange u)"
  shows "conv_uchange e u = \<lparr>uc_count = hton32 e (uc_count u), uc_users = map (conv_user e) (uc_users u)\<rparr>"
proof -
  have len: "length (uc_users u) = 16"
    using assms(1) by (simp add: uchange_wf_def UCHANGE_MAX_UCNT_def)
  have "conv_users e (hton32 e (uc_count u)) (uc_users u) = map (conv_user e) (uc_users u)"
  proof (cases e)
    case BigEndian
    then show ?thesis using len by (simp add: conv_users_eq UCHANGE_MAX_UCNT_def)
  next
    case LittleEndian
    show ?thesis
    proof (cases "uc_count u = 0")
      case True
      have "map (conv_user e) (uc_users u) = uc_users u"
        using assms(3) True
        by (intro map_idI) (auto simp: tail_zero_def list_all_iff conv_user_0)
      with True LittleEndian len show ?thesis
        by (simp add: conv_users_eq UCHANGE_MAX_UCNT_def hton32_def swap32_def swap16_def
            mk32_def mk16_def lo16_def hi16_def lo8_def hi8_def)
    next
      case False
      with small_count_swap [OF assms(2)] LittleEndian len show ?thesis
        by (simp add: conv_users_eq UCHANGE_MAX_UCNT_def)
    qed
  qed
  then show ?thesis by (simp add: conv_uchange_def Let_def)
qed

lemma conv_uchange_in:
  assumes "uchange_wf u" and "tail_zero (Uchange u)"
  shows "conv_uchange e \<lparr>uc_count = hton32 e (uc_count u), uc_users = map (conv_user e) (uc_users u)\<rparr> = u"
proof -
  have "drop (unat (uc_count u)) (map (conv_user e) (uc_users u)) = drop (unat (uc_count u)) (uc_users u)"
    using assms(2) unfolding drop_map
    by (intro map_idI) (auto simp: tail_zero_def list_all_iff conv_user_0)
  moreover have "map (conv_user e) (take (unat (uc_count u)) (map (conv_user e) (uc_users u))) =
      take (unat (uc_count u)) (uc_users u)"
    by (simp add: take_map comp_def)
  ultimately have "conv_users e (uc_count u) (map (conv_user e) (uc_users u)) = uc_users u"
    using assms(1) by (simp add: conv_users_eq uchange_wf_def)
  then show ?thesis by (simp add: conv_uchange_def Let_def)
qed

lemma conv_body_conv_body:
  assumes "body_wf b" and "tail_zero b"
    and "\<And>u. b = Uchange u \<Longrightarrow> unat (uc_count u) \<le> 16"
  shows "conv_body e (conv_body e b) = b"
proof (cases b)
  case (Uchange u)
  with assms show ?thesis
    by (simp add: conv_body_def conv_uchange_out conv_uchange_in body_wf_def)
qed (simp_all add: conv_body_def)

lemma body_wf_conv_body: "body_wf b \<Longrightarrow> body_wf (conv_body e b)"
  by (cases b)
     (auto simp: body_wf_def conv_body_def conv_uchange_def Let_def uchange_wf_def conv_users_eq
        list_all_iff dest: in_set_takeD in_set_dropD)

lemma kind_of_conv_body [simp]: "kind_of_body (conv_body e b) = kind_of_body b"
  by (cases b) (simp_all add: kind_of_body_def conv_body_def)

text \<open>
  The bytes of a converted message that is no \<open>UCHANGE\<close> are those of a big-endian
  host, on every host.
\<close>

lemma enc16_BigEndian: "enc16 BigEndian w = be16 w"
  by (simp add: enc16_def)

lemma enc32_BigEndian: "enc32 BigEndian w = be32 w"
  by (simp add: enc32_def)

lemma mem_conv_body:
  "kind_of_body b \<noteq> UCHANGE \<Longrightarrow> mem_body e (conv_body e b) = mem_body BigEndian b"
  by (cases b)
     (simp_all add: kind_of_body_def mem_body_def conv_body_def mem_defs enc16_hton16
        enc32_hton32 enc16_BigEndian enc32_BigEndian)

lemma mem_head_conv: "mem_head e (hton16 e k) (hton16 e l) = be16 k @ be16 l"
  by (simp add: mem_head_def enc16_hton16)

section \<open>Sending and receiving\<close>

lemma wf_message_len: "wf_message m \<Longrightarrow> unat (m_len m) = msg_body_size (kind_of_body (m_body m))"
  by (auto simp: wf_message_iff msg_check_form_def split: if_splits)

lemma wf_message_count:
  "wf_message m \<Longrightarrow> m_body m = Uchange u \<Longrightarrow> unat (uc_count u) \<le> 16"
  by (auto simp: wf_message_iff msg_check_form_def UCHANGE_MAX_UCNT_def split: if_splits)

lemma msg_send_bytes_wf:
  assumes "wf_message m"
  shows "msg_send_bytes e m =
    Some (be16 (m_kind m) @ be16 (m_len m) @ mem_body e (conv_body e (m_body m)))"
proof -
  have "length (mem_body e (conv_body e (m_body m))) = unat (m_len m)"
    using assms wf_message_len [OF assms]
    by (simp add: wf_message_iff length_mem_body body_wf_conv_body)
  with assms kind_of_body_range [of "m_body m"] show ?thesis
    by (simp add: msg_send_bytes_def wf_message_iff mem_head_conv be16_def)
qed

text \<open>Receiving the bytes of a head and of a body that arrive in one piece.\<close>

lemma msg_recv_bytes:
  assumes junk: "648 \<le> length junk"
    and kind: "\<not> bad_kind k" and len: "unat l = msg_body_size k"
    and bd: "length bd = unat l"
    and form: "msg_check_form \<lparr>m_kind = k, m_len = l, m_body = conv_body e (view_body e k bd)\<rparr>"
  shows "msg_recv e junk b [Data (be16 k @ be16 l @ bd @ rest)] =
    (Some \<lparr>m_kind = k, m_len = l, m_body = conv_body e (view_body e k bd)\<rparr>,
     if rest = [] then [] else [Data rest])"
proof -
  have bdpos: "0 < length bd" using bd len msg_body_size_pos [OF kind] by simp
  have le: "length bd \<le> 644" using bd len msg_body_size_le by simp
  have h4: "length (be16 k @ be16 l) = 4" by (simp add: be16_def)
  have r1: "recv_count (take 4 junk) 4 b [Data (be16 k @ be16 l @ bd @ rest)] =
      (True, be16 k @ be16 l, [Data (bd @ rest)])"
    using recv_count_whole [of "take 4 junk" 4 "be16 k @ be16 l @ bd @ rest" b "[]"] junk h4 bdpos
    by (simp add: be16_def)
  have r2: "recv_count (slice 4 (unat l) junk) (unat l) True [Data (bd @ rest)] =
      (True, bd, if rest = [] then [] else [Data rest])"
    using recv_count_whole [of "slice 4 (unat l) junk" "unat l" "bd @ rest" True "[]"] junk bd bdpos le
    by (simp add: length_slice)
  have k16: "hton16 e (dec16 e (slice 0 2 (be16 k @ be16 l))) = k"
    and l16: "hton16 e (dec16 e (slice 2 2 (be16 k @ be16 l))) = l"
    by (metis dec16_enc16 enc16_hton16 hton16_hton16 length_enc16 slice_here)
       (metis (no_types, lifting) append.right_neutral cancel_comm_monoid_add_class.diff_cancel
         dec16_enc16 enc16_hton16 hton16_hton16 length_enc16 order_refl slice_here slice_skip)
  from r1 r2 k16 l16 kind len form show ?thesis
    by (simp add: msg_recv_def Let_def)
qed

theorem msg_recv_send_same:
  assumes "wf_message m" and "tail_zero (m_body m)" and "648 \<le> length junk"
    and "msg_send_bytes e m = Some bs"
  shows "msg_recv e junk b [Data (bs @ rest)] = (Some m, if rest = [] then [] else [Data rest])"
proof -
  let ?bd = "mem_body e (conv_body e (m_body m))"
  have k: "m_kind m = kind_of_body (m_body m)" and w: "body_wf (m_body m)"
    using assms(1) by (simp_all add: wf_message_iff)
  have v: "conv_body e (view_body e (m_kind m) ?bd) = m_body m"
    using view_body_mem [OF body_wf_conv_body [OF w], of e e]
      conv_body_conv_body [OF w assms(2)] wf_message_count [OF assms(1)] k
    by simp
  have m: "\<lparr>m_kind = m_kind m, m_len = m_len m, m_body = m_body m\<rparr> = m" by simp
  have bs: "bs @ rest = be16 (m_kind m) @ be16 (m_len m) @ ?bd @ rest"
    using assms(4) msg_send_bytes_wf [OF assms(1)] by simp
  have "msg_recv e junk b [Data (be16 (m_kind m) @ be16 (m_len m) @ ?bd @ rest)] =
    (Some \<lparr>m_kind = m_kind m, m_len = m_len m, m_body = conv_body e (view_body e (m_kind m) ?bd)\<rparr>,
     if rest = [] then [] else [Data rest])"
  proof (rule msg_recv_bytes [OF assms(3)])
    show "\<not> bad_kind (m_kind m)" using k kind_of_body_range by simp
    show len: "unat (m_len m) = msg_body_size (m_kind m)"
      using k wf_message_len [OF assms(1)] by simp
    show "length ?bd = unat (m_len m)"
      using len k by (simp add: length_mem_body [OF body_wf_conv_body [OF w]])
    show "msg_check_form \<lparr>m_kind = m_kind m, m_len = m_len m,
        m_body = conv_body e (view_body e (m_kind m) ?bd)\<rparr>"
      unfolding v m using assms(1) by (simp add: wf_message_iff)
  qed
  then show ?thesis unfolding bs v m .
qed

lemma tail_zero_other: "kind_of_body b \<noteq> UCHANGE \<Longrightarrow> tail_zero b"
  by (cases b) (simp_all add: tail_zero_def kind_of_body_def)

theorem msg_recv_send_cross:
  assumes "wf_message m" and "m_kind m \<noteq> UCHANGE" and "648 \<le> length junk"
    and "msg_send_bytes e m = Some bs"
  shows "msg_recv e' junk b [Data (bs @ rest)] = (Some m, if rest = [] then [] else [Data rest])"
proof -
  have k: "kind_of_body (m_body m) \<noteq> UCHANGE" using assms(1,2) by (simp add: wf_message_iff)
  then have "msg_send_bytes e' m = Some bs"
    using assms(4) msg_send_bytes_wf [OF assms(1)] mem_conv_body by simp
  with msg_recv_send_same [OF assms(1) tail_zero_other [OF k] assms(3)] show ?thesis .
qed

text \<open>
  The scores of a \<open>UCHANGE\<close> message are not converted: a host of the other byte order
  reads them reversed. Everything else in the message arrives as it was sent.
\<close>

definition swap_scores :: "msg_uchange_t \<Rightarrow> msg_uchange_t" where
  "swap_scores u = u\<lparr>uc_users := map (\<lambda>v. v\<lparr>uu_score := swap32 (uu_score v)\<rparr>) (uc_users u)\<rparr>"

lemma enc32_other: "e' \<noteq> e \<Longrightarrow> enc32 e w = enc32 e' (swap32 w)"
  by (cases e; cases e')
     (simp_all add: enc32_def be32_def be16_def swap32_def swap16_def)

lemma mem_conv_user_other:
  "e' \<noteq> e \<Longrightarrow> mem_uchange_user e (conv_user e v) =
    mem_uchange_user e' (conv_user e' (v\<lparr>uu_score := swap32 (uu_score v)\<rparr>))"
  by (simp add: mem_uchange_user_def conv_user_def enc16_hton16 enc32_other)

lemma msg_recv_send_scores:
  assumes "wf_message m" and "m_body m = Uchange u" and "tail_zero (m_body m)"
    and "648 \<le> length junk" and "e' \<noteq> e" and "msg_send_bytes e m = Some bs"
  shows "msg_recv e' junk b [Data (bs @ rest)] =
    (Some (m\<lparr>m_body := Uchange (swap_scores u)\<rparr>), if rest = [] then [] else [Data rest])"
proof -
  let ?u = "swap_scores u" and ?m = "m\<lparr>m_body := Uchange (swap_scores u)\<rparr>"
  have wf: "uchange_wf u" and cnt: "unat (uc_count u) \<le> 16"
    using assms(1,2) wf_message_count [OF assms(1)] by (simp_all add: wf_message_iff body_wf_def)
  have wf': "uchange_wf ?u"
    using wf by (auto simp: uchange_wf_def swap_scores_def list_all_iff)
  have tz: "tail_zero (Uchange u)" "tail_zero (Uchange ?u)"
    using assms(2,3)
    by (auto simp: tail_zero_def swap_scores_def list_all_iff drop_map)
  have "check_nt_users n (uc_users ?u) = check_nt_users n (uc_users u)" for n
    by (simp add: check_nt_users_def swap_scores_def list_all_iff take_map)
  then have m': "wf_message ?m"
    using assms(1,2) wf'
    by (auto simp: wf_message_iff body_wf_def kind_of_body_def msg_check_form_def
        swap_scores_def split: if_splits)
  have "mem_uchange e (conv_uchange e u) = mem_uchange e' (conv_uchange e' ?u)"
    using wf wf' cnt tz mem_conv_user_other [OF assms(5)]
    by (simp add: conv_uchange_out mem_uchange_def swap_scores_def enc32_hton32 comp_def)
  then have "msg_send_bytes e' ?m = Some bs"
    using assms(2,6) msg_send_bytes_wf [OF assms(1)] msg_send_bytes_wf [OF m']
    by (simp add: mem_body_def conv_body_def)
  with msg_recv_send_same [OF m' _ assms(4)] tz(2) show ?thesis by simp
qed

section \<open>What is received is well-formed\<close>

lemma kind_of_view_body: "\<not> bad_kind k \<Longrightarrow> kind_of_body (view_body e k bs) = k"
  using good_kind_cases [of k] by (auto simp: kind_of_body_def view_body_def)

lemma uchange_wf_view: "length bs = 644 \<Longrightarrow> uchange_wf (view_uchange e bs)"
  by (auto simp: uchange_wf_def view_uchange_def view_uchange_user_def UCHANGE_MAX_UCNT_def
      list_all_iff length_slice)

lemma body_wf_view_body:
  "\<not> bad_kind k \<Longrightarrow> length bs = msg_body_size k \<Longrightarrow> body_wf (view_body e k bs)"
  using good_kind_cases [of k] uchange_wf_view [of bs e]
  by (auto simp: body_wf_def view_body_def view_join_def view_join_r_def view_sendmsg_def
      length_slice size_defs)

lemma msg_recv_wf:
  assumes "msg_recv e junk b s = (Some m, s')" and "648 \<le> length junk"
  shows "wf_message m"
proof -
  obtain ok hb s1 where r1: "recv_count (take 4 junk) 4 b s = (ok, hb, s1)" by (metis prod_cases3)
  define k l where "k = hton16 e (dec16 e (slice 0 2 hb))"
    and "l = hton16 e (dec16 e (slice 2 2 hb))"
  obtain ok2 bd s2 where
    r2: "recv_count (slice 4 (unat l) junk) (unat l) True s1 = (ok2, bd, s2)"
    by (metis prod_cases3)
  let ?m = "\<lparr>m_kind = k, m_len = l, m_body = conv_body e (view_body e k bd)\<rparr>"
  have *: "\<not> bad_kind k" "unat l = msg_body_size k" "msg_check_form ?m" "m = ?m"
    using assms(1) r1 r2
    by (auto simp: msg_recv_def Let_def k_def l_def split: if_splits)
  have "length (slice 4 (unat l) junk) = unat l"
    using assms(2) *(2) msg_body_size_le [of k] by (simp add: length_slice)
  then have "length bd = msg_body_size k"
    using recv_count_length [OF r2] *(2) by simp
  with * show ?thesis
    by (simp add: wf_message_iff kind_of_view_body body_wf_conv_body body_wf_view_body)
qed

section \<open>The constructors\<close>

lemma length_zeros [simp]: "length (zeros n) = n"
  by (simp add: zeros_def)

lemma length_nick_buf [simp]: "length (snprintf_s (zeros NICKNAME_LEN) NICKNAME_LEN s) = 32"
  by (simp add: snprintf_s_length NICKNAME_LEN_def)

lemma null_terminated_snprintf [simp]:
  "0 < n \<Longrightarrow> null_terminated (snprintf_s dst n s) n"
  by (auto simp: null_terminated_iff snprintf_s_cstr min_def)

lemma cstr_zeros [simp]: "cstr (zeros n) = []"
  by (cases n) (simp_all add: zeros_def)

lemma null_terminated_zeros [simp]: "0 < n \<Longrightarrow> null_terminated (zeros m) n"
  by (simp add: null_terminated_iff)

lemma unat_body_size [simp]: "unat (of_nat (msg_body_size k) :: u16) = msg_body_size k"
  using msg_body_size_le [of k] by (simp add: unat_of_nat take_bit_nat_eq_self)

lemma kind_of_zero_body: "\<not> bad_kind k \<Longrightarrow> kind_of_body (zero_body k) = k"
  using good_kind_cases [of k] by (auto simp: kind_of_body_def zero_body_def)

lemma check_nt_users_0 [simp]: "check_nt_users 0 us"
  by (simp add: check_nt_users_def)

lemma NICKNAME_LEN_pos [simp]: "0 < NICKNAME_LEN"
  by (simp add: NICKNAME_LEN_def)

lemma wf_init_msg_buf: "\<not> bad_kind k \<Longrightarrow> wf_message (init_msg_buf k)"
  using good_kind_cases [of k] kind_of_zero_body [of k]
  by (auto simp: wf_message_iff init_msg_buf_def msg_check_form_def zero_body_def body_wf_def
      uchange_wf_def zero_user_def NICKNAME_LEN_def list_all_iff)

text \<open>Replacing the union member of an initialised message by another of its kind.\<close>

lemma wf_init_set_body:
  assumes "kind_of_body b = k" and "body_wf b"
    and "msg_check_form \<lparr>m_kind = k, m_len = of_nat (msg_body_size k), m_body = b\<rparr>"
  shows "wf_message ((init_msg_buf k)\<lparr>m_body := b\<rparr>)"
  using assms by (simp add: wf_message_iff init_msg_buf_def)

lemma wf_make_join_r: "wf_message (make_join_r nick err i key)"
  unfolding make_join_r_def make_msg_buf_def
  by (rule wf_init_set_body)
     (simp_all add: kind_of_body_def body_wf_def msg_check_form_def bad_kind_def word_le_nat_alt)

lemma wf_make_join: "wf_message (make_join nick)"
  unfolding make_join_def make_msg_buf_def
  by (rule wf_init_set_body)
     (simp_all add: kind_of_body_def body_wf_def msg_check_form_def bad_kind_def word_le_nat_alt)

lemma wf_simple_body:
  assumes "kind_of_body b \<in> {QUIT, CHALLENGE, CHALLENGE_R, TURN, TURN_R}"
  shows "wf_message ((init_msg_buf (kind_of_body b))\<lparr>m_body := b\<rparr>)"
proof (rule wf_init_set_body)
  show "body_wf b" using assms by (cases b) (simp_all add: kind_of_body_def body_wf_def)
  show "msg_check_form \<lparr>m_kind = kind_of_body b,
      m_len = of_nat (msg_body_size (kind_of_body b)), m_body = b\<rparr>"
    using assms kind_of_body_range [of b]
    by (cases b) (simp_all add: kind_of_body_def msg_check_form_def)
qed simp

section \<open>Building UCHANGE messages\<close>

text \<open>
  A \<open>UCHANGE\<close> message under construction is \<open>uchange_msg es\<close> for the list \<open>es\<close> of its
  entries; \<open>uchange_add_or_create\<close> appends to that list.
\<close>

definition uchange_msg :: "uchange_user_t list \<Rightarrow> message_t" where
  "uchange_msg es = (init_msg_buf UCHANGE)\<lparr>m_body :=
     Uchange \<lparr>uc_count = of_nat (length es),
              uc_users = es @ replicate (UCHANGE_MAX_UCNT - length es) zero_user\<rparr>\<rparr>"

definition uchange_entry :: "cstring \<Rightarrow> u16 \<Rightarrow> u32 \<Rightarrow> u32 \<Rightarrow> uchange_user_t" where
  "uchange_entry nickname uid state score =
     \<lparr>uu_nickname = snprintf_s (zeros NICKNAME_LEN) NICKNAME_LEN nickname, uu_id = uid,
      uu_state = ucast state, uu_score = score\<rparr>"

lemma make_uchange_eq: "make_uchange = uchange_msg []"
  by (simp add: make_uchange_def make_msg_buf_def uchange_msg_def init_msg_buf_def zero_body_def)

lemma uchange_of_msg [simp]: "uchange_of (uchange_msg es) = \<lparr>uc_count = of_nat (length es),
    uc_users = es @ replicate (UCHANGE_MAX_UCNT - length es) zero_user\<rparr>"
  by (simp add: uchange_of_def uchange_msg_def)

lemma unat_small_len: "length es \<le> 16 \<Longrightarrow> unat (of_nat (length es) :: u32) = length es"
  by (simp add: unat_of_nat take_bit_nat_eq_self)

lemma uchange_put_msg:
  assumes "length es < 16"
  shows "(uchange_msg es)\<lparr>m_body := Uchange (uchange_put (uchange_of (uchange_msg es)) nick i st sc)\<rparr>
    = uchange_msg (es @ [uchange_entry nick i st sc])"
proof -
  have "UCHANGE_MAX_UCNT - length es = Suc (UCHANGE_MAX_UCNT - Suc (length es))"
    using assms by (simp add: UCHANGE_MAX_UCNT_def)
  then show ?thesis
    using assms unat_small_len [of es]
    by (simp add: uchange_msg_def uchange_put_def uchange_of_def uchange_entry_def zero_user_def
        Let_def add.commute)
qed

lemma uchange_add_or_create_msg:
  assumes "length es \<le> 16"
  shows "uchange_add_or_create (uchange_msg es) want nick i st sc =
    (if 16 \<le> length es
     then (False, uchange_msg es, if want then Some (uchange_msg [uchange_entry nick i st sc]) else None)
     else (True, uchange_msg (es @ [uchange_entry nick i st sc]), None))"
proof (cases "16 \<le> length es")
  case True
  then show ?thesis
    using assms unat_small_len [of es] uchange_put_msg [of "[]" nick i st sc]
    by (simp add: uchange_add_or_create_def UCHANGE_MAX_UCNT_def make_uchange_eq)
next
  case False
  then show ?thesis
    using unat_small_len [of es] uchange_put_msg [of es nick i st sc]
    by (simp add: uchange_add_or_create_def UCHANGE_MAX_UCNT_def)
qed

definition entry_wf :: "uchange_user_t \<Rightarrow> bool" where
  "entry_wf v \<longleftrightarrow> length (uu_nickname v) = 32 \<and> null_terminated (uu_nickname v) NICKNAME_LEN"

lemma entry_wf_uchange_entry [simp]: "entry_wf (uchange_entry nick i st sc)"
  by (simp add: entry_wf_def uchange_entry_def)

lemma wf_uchange_msg:
  assumes "length es \<le> 16" and "list_all entry_wf es"
  shows "wf_message (uchange_msg es)"
  unfolding uchange_msg_def
proof (rule wf_init_set_body)
  let ?b = "Uchange \<lparr>uc_count = of_nat (length es),
    uc_users = es @ replicate (UCHANGE_MAX_UCNT - length es) zero_user\<rparr>"
  show "kind_of_body ?b = UCHANGE" by (simp add: kind_of_body_def)
  show "body_wf ?b"
    using assms by (auto simp: body_wf_def uchange_wf_def entry_wf_def list_all_iff
        UCHANGE_MAX_UCNT_def zero_user_def NICKNAME_LEN_def)
  show "msg_check_form \<lparr>m_kind = UCHANGE, m_len = of_nat (msg_body_size UCHANGE), m_body = ?b\<rparr>"
    using assms unat_small_len [of es]
    by (auto simp: msg_check_form_def check_nt_users_def entry_wf_def list_all_iff bad_kind_def
        word_le_nat_alt UCHANGE_MAX_UCNT_def)
qed

lemma tail_zero_uchange_msg: "length es \<le> 16 \<Longrightarrow> tail_zero (m_body (uchange_msg es))"
  using unat_small_len [of es]
  by (simp add: tail_zero_def uchange_msg_def zero_user_def list_all_iff)

end
