(* ===== verification/ServerModel.thy ===== *)
theory ServerModel imports MessageProps begin

text \<open>
  The tables of \<open>server/server.c\<close> and the operations on them: creating, adding and
  removing users, adding challenges, and sending user information.

  The state holds the heap of user and challenge objects, the four search trees,
  the user count and, for the reader of the model, the messages passed to
  \<open>msg_send\<close> in their order (\<open>out\<close>). Two inputs come from outside: the results
  of \<open>random()\<close>, a stream of 31-bit numbers read in order, and what the \<open>fd\<close> field
  of a block holds when \<open>malloc\<close> returns it.
\<close>

section \<open>State\<close>

record server_t =
  uheap :: "ptr \<rightharpoonup> server_user_t"
  cheap :: "ptr \<rightharpoonup> challenge_t"
  brk :: ptr
  junk_fd :: "ptr \<Rightarrow> int"
  rnd :: "nat \<Rightarrow> 31 word"
  rpos :: nat
  user_by_id :: "ptr list"
  user_by_fd :: "ptr list"
  user_by_nick :: "ptr list"
  ch_by_id :: "ptr list"
  user_cnt :: nat
  out :: "(int \<times> message_t) list"

definition MAX_USER_COUNT :: nat where "MAX_USER_COUNT = 1024"
definition MAX_QUEUE_SIZE :: nat where "MAX_QUEUE_SIZE = 65536"
definition MAXHP :: u32 where "MAXHP = 10"
definition UINT16_MAX :: nat where "UINT16_MAX = 65535"

definition model_init :: "server_t \<Rightarrow> server_t" where
  "model_init s =
     s\<lparr>user_cnt := 0, user_by_id := [], user_by_fd := [], user_by_nick := [], ch_by_id := []\<rparr>"

text \<open>\<open>msg_send(fd, msg)\<close>, whose result the server ignores everywhere.\<close>

definition send_msg :: "int \<Rightarrow> message_t \<Rightarrow> server_t \<Rightarrow> server_t" where
  "send_msg fd m s = s\<lparr>out := out s @ [(fd, m)]\<rparr>"

definition deref_u :: "ptr \<Rightarrow> server_t \<Rightarrow> fault + server_user_t" where
  "deref_u p s = (case uheap s p of None \<Rightarrow> Inl UseAfterFree | Some u \<Rightarrow> Inr u)"

definition deref_c :: "ptr \<Rightarrow> server_t \<Rightarrow> fault + challenge_t" where
  "deref_c p s = (case cheap s p of None \<Rightarrow> Inl UseAfterFree | Some c \<Rightarrow> Inr c)"

definition set_user :: "ptr \<Rightarrow> server_user_t \<Rightarrow> server_t \<Rightarrow> server_t" where
  "set_user p u s = s\<lparr>uheap := (uheap s)(p \<mapsto> u)\<rparr>"

definition set_ch :: "ptr \<Rightarrow> challenge_t \<Rightarrow> server_t \<Rightarrow> server_t" where
  "set_ch p c s = s\<lparr>cheap := (cheap s)(p \<mapsto> c)\<rparr>"

text \<open>A stack object \<open>{.id = i}\<close>, \<open>{.fd = f}\<close> used as a search key.\<close>

definition key_user :: server_user_t where
  "key_user = \<lparr>u_nickname = [], u_id = 0, u_score = 0, u_state = 0, u_fd = 0, u_key = 0, u_chid = 0\<rparr>"

definition zero_challenge :: challenge_t where
  "zero_challenge = \<lparr>ch_id = 0, user1 = 0, user2 = 0, turn_no = 0, acted1 = False, acted2 = False,
     act1 = 0, act2 = 0, hp1 = 0, hp2 = 0, maxhp1 = 0, maxhp2 = 0, ch_state = ASKING\<rparr>"

definition find_id :: "u16 \<Rightarrow> server_t \<Rightarrow> ptr option" where
  "find_id i s = tfind cmp_by_id (uheap s) (key_user\<lparr>u_id := i\<rparr>) (user_by_id s)"

definition find_fd :: "int \<Rightarrow> server_t \<Rightarrow> ptr option" where
  "find_fd f s = tfind cmp_by_fd (uheap s) (key_user\<lparr>u_fd := f\<rparr>) (user_by_fd s)"

definition find_ch :: "u16 \<Rightarrow> server_t \<Rightarrow> ptr option" where
  "find_ch i s = tfind cmp_by_chid (cheap s) (zero_challenge\<lparr>ch_id := i\<rparr>) (ch_by_id s)"

section \<open>Random numbers\<close>

definition random_num :: "server_t \<Rightarrow> nat \<times> server_t" where
  "random_num s = (unat (rnd s (rpos s)), s\<lparr>rpos := Suc (rpos s)\<rparr>)"

definition random_key :: "server_t \<Rightarrow> u32 \<times> server_t" where
  "random_key s =
     (let (r, s1) = random_num s; ret = (of_nat r :: u32); (b, s2) = random_num s1
      in (if b mod 2 \<noteq> 0 then ret else NOT ret, s2))"

section \<open>Users\<close>

definition user_create :: "cstring \<Rightarrow> server_t \<Rightarrow> ptr \<times> server_user_t \<times> server_t" where
  "user_create nickname s =
     (let p = brk s; (key, s1) = random_key (s\<lparr>brk := Suc p\<rparr>);
          u = \<lparr>u_nickname = cstr (snprintf_s (zeros NICKNAME_LEN) NICKNAME_LEN nickname), u_id = 0,
               u_score = 0, u_state = UONLINE, u_fd = junk_fd s p, u_key = key, u_chid = 0\<rparr>
      in (p, u, set_user p u s1))"

definition user_destroy :: "ptr \<Rightarrow> server_t \<Rightarrow> server_t" where
  "user_destroy p s = s\<lparr>uheap := (uheap s)(p := None)\<rparr>"

text \<open>C's remainder, which takes the sign of the dividend.\<close>

definition c_rem :: "int \<Rightarrow> int \<Rightarrow> int" where
  "c_rem a b = sgn a * (\<bar>a\<bar> mod \<bar>b\<bar>)"

text \<open>The tail of the loop body of \<open>user_add\<close>: the three insertions with their asserts.\<close>

definition user_register ::
  "ptr \<Rightarrow> server_user_t \<Rightarrow> u16 \<Rightarrow> int \<Rightarrow> server_t \<Rightarrow> fault + (ptr option \<times> u16 \<times> server_t)" where
  "user_register p u uid fd s =
     (let u' = u\<lparr>u_id := uid, u_fd := fd\<rparr>; s1 = set_user p u' s;
          (t1, q1) = tsearch cmp_by_id (uheap s1) p u' (user_by_id s1);
          (t2, q2) = tsearch cmp_by_fd (uheap s1) p u' (user_by_fd s1);
          (t3, q3) = tsearch cmp_by_nick (uheap s1) p u' (user_by_nick s1)
      in if q1 \<noteq> p then Inl AssertFailed
         else if q2 \<noteq> p then Inl AssertFailed
         else if q3 \<noteq> p then Inl AssertFailed
         else Inr (Some p, ME_OK, s1\<lparr>user_by_id := t1, user_by_fd := t2, user_by_nick := t3,
                                     user_cnt := user_cnt s1 + 1\<rparr>))"

text \<open>
  The 16 attempts to find an id. The test looks for \<open>user->id\<close>, which is still 0,
  and not for the candidate \<open>id\<close>.
\<close>

fun user_add_loop ::
  "nat \<Rightarrow> u16 \<Rightarrow> ptr \<Rightarrow> server_user_t \<Rightarrow> int \<Rightarrow> server_t \<Rightarrow> fault + (ptr option \<times> u16 \<times> server_t)"
where
  "user_add_loop 0 uid p u fd s = Inr (None, ME_OTHER, s)"
| "user_add_loop (Suc n) uid p u fd s =
     (if tfind cmp_by_id (uheap s) u (user_by_id s) \<noteq> None then
        (let (r, s1) = random_num s
         in user_add_loop n (of_nat ((unat uid + r) mod UINT16_MAX)) p u fd s1)
      else user_register p u uid fd s)"

definition user_add :: "int \<Rightarrow> cstring \<Rightarrow> server_t \<Rightarrow> fault + (ptr option \<times> u16 \<times> server_t)" where
  "user_add fd nickname s =
     (let (p, u, s1) = user_create nickname s
      in if user_cnt s1 \<ge> MAX_USER_COUNT then Inr (None, TOOMANYUSER, user_destroy p s1)
         else if tfind cmp_by_fd (uheap s1) u (user_by_fd s1) \<noteq> None then
           Inr (None, JOINTWICE, user_destroy p s1)
         else if tfind cmp_by_nick (uheap s1) u (user_by_nick s1) \<noteq> None then
           Inr (None, DUPNICK, user_destroy p s1)
         else user_add_loop 16 (word_of_int (c_rem fd (int UINT16_MAX))) p u fd s1)"

definition user_del_and_destroy :: "ptr \<Rightarrow> server_t \<Rightarrow> fault + server_t" where
  "user_del_and_destroy p0 s =
     bind_r (deref_u p0 s) (\<lambda>u0.
       case tfind cmp_by_id (uheap s) u0 (user_by_id s) of
         None \<Rightarrow> Inr s
       | Some p \<Rightarrow> bind_r (deref_u p s) (\<lambda>u.
           let (t1, b1) = tdelete cmp_by_id (uheap s) u (user_by_id s);
               (t2, b2) = tdelete cmp_by_nick (uheap s) u (user_by_nick s);
               (t3, b3) = tdelete cmp_by_fd (uheap s) u (user_by_fd s)
           in if \<not> b1 then Inl AssertFailed
              else if \<not> b2 then Inl AssertFailed
              else Inr ((user_destroy p (s\<lparr>user_by_id := t1, user_by_nick := t2, user_by_fd := t3\<rparr>))
                        \<lparr>user_cnt := user_cnt s - 1\<rparr>)))"

section \<open>Challenges\<close>

fun add_challenge_loop :: "nat \<Rightarrow> ptr \<Rightarrow> challenge_t \<Rightarrow> server_t \<Rightarrow> fault + (ptr \<times> server_t)" where
  "add_challenge_loop 0 p c s = Inl AssertFailed"
| "add_challenge_loop (Suc n) p c s =
     (let (r, s1) = random_num s; i = (of_nat (r mod UINT16_MAX) :: u16);
          c' = c\<lparr>ch_id := (if i = 0 then 1 else i)\<rparr>; s2 = set_ch p c' s1
      in if tfind cmp_by_chid (cheap s2) c' (ch_by_id s2) \<noteq> None then add_challenge_loop n p c' s2
         else (let (t, q) = tsearch cmp_by_chid (cheap s2) p c' (ch_by_id s2)
               in if q \<noteq> p then Inl AssertFailed else Inr (p, s2\<lparr>ch_by_id := t\<rparr>)))"

definition add_challenge :: "server_t \<Rightarrow> fault + (ptr \<times> server_t)" where
  "add_challenge s =
     (let p = brk s; c = zero_challenge\<lparr>ch_state := ASKING\<rparr>
      in add_challenge_loop 16 p c (set_ch p c (s\<lparr>brk := Suc p\<rparr>)))"

text \<open>\<open>tdelete(ch, &ch_by_id, cmp_by_chid)\<close>, whose result is not looked at.\<close>

definition ch_unlink :: "ptr \<Rightarrow> server_t \<Rightarrow> fault + server_t" where
  "ch_unlink p s =
     bind_r (deref_c p s) (\<lambda>c.
       Inr (s\<lparr>ch_by_id := fst (tdelete cmp_by_chid (cheap s) c (ch_by_id s))\<rparr>))"

definition ch_free :: "ptr \<Rightarrow> server_t \<Rightarrow> server_t" where
  "ch_free p s = s\<lparr>cheap := (cheap s)(p := None)\<rparr>"

section \<open>Sending user information\<close>

datatype wk_type = MSG_TO_ALL | ALL_TO_ONE

text \<open>\<open>w_fd\<close> is the union of \<open>to_fd\<close> and \<open>except_fd\<close>.\<close>

record send_uinfo_wkst_t =
  w_type :: wk_type
  w_fd :: int
  w_msg :: "message_t option"

text \<open>The callback, at the one visit of a node at which it acts.\<close>

definition send_user_info ::
  "ptr \<Rightarrow> send_uinfo_wkst_t \<times> server_t \<Rightarrow> fault + (send_uinfo_wkst_t \<times> server_t)" where
  "send_user_info p st =
     (case st of (arg, s) \<Rightarrow> bind_r (deref_u p s) (\<lambda>user.
        case w_type arg of
          ALL_TO_ONE \<Rightarrow>
            if u_fd user < 0 then Inl AssertFailed
            else let msg = (case w_msg arg of None \<Rightarrow> make_uchange | Some m \<Rightarrow> m);
                     (ok, msg', newmsg) = uchange_add_or_create msg True (u_nickname user)
                       (u_id user) (u_state user) (u_score user)
                 in if \<not> ok then Inr (arg\<lparr>w_msg := newmsg\<rparr>, send_msg (w_fd arg) msg' s)
                    else Inr (arg\<lparr>w_msg := Some msg'\<rparr>, s)
        | MSG_TO_ALL \<Rightarrow>
            if u_fd user \<noteq> w_fd arg then
              (case w_msg arg of None \<Rightarrow> Inl NullDeref
               | Some m \<Rightarrow> Inr (arg, send_msg (u_fd user) m s))
            else Inr (arg, s)))"

text \<open>\<open>twalk_r(user_by_id, send_user_info, &arg)\<close>: the nodes in the order of the tree.\<close>

definition twalk_users ::
  "send_uinfo_wkst_t \<Rightarrow> server_t \<Rightarrow> fault + (send_uinfo_wkst_t \<times> server_t)" where
  "twalk_users arg s = fold_r send_user_info (user_by_id s) (arg, s)"

text \<open>One round of the loop of \<open>broadcast_user_changes\<close> over \<open>{usr1, usr2}\<close>.\<close>

definition add_change :: "server_t \<Rightarrow> ptr option \<Rightarrow> message_t \<Rightarrow> fault + message_t" where
  "add_change s q msg =
     (case q of None \<Rightarrow> Inr msg
      | Some p \<Rightarrow> bind_r (deref_u p s) (\<lambda>u.
          Inr (fst (snd (uchange_add_or_create msg False (u_nickname u) (u_id u) (u_state u)
                           (u_score u))))))"

definition broadcast_user_changes :: "ptr option \<Rightarrow> ptr option \<Rightarrow> server_t \<Rightarrow> fault + server_t" where
  "broadcast_user_changes usr1 usr2 s =
     bind_r (fold_r (add_change s) [usr1, usr2] make_uchange) (\<lambda>uchange.
     bind_r (twalk_users \<lparr>w_type = MSG_TO_ALL, w_fd = -1, w_msg = Some uchange\<rparr> s) (\<lambda>st.
       Inr (snd st)))"

end
