(* ===== verification/Queue.thy ===== *)
theory Queue imports Prelude begin

text \<open>
  The bounded blocking queue of \<open>lib/queue.c\<close>: a ring buffer of pointers behind a
  mutex. \<open>queue_add\<close> and \<open>queue_take\<close> are modelled as the critical section that
  runs under the mutex; a call with \<open>block\<close> set on a full (empty) queue does not
  return before another thread makes room, which is the outcome \<open>Blocks\<close>.

  The contract is the locale \<open>bounded_fifo\<close>: the queue behaves as a list of at
  most \<open>cap\<close> entries, oldest first. The clients of the queue use that contract
  only; it is interpreted at the end of the theory on the ring buffer.
\<close>

section \<open>The ring buffer\<close>

datatype queue_err_t = QOK | QMEM | QFULL | QEMPTY

record 'a queue_t =
  q_cap :: nat
  q_lo :: nat
  q_hi :: nat
  q_sz :: nat
  q_data :: "'a list"

text \<open>\<open>junk\<close> is what the freshly allocated array happens to hold.\<close>

definition queue_create :: "nat \<Rightarrow> 'a \<Rightarrow> 'a queue_t" where
  "queue_create cap junk =
     \<lparr>q_cap = cap, q_lo = 0, q_hi = 0, q_sz = 0, q_data = replicate cap junk\<rparr>"

datatype 'r call = Returns 'r | Blocks

definition queue_add :: "'a queue_t \<Rightarrow> 'a \<Rightarrow> bool \<Rightarrow> (queue_err_t \<times> 'a queue_t) call" where
  "queue_add q e block =
     (if q_cap q = q_sz q then (if \<not> block then Returns (QFULL, q) else Blocks)
      else Returns (QOK, q\<lparr>q_data := (q_data q)[q_hi q := e],
                           q_hi := (q_hi q + 1) mod q_cap q,
                           q_sz := q_sz q + 1\<rparr>))"

definition queue_take :: "'a queue_t \<Rightarrow> bool \<Rightarrow> (queue_err_t \<times> 'a option \<times> 'a queue_t) call"
where
  "queue_take q block =
     (if q_sz q = 0 then (if \<not> block then Returns (QEMPTY, None, q) else Blocks)
      else Returns (QOK, Some (q_data q ! q_lo q),
                    q\<lparr>q_lo := (q_lo q + 1) mod q_cap q, q_sz := q_sz q - 1\<rparr>))"

section \<open>The contract\<close>

text \<open>
  \<open>list_of\<close> is the abstract queue. The laws say what an addition and a removal do
  to it, when they return at all.
\<close>

locale bounded_fifo =
  fixes add :: "'q \<Rightarrow> 'a \<Rightarrow> bool \<Rightarrow> (queue_err_t \<times> 'q) call"
    and rem :: "'q \<Rightarrow> bool \<Rightarrow> (queue_err_t \<times> 'a option \<times> 'q) call"
    and capacity :: "'q \<Rightarrow> nat"
    and list_of :: "'q \<Rightarrow> 'a list"
    and ok :: "'q \<Rightarrow> bool"
  assumes len: "ok q \<Longrightarrow> length (list_of q) \<le> capacity q"
    and add_full: "ok q \<Longrightarrow> length (list_of q) = capacity q \<Longrightarrow>
      add q e b = (if b then Blocks else Returns (QFULL, q))"
    and add_room: "ok q \<Longrightarrow> length (list_of q) < capacity q \<Longrightarrow>
      \<exists>q'. add q e b = Returns (QOK, q') \<and> ok q' \<and> capacity q' = capacity q \<and>
           list_of q' = list_of q @ [e]"
    and take_empty: "ok q \<Longrightarrow> list_of q = [] \<Longrightarrow>
      rem q b = (if b then Blocks else Returns (QEMPTY, None, q))"
    and take_some: "ok q \<Longrightarrow> list_of q = x # xs \<Longrightarrow>
      \<exists>q'. rem q b = Returns (QOK, Some x, q') \<and> ok q' \<and> capacity q' = capacity q \<and>
           list_of q' = xs"
begin

text \<open>Adding several entries without blocking.\<close>

fun add_all :: "'q \<Rightarrow> 'a list \<Rightarrow> 'q option" where
  "add_all q [] = Some q"
| "add_all q (x # xs) =
     (case add q x False of Returns (QOK, q') \<Rightarrow> add_all q' xs | _ \<Rightarrow> None)"

text \<open>Taking entries until the queue reports that it is empty.\<close>

fun drain :: "nat \<Rightarrow> 'q \<Rightarrow> 'a list" where
  "drain 0 q = []"
| "drain (Suc n) q =
     (case rem q False of Returns (QOK, Some x, q') \<Rightarrow> x # drain n q' | _ \<Rightarrow> [])"

lemma add_all_list:
  "ok q \<Longrightarrow> length (list_of q) + length xs \<le> capacity q \<Longrightarrow>
   \<exists>q'. add_all q xs = Some q' \<and> ok q' \<and> capacity q' = capacity q \<and>
        list_of q' = list_of q @ xs"
proof (induction xs arbitrary: q)
  case Nil
  then show ?case by simp
next
  case (Cons x xs)
  obtain q1 where q1: "add q x False = Returns (QOK, q1)" "ok q1" "capacity q1 = capacity q"
    "list_of q1 = list_of q @ [x]"
    using add_room [OF Cons.prems(1), of x False] Cons.prems(2) by auto
  with Cons.IH [of q1] Cons.prems(2) show ?case by auto
qed

lemma add_all_overflow:
  "ok q \<Longrightarrow> capacity q < length (list_of q) + length xs \<Longrightarrow> add_all q xs = None"
proof (induction xs arbitrary: q)
  case Nil
  with len show ?case by fastforce
next
  case (Cons x xs)
  show ?case
  proof (cases "length (list_of q) = capacity q")
    case True
    with add_full [OF Cons.prems(1), of x False] show ?thesis by simp
  next
    case False
    with len [OF Cons.prems(1)] have "length (list_of q) < capacity q" by simp
    then obtain q1 where "add q x False = Returns (QOK, q1)" "ok q1"
      "capacity q1 = capacity q" "list_of q1 = list_of q @ [x]"
      using add_room [OF Cons.prems(1), of x False] by auto
    with Cons.IH [of q1] Cons.prems(2) show ?thesis by auto
  qed
qed

lemma drain_list: "ok q \<Longrightarrow> length (list_of q) \<le> n \<Longrightarrow> drain n q = list_of q"
proof (induction n arbitrary: q)
  case 0
  then show ?case by simp
next
  case (Suc n)
  show ?case
  proof (cases "list_of q")
    case Nil
    with take_empty [OF Suc.prems(1)] show ?thesis by simp
  next
    case (Cons x xs)
    with take_some [OF Suc.prems(1)] obtain q1 where
      "rem q False = Returns (QOK, Some x, q1)" "ok q1" "list_of q1 = xs" by blast
    with Cons Suc show ?thesis by simp
  qed
qed

text \<open>What went in comes out, in the same order.\<close>

lemma fifo_order:
  assumes "ok q" and "list_of q = []" and "length xs \<le> capacity q"
  shows "\<exists>q'. add_all q xs = Some q' \<and> drain (length xs) q' = xs"
  using add_all_list [OF assms(1), of xs] assms drain_list by auto

end

section \<open>The ring buffer implements the contract\<close>

definition queue_list :: "'a queue_t \<Rightarrow> 'a list" where
  "queue_list q = map (\<lambda>i. q_data q ! ((q_lo q + i) mod q_cap q)) [0..<q_sz q]"

definition queue_ok :: "'a queue_t \<Rightarrow> bool" where
  "queue_ok q \<longleftrightarrow> length (q_data q) = q_cap q \<and> q_sz q \<le> q_cap q \<and>
     (q_cap q \<noteq> 0 \<longrightarrow> q_lo q < q_cap q \<and> q_hi q = (q_lo q + q_sz q) mod q_cap q)"

lemma queue_list_length [simp]: "length (queue_list q) = q_sz q"
  by (simp add: queue_list_def)

lemma queue_create_ok: "queue_ok (queue_create cap junk)"
  and queue_create_list: "queue_list (queue_create cap junk) = []"
  by (simp_all add: queue_ok_def queue_create_def queue_list_def)

lemma queue_create_cap: "q_cap (queue_create cap junk) = cap"
  by (simp add: queue_create_def)

lemma mod_add_neq:
  assumes "i < (k::nat)" and "k < c"
  shows "(l + i) mod c \<noteq> (l + k) mod c"
proof
  assume "(l + i) mod c = (l + k) mod c"
  then have "c dvd (l + k) - (l + i)"
    using assms by (subst mod_eq_dvd_iff_nat [symmetric]) auto
  with assms show False by (auto dest: dvd_imp_le)
qed

lemma queue_add_list:
  assumes "queue_ok q" and "q_sz q < q_cap q"
  shows "\<exists>q'. queue_add q e b = Returns (QOK, q') \<and> queue_ok q' \<and> q_cap q' = q_cap q \<and>
           queue_list q' = queue_list q @ [e]"
proof -
  let ?q = "q\<lparr>q_data := (q_data q)[q_hi q := e], q_hi := (q_hi q + 1) mod q_cap q,
              q_sz := q_sz q + 1\<rparr>"
  have hi: "q_hi q = (q_lo q + q_sz q) mod q_cap q" and len: "length (q_data q) = q_cap q"
    and lt: "q_hi q < q_cap q"
    using assms by (auto simp: queue_ok_def)
  have "queue_ok ?q" using assms by (auto simp: queue_ok_def mod_Suc_eq)
  moreover have "queue_list ?q = queue_list q @ [e]"
  proof -
    have "(q_data q)[q_hi q := e] ! ((q_lo q + i) mod q_cap q)
        = q_data q ! ((q_lo q + i) mod q_cap q)" if "i < q_sz q" for i
      using mod_add_neq [OF that assms(2), of "q_lo q"] hi by (simp add: nth_list_update_neq)
    moreover have "(q_data q)[q_hi q := e] ! ((q_lo q + q_sz q) mod q_cap q) = e"
      using hi len lt by simp
    ultimately show ?thesis by (simp add: queue_list_def)
  qed
  moreover have "queue_add q e b = Returns (QOK, ?q)"
    using assms(2) by (simp add: queue_add_def)
  ultimately show ?thesis by simp
qed

lemma queue_take_list:
  assumes "queue_ok q" and "queue_list q = x # xs"
  shows "\<exists>q'. queue_take q b = Returns (QOK, Some x, q') \<and> queue_ok q' \<and> q_cap q' = q_cap q \<and>
           queue_list q' = xs"
proof -
  let ?q = "q\<lparr>q_lo := (q_lo q + 1) mod q_cap q, q_sz := q_sz q - 1\<rparr>"
  have sz: "q_sz q \<noteq> 0" using assms(2) by (metis list.discI queue_list_length list.size(3) length_0_conv)
  then have cap: "q_cap q \<noteq> 0" and lo: "q_lo q < q_cap q"
    and hi: "q_hi q = (q_lo q + q_sz q) mod q_cap q"
    using assms(1) by (auto simp: queue_ok_def)
  have split: "[0..<q_sz q] = 0 # map Suc [0..<q_sz q - 1]"
    using sz by (metis map_Suc_upt upt_conv_Cons Suc_diff_1 neq0_conv)
  have "queue_list q = q_data q ! q_lo q # queue_list ?q"
    using lo by (simp add: queue_list_def split mod_add_left_eq comp_def)
  then have list: "x = q_data q ! q_lo q \<and> xs = queue_list ?q"
    using assms(2) by simp
  have "(Suc (q_lo q) mod q_cap q + (q_sz q - 1)) mod q_cap q
      = (q_lo q + q_sz q) mod q_cap q"
    by (subst mod_add_left_eq) (use sz in simp)
  moreover have "Suc (q_lo q) mod q_cap q + (q_sz q - 1) = Suc (q_lo q) mod q_cap q + q_sz q - 1"
    using sz by simp
  ultimately have "queue_ok ?q"
    using assms(1) sz cap lo hi by (auto simp: queue_ok_def)
  with list sz show ?thesis by (simp add: queue_take_def)
qed

interpretation ring: bounded_fifo queue_add queue_take q_cap queue_list queue_ok
proof unfold_locales
  show "length (queue_list q) \<le> q_cap q" if "queue_ok q" for q :: "'a queue_t"
    using that by (simp add: queue_ok_def)
  show "queue_add q e b = (if b then Blocks else Returns (QFULL, q))"
    if "queue_ok q" "length (queue_list q) = q_cap q" for q :: "'a queue_t" and e b
    using that by (simp add: queue_add_def)
  show "queue_take q b = (if b then Blocks else Returns (QEMPTY, None, q))"
    if "queue_ok q" "queue_list q = []" for q :: "'a queue_t" and b
    using that(2) by (simp add: queue_take_def flip: queue_list_length)
qed (use queue_add_list queue_take_list in auto)

end
