(* ===== verification/ServerHandlers.thy ===== *)
theory ServerHandlers imports ServerModel Queue begin

text \<open>
  The message handlers of \<open>server/server.c\<close> and the dispatcher \<open>pkt_handler\<close>. A
  handler maps the state to the next state, or to the fault that ends the
  process. Pointers obtained from a search are dereferenced when they are used,
  so that two names for one object (\<open>usr1 == usr2\<close>) behave as they do in C.
\<close>

section \<open>Battles\<close>

text \<open>\<open>judge_turn\<close>, first part: the turn number.\<close>

definition judge_advance :: "challenge_t \<Rightarrow> challenge_t" where
  "judge_advance ch =
     (if turn_no ch = 0 then ch\<lparr>acted1 := False, acted2 := False, turn_no := 1\<rparr>
      else ch\<lparr>turn_no := turn_no ch + 1\<rparr>)"

text \<open>Second part: the damage of this turn, for a random number \<open>r\<close>.\<close>

definition judge_damage :: "nat \<Rightarrow> challenge_t \<Rightarrow> challenge_t" where
  "judge_damage r ch =
     (let damage = (of_nat (r mod 5 + 1) :: u32);
          (d1, d2) = (case get_turn_result (act1 ch) (act2 ch) of
            TR_WIN \<Rightarrow> (0, damage) | TR_LOSE \<Rightarrow> (damage, 0) | TR_EVEN \<Rightarrow> (0, 0))
      in ch\<lparr>hp1 := hp1 ch - d1, hp2 := hp2 ch - d2\<rparr>)"

text \<open>Third part: is the battle over, and who won (\<open>None\<close>: it goes on).\<close>

definition judge_winner :: "int \<Rightarrow> challenge_t \<Rightarrow> u16 option" where
  "judge_winner force_lose_id ch =
     (if force_lose_id = uint (user1 ch) then Some (user2 ch)
      else if force_lose_id = uint (user2 ch) then Some (user1 ch)
      else if sint (hp1 ch) \<le> 0 then Some (user2 ch)
      else if sint (hp2 ch) \<le> 0 then Some (user1 ch)
      else None)"

definition turn_r_msg :: "challenge_t \<Rightarrow> u16 option \<Rightarrow> message_t" where
  "turn_r_msg ch w =
     (init_msg_buf TURN_R)\<lparr>m_body := Turn_r
        \<lparr>tr_chid = 0, tr_turn_no = turn_no ch, tr_action1 = ucast (act1 ch),
         tr_action2 = ucast (act2 ch), tr_winner = (case w of None \<Rightarrow> 0 | Some i \<Rightarrow> i),
         tr_hp1 = hp1 ch, tr_hp2 = hp2 ch, tr_maxhp1 = maxhp1 ch, tr_maxhp2 = maxhp2 ch,
         tr_fin = (case w of None \<Rightarrow> 0 | Some _ \<Rightarrow> 1)\<rparr>\<rparr>"

definition add_score :: "ptr \<Rightarrow> u32 \<Rightarrow> server_t \<Rightarrow> fault + server_t" where
  "add_score p d s = bind_r (deref_u p s) (\<lambda>u. Inr (set_user p (u\<lparr>u_score := u_score u + d\<rparr>) s))"

text \<open>\<open>if (user->state == UBATTLING) user->state = UONLINE;\<close>\<close>

definition leave_battle :: "ptr \<Rightarrow> server_t \<Rightarrow> fault + server_t" where
  "leave_battle p s = bind_r (deref_u p s) (\<lambda>u.
     Inr (if u_state u = UBATTLING then set_user p (u\<lparr>u_state := UONLINE\<rparr>) s else s))"

text \<open>The block \<open>if (fin)\<close> of \<open>judge_turn\<close>.\<close>

definition judge_finish :: "ptr \<Rightarrow> ptr \<Rightarrow> ptr \<Rightarrow> u16 \<Rightarrow> server_t \<Rightarrow> fault + server_t" where
  "judge_finish pch p1 p2 winner s =
     (let (r1, s1) = random_num s; (r2, s2) = random_num s1;
          bonus = (of_nat (r1 mod 4 + 1) :: u32); penalty = (of_nat (r2 mod 4) :: u32)
      in bind_r (deref_u p1 s2) (\<lambda>u1.
         bind_r (if u_id u1 = winner
                 then bind_r (add_score p1 bonus s2) (add_score p2 (- penalty))
                 else bind_r (add_score p2 bonus s2) (add_score p1 (- penalty))) (\<lambda>s3.
         bind_r (leave_battle p1 s3) (\<lambda>s4.
         bind_r (leave_battle p2 s4) (\<lambda>s5.
         bind_r (broadcast_user_changes (Some p1) (Some p2) s5) (\<lambda>s6.
         ch_unlink pch s6))))))"

text \<open>
  \<open>msg_send(user1->fd, ...)\<close> dereferences what the search returned, which is \<open>NULL\<close>
  when the user is gone.
\<close>

definition judge_turn :: "ptr \<Rightarrow> int \<Rightarrow> server_t \<Rightarrow> fault + server_t" where
  "judge_turn pch force_lose_id s =
     bind_r (deref_c pch s) (\<lambda>ch0.
       let ch1 = judge_advance ch0;
           (ch2, s1) = (if acted1 ch1 \<and> acted2 ch1
                        then (let (r, s') = random_num s in (judge_damage r ch1, s'))
                        else (ch1, s));
           ch3 = ch2\<lparr>acted1 := False, acted2 := False\<rparr>;
           w = judge_winner force_lose_id ch3;
           msg = turn_r_msg ch3 w;
           s2 = set_ch pch ch3 s1
       in case (find_id (user1 ch3) s2, find_id (user2 ch3) s2) of
            (Some p1, Some p2) \<Rightarrow>
              bind_r (deref_u p1 s2) (\<lambda>u1.
              bind_r (deref_u p2 s2) (\<lambda>u2.
                let s3 = send_msg (u_fd u2) msg (send_msg (u_fd u1) msg s2)
                in case w of None \<Rightarrow> Inr s3 | Some winner \<Rightarrow> judge_finish pch p1 p2 winner s3))
          | _ \<Rightarrow> Inl NullDeref)"

section \<open>Joining and leaving\<close>

definition handle_join :: "int \<Rightarrow> msg_join_t \<Rightarrow> server_t \<Rightarrow> fault + server_t" where
  "handle_join fd join s =
     bind_r (user_add fd (j_nickname join) s) (\<lambda>(user, err, s1).
       if err = ME_OK then
         (case user of None \<Rightarrow> Inl AssertFailed
          | Some p \<Rightarrow> bind_r (deref_u p s1) (\<lambda>u.
              let s2 = send_msg fd (make_join_r (j_nickname join) ME_OK (u_id u) (u_key u)) s1
              in bind_r (twalk_users \<lparr>w_type = ALL_TO_ONE, w_fd = fd, w_msg = None\<rparr> s2) (\<lambda>(st, s3).
                 let s4 = (case w_msg st of None \<Rightarrow> s3 | Some m \<Rightarrow> send_msg fd m s3);
                     m = fst (snd (uchange_add_or_create make_uchange False (u_nickname u) (u_id u)
                           (u_state u) (u_score u)))
                 in bind_r (twalk_users \<lparr>w_type = MSG_TO_ALL, w_fd = fd, w_msg = Some m\<rparr> s4) (\<lambda>st'.
                      Inr (snd st')))))
       else Inr (send_msg fd (make_join_r (j_nickname join) err 0 0) s1))"

definition quit_user :: "ptr \<Rightarrow> server_t \<Rightarrow> fault + server_t" where
  "quit_user p s =
     (if user_by_id s = [] then Inl AssertFailed
      else bind_r (deref_u p s) (\<lambda>user.
        bind_r (if u_state user = UBATTLING then
                  (case find_ch (u_chid user) s of
                     None \<Rightarrow> Inr s
                   | Some pch \<Rightarrow> judge_turn pch (uint (u_id user)) s)
                else Inr s) (\<lambda>s1.
        bind_r (deref_u p s1) (\<lambda>user1.
        let s2 = set_user p (user1\<lparr>u_state := UOFFLINE\<rparr>) s1
        in bind_r (broadcast_user_changes (Some p) None s2) (user_del_and_destroy p)))))"

definition handle_disconnect :: "int \<Rightarrow> server_t \<Rightarrow> fault + server_t" where
  "handle_disconnect fd s =
     (case find_fd fd s of None \<Rightarrow> Inr s | Some p \<Rightarrow> quit_user p s)"

definition handle_quit :: "msg_quit_t \<Rightarrow> server_t \<Rightarrow> fault + server_t" where
  "handle_quit q s =
     (case find_id (qt_id q) s of
        None \<Rightarrow> Inr s
      | Some p \<Rightarrow> bind_r (deref_u p s) (\<lambda>u.
          if u_key u \<noteq> qt_key q then Inr s else quit_user p s))"

section \<open>Challenges\<close>

definition challenge_r_msg :: "msg_challenge_t \<Rightarrow> u16 \<Rightarrow> bool \<Rightarrow> message_t" where
  "challenge_r_msg c err is_id1 =
     init_challenge_r\<lparr>m_body := Challenge_r
       \<lparr>cr_error = err, cr_id1 = c_id1 c, cr_id2 = c_id2 c, cr_chid = c_chid c,
        cr_is_id1 = of_bool is_id1\<rparr>\<rparr>"

definition relay_msg :: "msg_challenge_t \<Rightarrow> u16 \<Rightarrow> message_t" where
  "relay_msg c chid = make_challenge\<lparr>m_body := Challenge (c\<lparr>c_chid := chid\<rparr>)\<rparr>"

definition challenge_start ::
  "int \<Rightarrow> msg_challenge_t \<Rightarrow> ptr \<Rightarrow> ptr \<Rightarrow> server_t \<Rightarrow> fault + server_t" where
  "challenge_start fd c p1 p2 s =
     bind_r (deref_u p1 s) (\<lambda>usr1. bind_r (deref_u p2 s) (\<lambda>usr2.
       if u_state usr1 \<noteq> UONLINE \<or> u_state usr2 \<noteq> UONLINE then
         Inr (send_msg fd (challenge_r_msg c ENGAGED False) s)
       else if u_id usr1 = u_id usr2 then
         Inr (send_msg fd (challenge_r_msg c CHLSELF False) s)
       else bind_r (add_challenge s) (\<lambda>(pch, s1). bind_r (deref_c pch s1) (\<lambda>ch.
         let s2 = set_ch pch (ch\<lparr>ch_state := ASKING, user1 := c_id1 c, user2 := c_id2 c,
                    hp1 := MAXHP, hp2 := MAXHP, maxhp1 := MAXHP, maxhp2 := MAXHP\<rparr>) s1;
             s3 = set_user p1 (usr1\<lparr>u_chid := ch_id ch\<rparr>) s2
         in Inr (send_msg (u_fd usr2) (relay_msg c (ch_id ch)) s3)))))"

definition challenge_cancel ::
  "int \<Rightarrow> msg_challenge_t \<Rightarrow> ptr \<Rightarrow> server_t \<Rightarrow> fault + server_t" where
  "challenge_cancel fd c p1 s =
     bind_r (deref_u p1 s) (\<lambda>usr1.
       if u_state usr1 = UONLINE then
         (case find_ch (u_chid usr1) s of
            None \<Rightarrow> Inr s
          | Some pch \<Rightarrow> bind_r (deref_c pch s) (\<lambda>ch.
              if ch_state ch = ASKING \<and> user1 ch = u_id usr1 then
                bind_r (ch_unlink pch (set_user p1 (usr1\<lparr>u_chid := 0\<rparr>) s)) (\<lambda>s1.
                  case find_id (user2 ch) s1 of
                    None \<Rightarrow> Inr s1
                  | Some p2 \<Rightarrow> bind_r (deref_u p2 s1) (\<lambda>u2.
                      Inr (send_msg (u_fd u2) (challenge_r_msg c CANCELLED False) s1)))
              else Inr s))
       else Inr s)"

definition challenge_accept ::
  "int \<Rightarrow> msg_challenge_t \<Rightarrow> ptr \<Rightarrow> ptr \<Rightarrow> ptr \<Rightarrow> server_t \<Rightarrow> fault + server_t" where
  "challenge_accept fd c p1 p2 pch s =
     bind_r (deref_u p1 s) (\<lambda>usr1. bind_r (deref_u p2 s) (\<lambda>usr2.
     bind_r (deref_c pch s) (\<lambda>ch.
       if u_state usr1 = UONLINE \<and> u_state usr2 = UONLINE then
         let s1 = set_ch pch (ch\<lparr>ch_state := STARTED\<rparr>) s;
             s2 = set_user p1 (usr1\<lparr>u_state := UBATTLING, u_chid := ch_id ch\<rparr>) s1
         in bind_r (deref_u p2 s2) (\<lambda>usr2'.
            let s3 = set_user p2 (usr2'\<lparr>u_state := UBATTLING, u_chid := ch_id ch\<rparr>) s2
            in bind_r (broadcast_user_changes (Some p1) (Some p2) s3) (\<lambda>s4.
               let s5 = send_msg (u_fd usr1) (challenge_r_msg c ME_OK True) s4;
                   s6 = send_msg (u_fd usr2) (challenge_r_msg c ME_OK False) s5
               in bind_r (deref_c pch s6) (\<lambda>ch'.
                  judge_turn pch (-1) (set_ch pch (ch'\<lparr>turn_no := 0\<rparr>) s6))))
       else Inr (send_msg fd (challenge_r_msg c ENGAGED False) s))))"

definition challenge_reject ::
  "msg_challenge_t \<Rightarrow> ptr \<Rightarrow> ptr \<Rightarrow> ptr \<Rightarrow> server_t \<Rightarrow> fault + server_t" where
  "challenge_reject c p1 p2 pch s =
     bind_r (deref_u p1 s) (\<lambda>usr1. bind_r (deref_u p2 s) (\<lambda>usr2.
     bind_r (deref_c pch s) (\<lambda>ch.
       if ch_state ch = ASKING \<and> user2 ch = u_id usr2 then
         bind_r (ch_unlink pch (send_msg (u_fd usr1) (challenge_r_msg c REJECTED False) s))
           (\<lambda>s1. Inr (ch_free pch s1))
       else Inr s)))"

text \<open>The user whose key must come with an action, \<open>None\<close> for an unknown action.\<close>

definition challenge_signer :: "u16 \<Rightarrow> 'u \<Rightarrow> 'u \<Rightarrow> 'u option" where
  "challenge_signer action usr1 usr2 =
     (if action = C_START \<or> action = C_CANCEL then Some usr1
      else if action = C_ACCEPT \<or> action = C_REJECT then Some usr2
      else None)"

definition handle_challenge :: "int \<Rightarrow> msg_challenge_t \<Rightarrow> server_t \<Rightarrow> fault + server_t" where
  "handle_challenge fd c s =
     (case (find_id (c_id1 c) s, find_id (c_id2 c) s) of
        (Some p1, Some p2) \<Rightarrow>
          bind_r (deref_u p1 s) (\<lambda>usr1. bind_r (deref_u p2 s) (\<lambda>usr2.
          case challenge_signer (c_action c) usr1 usr2 of
            None \<Rightarrow> Inr (send_msg fd (challenge_r_msg c INVARG False) s)
          | Some signer \<Rightarrow>
              if u_key signer \<noteq> c_key c then Inr (send_msg fd (challenge_r_msg c ICKEY False) s)
              else if c_action c = C_START then challenge_start fd c p1 p2 s
              else if c_action c = C_CANCEL then challenge_cancel fd c p1 s
              else (case find_ch (c_chid c) s of
                  None \<Rightarrow> Inr (send_msg fd (challenge_r_msg c NXCHID False) s)
                | Some pch \<Rightarrow> bind_r (deref_c pch s) (\<lambda>ch.
                    if ch_state ch = STARTED then Inr s
                    else if c_action c = C_ACCEPT then challenge_accept fd c p1 p2 pch s
                    else challenge_reject c p1 p2 pch s))))
      | _ \<Rightarrow> Inr (send_msg fd (challenge_r_msg c NXID False) s))"

section \<open>Turns and chat\<close>

text \<open>The two branches that record an action.\<close>

definition record_action :: "msg_turn_t \<Rightarrow> challenge_t \<Rightarrow> challenge_t" where
  "record_action t ch =
     (if t_user t = user1 ch \<and> \<not> acted1 ch then ch\<lparr>act1 := ucast (t_action t), acted1 := True\<rparr>
      else if t_user t = user2 ch \<and> \<not> acted2 ch then ch\<lparr>act2 := ucast (t_action t), acted2 := True\<rparr>
      else ch)"

definition handle_turn :: "int \<Rightarrow> msg_turn_t \<Rightarrow> server_t \<Rightarrow> fault + server_t" where
  "handle_turn fd t s =
     (case find_ch (t_chid t) s of
        None \<Rightarrow> Inr s
      | Some pch \<Rightarrow> (case find_id (t_user t) s of
          None \<Rightarrow> Inr s
        | Some p \<Rightarrow> bind_r (deref_u p s) (\<lambda>user.
            if u_key user \<noteq> t_key t then Inr s
            else bind_r (deref_c pch s) (\<lambda>ch.
              let ch' = record_action t ch; s1 = set_ch pch ch' s
              in if acted1 ch' \<and> acted2 ch' then judge_turn pch (-1) s1 else Inr s1))))"

definition handle_sendmsg :: "msg_sendmsg_t \<Rightarrow> message_t \<Rightarrow> server_t \<Rightarrow> fault + server_t" where
  "handle_sendmsg sm msg s =
     (case find_id (sm_id sm) s of
        None \<Rightarrow> Inr s
      | Some p \<Rightarrow> bind_r (deref_u p s) (\<lambda>user.
          if u_key user = sm_key sm then
            bind_r (twalk_users \<lparr>w_type = MSG_TO_ALL, w_fd = -1,
                w_msg = Some (msg\<lparr>m_body := Sendmsg (sm\<lparr>sm_key := 0\<rparr>)\<rparr>)\<rparr> s) (\<lambda>st. Inr (snd st))
          else Inr s))"

section \<open>The dispatcher\<close>

datatype queue_entry_t = EMSG int message_t | EDISCONN int

text \<open>
  One round of \<open>pkt_handler\<close> on the entry it took. The kinds a server does not handle
  (\<open>JOIN_R\<close>, \<open>UCHANGE\<close>, \<open>CHALLENGE_R\<close>, \<open>TURN_R\<close>) are dropped.
\<close>

definition handle_entry :: "queue_entry_t \<Rightarrow> server_t \<Rightarrow> fault + server_t" where
  "handle_entry entry s =
     (case entry of
        EMSG fd msg \<Rightarrow>
          (case m_body msg of
             Join j \<Rightarrow> handle_join fd j s
           | Quit q \<Rightarrow> handle_quit q s
           | Challenge c \<Rightarrow> handle_challenge fd c s
           | Turn t \<Rightarrow> handle_turn fd t s
           | Sendmsg sm \<Rightarrow> handle_sendmsg sm msg s
           | _ \<Rightarrow> Inr s)
      | EDISCONN fd \<Rightarrow> handle_disconnect fd s)"

text \<open>The entries in the order the queue gives them.\<close>

definition server_run :: "queue_entry_t list \<Rightarrow> server_t \<Rightarrow> fault + server_t" where
  "server_run es s = fold_r handle_entry es s"

text \<open>
  A connection's thread: what \<open>msg_recv\<close> returns, in order, until a failure whose
  \<open>errno\<close> is not \<open>EWOULDBLOCK\<close> or \<open>EAGAIN\<close>.
\<close>

datatype recv_result = RecvMsg message_t | RecvFail bool

fun serve :: "int \<Rightarrow> recv_result list \<Rightarrow> queue_entry_t list" where
  "serve fd [] = []"
| "serve fd (RecvMsg m # r) = EMSG fd m # serve fd r"
| "serve fd (RecvFail again # r) = (if again then serve fd r else [EDISCONN fd])"

end
