(* ===== verification/ServerTables.thy ===== *)
theory ServerTables imports ServerHandlers begin

text \<open>
  The tables of the server: when they are consistent (\<open>users_ok\<close>, \<open>chs_ok\<close>), what the
  searches then find, and the exact effect of the operations that walk over them.
  \<open>keeps s s'\<close> says that the step from \<open>s\<close> to \<open>s'\<close> changes no table of users and no
  identity of a user; consistency of the user tables carries over such steps.
\<close>

section \<open>Consistency\<close>

definition user_wf :: "server_user_t \<Rightarrow> bool" where
  "user_wf u \<longleftrightarrow> 0 \<le> u_fd u \<and> 0 \<notin> set (u_nickname u) \<and> length (u_nickname u) < NICKNAME_LEN"

definition users_ok :: "server_t \<Rightarrow> bool" where
  "users_ok s \<longleftrightarrow>
     tree_ok cmp_by_id (uheap s) (user_by_id s) \<and>
     tree_ok cmp_by_fd (uheap s) (user_by_fd s) \<and>
     tree_ok cmp_by_nick (uheap s) (user_by_nick s) \<and>
     set (user_by_fd s) = set (user_by_id s) \<and>
     set (user_by_nick s) = set (user_by_id s) \<and>
     user_cnt s = length (user_by_id s) \<and> user_cnt s \<le> MAX_USER_COUNT \<and>
     (\<forall>p \<in> dom (uheap s). p < brk s) \<and>
     (\<forall>p u. p \<in> set (user_by_id s) \<longrightarrow> uheap s p = Some u \<longrightarrow> user_wf u)"

definition chs_ok :: "server_t \<Rightarrow> bool" where
  "chs_ok s \<longleftrightarrow>
     tree_ok cmp_by_chid (cheap s) (ch_by_id s) \<and> (\<forall>p \<in> dom (cheap s). p < brk s)"

lemma users_okD:
  assumes "users_ok s"
  shows "tree_ok cmp_by_id (uheap s) (user_by_id s)"
    and "tree_ok cmp_by_fd (uheap s) (user_by_fd s)"
    and "tree_ok cmp_by_nick (uheap s) (user_by_nick s)"
    and "set (user_by_fd s) = set (user_by_id s)"
    and "set (user_by_nick s) = set (user_by_id s)"
    and "user_cnt s = length (user_by_id s)"
    and "user_cnt s \<le> MAX_USER_COUNT"
    and "p \<in> set (user_by_id s) \<Longrightarrow> uheap s p = Some u \<Longrightarrow> user_wf u"
    and "uheap s p = Some u \<Longrightarrow> p < brk s"
  using assms by (auto simp: users_ok_def)

lemma users_ok_live: "users_ok s \<Longrightarrow> p \<in> set (user_by_id s) \<Longrightarrow> \<exists>u. uheap s p = Some u"
  by (auto simp: users_ok_def intro: tree_ok_live)

lemma chs_okD:
  assumes "chs_ok s"
  shows "tree_ok cmp_by_chid (cheap s) (ch_by_id s)" and "cheap s p = Some c \<Longrightarrow> p < brk s"
  using assms by (auto simp: chs_ok_def)

section \<open>Searching\<close>

lemma deref_u_Some [simp]: "uheap s p = Some u \<Longrightarrow> deref_u p s = Inr u"
  by (simp add: deref_u_def)

lemma deref_u_Inr: "deref_u p s = Inr u \<longleftrightarrow> uheap s p = Some u"
  by (auto simp: deref_u_def split: option.splits)

lemma deref_c_Some [simp]: "cheap s p = Some c \<Longrightarrow> deref_c p s = Inr c"
  by (simp add: deref_c_def)

lemma deref_c_Inr: "deref_c p s = Inr c \<longleftrightarrow> cheap s p = Some c"
  by (auto simp: deref_c_def split: option.splits)

lemma find_id_SomeE:
  assumes "find_id i s = Some p"
  obtains u where "p \<in> set (user_by_id s)" and "uheap s p = Some u" and "u_id u = i"
  using assms unfolding find_id_def by (elim tfind_SomeE) auto

lemma find_fd_SomeE:
  assumes "find_fd f s = Some p"
  obtains u where "p \<in> set (user_by_fd s)" and "uheap s p = Some u" and "u_fd u = f"
  using assms unfolding find_fd_def by (elim tfind_SomeE) auto

lemma find_ch_SomeE:
  assumes "find_ch i s = Some p"
  obtains c where "p \<in> set (ch_by_id s)" and "cheap s p = Some c" and "ch_id c = i"
  using assms unfolding find_ch_def by (elim tfind_SomeE) auto

lemma find_id_eq:
  "users_ok s \<Longrightarrow> p \<in> set (user_by_id s) \<Longrightarrow> uheap s p = Some u \<Longrightarrow> find_id (u_id u) s = Some p"
  unfolding find_id_def by (rule by_id.tfind_eq) (auto simp: users_ok_def)

lemma find_fd_eq:
  "users_ok s \<Longrightarrow> p \<in> set (user_by_id s) \<Longrightarrow> uheap s p = Some u \<Longrightarrow> find_fd (u_fd u) s = Some p"
  unfolding find_fd_def by (rule by_fd.tfind_eq) (auto simp: users_ok_def)

lemma find_ch_eq:
  "chs_ok s \<Longrightarrow> p \<in> set (ch_by_id s) \<Longrightarrow> cheap s p = Some c \<Longrightarrow> find_ch (ch_id c) s = Some p"
  unfolding find_ch_def by (rule by_chid.tfind_eq) (auto simp: chs_ok_def)

lemma find_id_cong:
  "user_by_id s' = user_by_id s \<Longrightarrow> uheap s' = uheap s \<Longrightarrow> find_id i s' = find_id i s"
  by (simp add: find_id_def)

section \<open>Steps that keep the users\<close>

definition same_identity :: "server_user_t \<Rightarrow> server_user_t \<Rightarrow> bool" where
  "same_identity u u' \<longleftrightarrow> u_id u' = u_id u \<and> u_fd u' = u_fd u \<and> u_nickname u' = u_nickname u \<and>
     u_key u' = u_key u"

definition keeps :: "server_t \<Rightarrow> server_t \<Rightarrow> bool" where
  "keeps s s' \<longleftrightarrow> user_by_id s' = user_by_id s \<and> user_by_fd s' = user_by_fd s \<and>
     user_by_nick s' = user_by_nick s \<and> user_cnt s' = user_cnt s \<and> brk s \<le> brk s' \<and>
     (\<forall>p. rel_option same_identity (uheap s p) (uheap s' p))"

lemma keeps_heap:
  "keeps s s' \<Longrightarrow> uheap s p = Some u \<Longrightarrow> \<exists>u'. uheap s' p = Some u' \<and> same_identity u u'"
  unfolding keeps_def by (metis option_rel_Some1)

lemma keeps_heap_back:
  "keeps s s' \<Longrightarrow> uheap s' p = Some u' \<Longrightarrow> \<exists>u. uheap s p = Some u \<and> same_identity u u'"
  unfolding keeps_def by (metis option_rel_Some2)

lemma same_identity_refl [simp]: "same_identity u u"
  by (simp add: same_identity_def)

lemma keeps_refl [simp]: "keeps s s"
  by (simp add: keeps_def option.rel_refl)

lemma same_identity_trans: "same_identity u v \<Longrightarrow> same_identity v w \<Longrightarrow> same_identity u w"
  by (simp add: same_identity_def)

lemma rel_same_identity_trans:
  "rel_option same_identity x y \<Longrightarrow> rel_option same_identity y z \<Longrightarrow> rel_option same_identity x z"
  by (cases x; cases y; cases z) (auto intro: same_identity_trans)

lemma keeps_trans: "keeps s t \<Longrightarrow> keeps t v \<Longrightarrow> keeps s v"
  unfolding keeps_def by (auto intro: rel_same_identity_trans)

lemma keeps_only_heap:
  assumes "uheap s' = uheap s" and "user_by_id s' = user_by_id s" and "user_by_fd s' = user_by_fd s"
    and "user_by_nick s' = user_by_nick s" and "user_cnt s' = user_cnt s" and "brk s \<le> brk s'"
  shows "keeps s s'"
  using assms by (simp add: keeps_def option.rel_refl)

lemma keeps_send_msg [simp]: "keeps s (send_msg fd m s)"
  by (rule keeps_only_heap) (simp_all add: send_msg_def)

lemma keeps_set_ch [simp]: "keeps s (set_ch p c s)"
  by (rule keeps_only_heap) (simp_all add: set_ch_def)

lemma keeps_random: "random_num s = (r, s') \<Longrightarrow> keeps s s'"
  by (rule keeps_only_heap) (auto simp: random_num_def)

lemma keeps_set_user: "uheap s p = Some u \<Longrightarrow> same_identity u u' \<Longrightarrow> keeps s (set_user p u' s)"
  by (auto simp: keeps_def set_user_def option.rel_refl)

lemma users_ok_keeps:
  assumes "users_ok s" and "keeps s s'"
  shows "users_ok s'"
proof -
  have key: "\<exists>a b. uheap s p = Some a \<and> uheap s' p = Some b \<and> same_identity a b"
    if "p \<in> set (user_by_id s)" for p
    using users_ok_live [OF assms(1) that] keeps_heap [OF assms(2)] by blast
  have "tree_ok cmp_by_id (uheap s') (user_by_id s)"
    by (rule tree_ok_cong [OF users_okD(1) [OF assms(1)]])
       (use key in \<open>fastforce simp: same_identity_def cmp_by_id_def\<close>)
  moreover have "tree_ok cmp_by_fd (uheap s') (user_by_fd s)"
    by (rule tree_ok_cong [OF users_okD(2) [OF assms(1)]])
       (use key users_okD(4) [OF assms(1)] in \<open>fastforce simp: same_identity_def cmp_by_fd_def\<close>)
  moreover have "tree_ok cmp_by_nick (uheap s') (user_by_nick s)"
    by (rule tree_ok_cong [OF users_okD(3) [OF assms(1)]])
       (use key users_okD(5) [OF assms(1)] in \<open>fastforce simp: same_identity_def cmp_by_nick_def\<close>)
  moreover have "p < brk s'" if "p \<in> dom (uheap s')" for p
  proof -
    from that obtain u where "uheap s p = Some u" using keeps_heap_back [OF assms(2)] by blast
    then have "p < brk s" by (rule users_okD(9) [OF assms(1)])
    then show ?thesis using assms(2) by (simp add: keeps_def)
  qed
  moreover have "user_wf u'" if "p \<in> set (user_by_id s)" "uheap s' p = Some u'" for p u'
  proof -
    from that(2) obtain u where "uheap s p = Some u" "same_identity u u'"
      using keeps_heap_back [OF assms(2)] by blast
    with users_okD(8) [OF assms(1) that(1)] show ?thesis
      by (simp add: user_wf_def same_identity_def)
  qed
  ultimately show ?thesis
    using assms by (auto simp: users_ok_def keeps_def)
qed

text \<open>Whom a search by id finds does not change over such a step.\<close>

lemma find_id_keeps:
  assumes "keeps s s'"
  shows "find_id i s' = find_id i s"
proof -
  have "matches cmp_by_id (uheap s') (key_user\<lparr>u_id := i\<rparr>) p =
        matches cmp_by_id (uheap s) (key_user\<lparr>u_id := i\<rparr>) p" for p
  proof (cases "uheap s p")
    case None
    then have "uheap s' p = None" using keeps_heap_back [OF assms, of p] by (cases "uheap s' p") auto
    with None show ?thesis by (simp add: matches_def)
  next
    case (Some u)
    with keeps_heap [OF assms Some] show ?thesis by (auto simp: same_identity_def)
  qed
  then have "matches cmp_by_id (uheap s') (key_user\<lparr>u_id := i\<rparr>) =
      matches cmp_by_id (uheap s) (key_user\<lparr>u_id := i\<rparr>)" by (rule ext)
  then show ?thesis using assms by (simp add: find_id_def tfind_def keeps_def)
qed

section \<open>Walking over the users\<close>

definition fd_of :: "server_t \<Rightarrow> ptr \<Rightarrow> int" where
  "fd_of s p = u_fd (the (uheap s p))"

definition entry_of :: "server_t \<Rightarrow> ptr \<Rightarrow> uchange_user_t" where
  "entry_of s p = (let u = the (uheap s p)
     in uchange_entry (u_nickname u) (u_id u) (u_state u) (u_score u))"

text \<open>What a walk with \<open>MSG_TO_ALL\<close> sends.\<close>

definition to_all :: "server_t \<Rightarrow> int \<Rightarrow> message_t \<Rightarrow> (int \<times> message_t) list" where
  "to_all s except m =
     map (\<lambda>p. (fd_of s p, m)) (filter (\<lambda>p. fd_of s p \<noteq> except) (user_by_id s))"

lemma send_msg_heap [simp]:
  "uheap (send_msg fd m s) = uheap s" "cheap (send_msg fd m s) = cheap s"
  "user_by_id (send_msg fd m s) = user_by_id s" "ch_by_id (send_msg fd m s) = ch_by_id s"
  "user_by_fd (send_msg fd m s) = user_by_fd s" "user_by_nick (send_msg fd m s) = user_by_nick s"
  "user_cnt (send_msg fd m s) = user_cnt s" "brk (send_msg fd m s) = brk s"
  "out (send_msg fd m s) = out s @ [(fd, m)]"
  by (simp_all add: send_msg_def)

lemma walk_to_all:
  assumes "set ps \<subseteq> dom (uheap s)" and "w_type arg = MSG_TO_ALL" and "w_msg arg = Some m"
  shows "fold_r send_user_info ps (arg, s) =
    Inr (arg, s\<lparr>out := out s @ map (\<lambda>p. (fd_of s p, m)) (filter (\<lambda>p. fd_of s p \<noteq> w_fd arg) ps)\<rparr>)"
  using assms
proof (induction ps arbitrary: s)
  case Nil
  then show ?case by simp
next
  case (Cons p ps)
  then obtain u where u: "uheap s p = Some u" by auto
  have fd: "fd_of (send_msg a b s) = fd_of s" for a b by (simp add: fd_of_def fun_eq_iff)
  show ?case
    using Cons.IH [of s] Cons.IH [of "send_msg (u_fd u) m s"] Cons.prems u
    by (simp add: send_user_info_def fd) (auto simp: fd_of_def send_msg_def)
qed

lemma twalk_users_to_all:
  assumes "users_ok s"
  shows "twalk_users \<lparr>w_type = MSG_TO_ALL, w_fd = x, w_msg = Some m\<rparr> s =
    Inr (\<lparr>w_type = MSG_TO_ALL, w_fd = x, w_msg = Some m\<rparr>, s\<lparr>out := out s @ to_all s x m\<rparr>)"
  unfolding twalk_users_def to_all_def
  by (subst walk_to_all) (use assms in \<open>auto simp: users_ok_def tree_ok_def\<close>)

text \<open>
  A walk with \<open>ALL_TO_ONE\<close> collects entries: a full message is sent when the next
  entry comes, and a new one is begun with it.
\<close>

fun batch :: "'a list \<Rightarrow> 'a list \<Rightarrow> 'a list list \<times> 'a list" where
  "batch cur [] = ([], cur)"
| "batch cur (x # xs) =
     (if 16 \<le> length cur then (let (bs, c) = batch [x] xs in (cur # bs, c))
      else batch (cur @ [x]) xs)"

lemma batch_concat: "batch cur xs = (bs, c) \<Longrightarrow> concat bs @ c = cur @ xs"
  by (induction cur xs arbitrary: bs c rule: batch.induct) (auto split: prod.splits if_splits)

lemma batch_full:
  "batch cur xs = (bs, c) \<Longrightarrow> length cur \<le> 16 \<Longrightarrow>
   list_all (\<lambda>b. length b = 16) bs \<and> length c \<le> 16"
  by (induction cur xs arbitrary: bs c rule: batch.induct) (auto split: prod.splits if_splits)

lemma walk_all_to_one:
  assumes "set ps \<subseteq> dom (uheap s)" and "\<And>p u. p \<in> set ps \<Longrightarrow> uheap s p = Some u \<Longrightarrow> 0 \<le> u_fd u"
    and "length cur \<le> 16" and "batch cur (map (entry_of s) ps) = (bs, c)"
  shows "fold_r send_user_info ps (\<lparr>w_type = ALL_TO_ONE, w_fd = fd, w_msg = Some (uchange_msg cur)\<rparr>, s) =
    Inr (\<lparr>w_type = ALL_TO_ONE, w_fd = fd, w_msg = Some (uchange_msg c)\<rparr>,
         s\<lparr>out := out s @ map (\<lambda>b. (fd, uchange_msg b)) bs\<rparr>)"
  using assms
proof (induction ps arbitrary: s cur bs)
  case Nil
  then show ?case by simp
next
  case (Cons p ps)
  then obtain u where u: "uheap s p = Some u" by auto
  then have fd0: "0 \<le> u_fd u" using Cons.prems(2) [of p u] by simp
  have entry: "entry_of (send_msg a b s) = entry_of s" for a b
    by (simp add: entry_of_def fun_eq_iff)
  have e: "uchange_entry (u_nickname u) (u_id u) (u_state u) (u_score u) = entry_of s p"
    using u by (simp add: entry_of_def)
  show ?case
  proof (cases "16 \<le> length cur")
    case True
    with Cons.prems(3,4) obtain bs' where bs: "bs = cur # bs'"
      and b': "batch [entry_of s p] (map (entry_of s) ps) = (bs', c)"
      by (auto split: prod.splits)
    have "fold_r send_user_info ps
        (\<lparr>w_type = ALL_TO_ONE, w_fd = fd, w_msg = Some (uchange_msg [entry_of s p])\<rparr>,
         send_msg fd (uchange_msg cur) s) =
      Inr (\<lparr>w_type = ALL_TO_ONE, w_fd = fd, w_msg = Some (uchange_msg c)\<rparr>,
         (send_msg fd (uchange_msg cur) s)\<lparr>out := out (send_msg fd (uchange_msg cur) s) @
            map (\<lambda>b. (fd, uchange_msg b)) bs'\<rparr>)"
      using Cons.prems b' by (intro Cons.IH) (auto simp: entry)
    moreover have "send_user_info p (\<lparr>w_type = ALL_TO_ONE, w_fd = fd, w_msg = Some (uchange_msg cur)\<rparr>, s) =
      Inr (\<lparr>w_type = ALL_TO_ONE, w_fd = fd, w_msg = Some (uchange_msg [entry_of s p])\<rparr>,
           send_msg fd (uchange_msg cur) s)"
      using True u fd0 Cons.prems(3) e by (simp add: send_user_info_def uchange_add_or_create_msg)
    ultimately show ?thesis by (simp add: bs send_msg_def)
  next
    case False
    with Cons.prems(4) have b': "batch (cur @ [entry_of s p]) (map (entry_of s) ps) = (bs, c)"
      by simp
    have "fold_r send_user_info ps
        (\<lparr>w_type = ALL_TO_ONE, w_fd = fd, w_msg = Some (uchange_msg (cur @ [entry_of s p]))\<rparr>, s) =
      Inr (\<lparr>w_type = ALL_TO_ONE, w_fd = fd, w_msg = Some (uchange_msg c)\<rparr>,
         s\<lparr>out := out s @ map (\<lambda>b. (fd, uchange_msg b)) bs\<rparr>)"
      using Cons.prems(1-3) False b' by (intro Cons.IH) auto
    moreover have "send_user_info p (\<lparr>w_type = ALL_TO_ONE, w_fd = fd, w_msg = Some (uchange_msg cur)\<rparr>, s) =
      Inr (\<lparr>w_type = ALL_TO_ONE, w_fd = fd, w_msg = Some (uchange_msg (cur @ [entry_of s p]))\<rparr>, s)"
      using False u fd0 Cons.prems(3) e by (simp add: send_user_info_def uchange_add_or_create_msg)
    ultimately show ?thesis by simp
  qed
qed

lemma twalk_users_all_to_one:
  assumes "users_ok s" and "user_by_id s \<noteq> []"
    and "batch [] (map (entry_of s) (user_by_id s)) = (bs, c)"
  shows "twalk_users \<lparr>w_type = ALL_TO_ONE, w_fd = fd, w_msg = None\<rparr> s =
    Inr (\<lparr>w_type = ALL_TO_ONE, w_fd = fd, w_msg = Some (uchange_msg c)\<rparr>,
         s\<lparr>out := out s @ map (\<lambda>b. (fd, uchange_msg b)) bs\<rparr>)"
proof -
  obtain p ps where ps: "user_by_id s = p # ps" using assms(2) by (cases "user_by_id s") auto
  have "send_user_info p (\<lparr>w_type = ALL_TO_ONE, w_fd = fd, w_msg = None\<rparr>, s) =
      send_user_info p (\<lparr>w_type = ALL_TO_ONE, w_fd = fd, w_msg = Some (uchange_msg [])\<rparr>, s)"
    using users_ok_live [OF assms(1), of p] ps
    by (auto simp: send_user_info_def make_uchange_eq Let_def split: prod.splits)
  then have "twalk_users \<lparr>w_type = ALL_TO_ONE, w_fd = fd, w_msg = None\<rparr> s =
      fold_r send_user_info (user_by_id s)
        (\<lparr>w_type = ALL_TO_ONE, w_fd = fd, w_msg = Some (uchange_msg [])\<rparr>, s)"
    by (simp add: twalk_users_def ps)
  also have "\<dots> = Inr (\<lparr>w_type = ALL_TO_ONE, w_fd = fd, w_msg = Some (uchange_msg c)\<rparr>,
         s\<lparr>out := out s @ map (\<lambda>b. (fd, uchange_msg b)) bs\<rparr>)"
    using assms(1,3) users_ok_live [OF assms(1)] users_okD(8) [OF assms(1)]
    by (intro walk_all_to_one) (auto simp: user_wf_def)
  finally show ?thesis .
qed

text \<open>\<open>broadcast_user_changes\<close> sends one message with the current data of its users to everybody.\<close>

definition opt_entries :: "server_t \<Rightarrow> ptr option list \<Rightarrow> uchange_user_t list" where
  "opt_entries s qs = map (\<lambda>q. entry_of s (the q)) (filter (\<lambda>q. q \<noteq> None) qs)"

definition change_msg :: "server_t \<Rightarrow> ptr option \<Rightarrow> ptr option \<Rightarrow> message_t" where
  "change_msg s q1 q2 = uchange_msg (opt_entries s [q1, q2])"

lemma add_change_msg:
  assumes "length es < 16" and "\<And>p. q = Some p \<Longrightarrow> p \<in> dom (uheap s)"
  shows "add_change s q (uchange_msg es) = Inr (uchange_msg (es @ opt_entries s [q]))"
proof (cases q)
  case None
  then show ?thesis by (simp add: add_change_def opt_entries_def)
next
  case (Some p)
  with assms(2) obtain u where "uheap s p = Some u" by auto
  with Some assms(1) show ?thesis
    by (simp add: add_change_def opt_entries_def entry_of_def uchange_add_or_create_msg)
qed

lemma broadcast_eq:
  assumes "users_ok s" and "\<And>p. q1 = Some p \<Longrightarrow> p \<in> dom (uheap s)"
    and "\<And>p. q2 = Some p \<Longrightarrow> p \<in> dom (uheap s)"
  shows "broadcast_user_changes q1 q2 s =
    Inr (s\<lparr>out := out s @ to_all s (-1) (change_msg s q1 q2)\<rparr>)"
proof -
  have "fold_r (add_change s) [q1, q2] make_uchange = Inr (change_msg s q1 q2)"
    using assms(2,3) add_change_msg [of "[]" q1 s] add_change_msg [of "opt_entries s [q1]" q2 s]
    by (simp add: make_uchange_eq change_msg_def opt_entries_def)
  then show ?thesis
    by (simp add: broadcast_user_changes_def twalk_users_to_all [OF assms(1)])
qed

end
