(* ===== verification/ServerEffects.thy ===== *)
theory ServerEffects imports ServerTables begin

text \<open>
  What the building blocks of the handlers do to a consistent state. \<open>eff st s s'\<close>
  says: users keep their identity and their challenge id, the state of the user at
  \<open>p\<close> goes from \<open>x\<close> to \<open>st p x\<close>, the challenges stay, and the messages sent are
  well-formed. Effects compose, so that \<open>judge_turn\<close> and the handlers built on it are
  described by adding up the effects of their parts.
\<close>

section \<open>Effects\<close>

definition out_ok :: "int \<times> message_t \<Rightarrow> bool" where
  "out_ok x \<longleftrightarrow> wf_message (snd x) \<and> tail_zero (m_body (snd x))"

definition sends :: "server_t \<Rightarrow> server_t \<Rightarrow> bool" where
  "sends s s' \<longleftrightarrow> (\<exists>ms. out s' = out s @ ms \<and> list_all out_ok ms)"

definition eff :: "(ptr \<Rightarrow> u32 \<Rightarrow> u32) \<Rightarrow> server_t \<Rightarrow> server_t \<Rightarrow> bool" where
  "eff st s s' \<longleftrightarrow> keeps s s' \<and> cheap s' = cheap s \<and> ch_by_id s' = ch_by_id s \<and> brk s' = brk s \<and>
     sends s s' \<and>
     (\<forall>p u u'. uheap s p = Some u \<longrightarrow> uheap s' p = Some u' \<longrightarrow>
        u_state u' = st p (u_state u) \<and> u_chid u' = u_chid u)"

lemma sends_refl [simp]: "sends s s"
  by (simp add: sends_def)

lemma sends_trans: "sends s t \<Longrightarrow> sends t v \<Longrightarrow> sends s v"
  by (auto simp: sends_def)

lemma sends_send_msg: "out_ok (fd, m) \<Longrightarrow> sends s (send_msg fd m s)"
  by (simp add: sends_def)

lemma effD:
  assumes "eff st s s'"
  shows "keeps s s'" and "cheap s' = cheap s" and "ch_by_id s' = ch_by_id s" and "brk s' = brk s"
    and "sends s s'"
  using assms by (simp_all add: eff_def)

lemma eff_user:
  assumes "eff st s s'" and "uheap s p = Some u"
  shows "\<exists>u'. uheap s' p = Some u' \<and> same_identity u u' \<and> u_state u' = st p (u_state u) \<and>
    u_chid u' = u_chid u"
  using assms keeps_heap [OF effD(1) [OF assms(1)] assms(2)] by (auto simp: eff_def)

lemma eff_user_back:
  assumes "eff st s s'" and "uheap s' p = Some u'"
  shows "\<exists>u. uheap s p = Some u \<and> same_identity u u' \<and> u_state u' = st p (u_state u) \<and>
    u_chid u' = u_chid u"
  using assms keeps_heap_back [OF effD(1) [OF assms(1)] assms(2)] by (auto simp: eff_def)

lemma eff_refl: "eff (\<lambda>p x. x) s s"
  by (simp add: eff_def)

lemma eff_trans:
  assumes "eff st s t" and "eff st' t v"
  shows "eff (\<lambda>p x. st' p (st p x)) s v"
  unfolding eff_def
proof (intro conjI allI impI)
  show "keeps s v" using assms by (blast intro: keeps_trans dest: effD)
  show "cheap v = cheap s" "ch_by_id v = ch_by_id s" "brk v = brk s"
    using assms by (simp_all add: eff_def)
  show "sends s v" using assms by (blast intro: sends_trans dest: effD)
  fix p u w
  assume u: "uheap s p = Some u" and w: "uheap v p = Some w"
  obtain u' where "uheap t p = Some u'" "u_state u' = st p (u_state u)" "u_chid u' = u_chid u"
    using eff_user [OF assms(1) u] by blast
  with w eff_user [OF assms(2), of p u']
  show "u_state w = st' p (st p (u_state u))" "u_chid w = u_chid u" by auto
qed

lemma eff_cong: "eff st s s' \<Longrightarrow> (\<And>p x. st' p x = st p x) \<Longrightarrow> eff st' s s'"
  by (simp add: eff_def)

text \<open>A step that leaves heap and tables alone.\<close>

lemma eff_out_only:
  assumes "uheap s' = uheap s" and "cheap s' = cheap s" and "brk s' = brk s"
    and "user_by_id s' = user_by_id s" and "user_by_fd s' = user_by_fd s"
    and "user_by_nick s' = user_by_nick s" and "user_cnt s' = user_cnt s"
    and "ch_by_id s' = ch_by_id s" and "sends s s'"
  shows "eff (\<lambda>p x. x) s s'"
  using assms by (simp add: eff_def keeps_only_heap)

lemma eff_send_msg: "out_ok (fd, m) \<Longrightarrow> eff (\<lambda>p x. x) s (send_msg fd m s)"
  by (rule eff_out_only) (simp_all add: sends_send_msg)

lemma random_num_fields [simp]:
  "uheap (snd (random_num s)) = uheap s" "cheap (snd (random_num s)) = cheap s"
  "brk (snd (random_num s)) = brk s" "user_by_id (snd (random_num s)) = user_by_id s"
  "user_by_fd (snd (random_num s)) = user_by_fd s" "user_by_nick (snd (random_num s)) = user_by_nick s"
  "user_cnt (snd (random_num s)) = user_cnt s" "ch_by_id (snd (random_num s)) = ch_by_id s"
  "out (snd (random_num s)) = out s"
  by (simp_all add: random_num_def)

lemma eff_random: "eff (\<lambda>p x. x) s (snd (random_num s))"
  by (rule eff_out_only) (simp_all add: sends_def)

lemma set_user_fields [simp]:
  "cheap (set_user p u s) = cheap s" "brk (set_user p u s) = brk s"
  "user_by_id (set_user p u s) = user_by_id s" "user_by_fd (set_user p u s) = user_by_fd s"
  "user_by_nick (set_user p u s) = user_by_nick s" "user_cnt (set_user p u s) = user_cnt s"
  "ch_by_id (set_user p u s) = ch_by_id s" "out (set_user p u s) = out s"
  "uheap (set_user p u s) = (uheap s)(p \<mapsto> u)"
  by (simp_all add: set_user_def)

lemma set_ch_fields [simp]:
  "uheap (set_ch p c s) = uheap s" "brk (set_ch p c s) = brk s"
  "user_by_id (set_ch p c s) = user_by_id s" "user_by_fd (set_ch p c s) = user_by_fd s"
  "user_by_nick (set_ch p c s) = user_by_nick s" "user_cnt (set_ch p c s) = user_cnt s"
  "ch_by_id (set_ch p c s) = ch_by_id s" "out (set_ch p c s) = out s"
  "cheap (set_ch p c s) = (cheap s)(p \<mapsto> c)"
  by (simp_all add: set_ch_def)

lemma eff_set_user:
  assumes "uheap s p = Some u" and "same_identity u u'" and "u_chid u' = u_chid u"
    and "u_state u' = st p (u_state u)" and "\<And>q x. q \<noteq> p \<Longrightarrow> st q x = x"
  shows "eff st s (set_user p u' s)"
  using assms keeps_set_user [OF assms(1,2)] by (auto simp: eff_def sends_def)

text \<open>The messages of a broadcast.\<close>

lemma out_ok_change_msg: "out_ok (fd, change_msg s q1 q2)"
proof -
  let ?es = "opt_entries s [q1, q2]"
  have "length ?es \<le> 16" unfolding opt_entries_def by (auto intro: order_trans [OF length_filter_le])
  moreover have "list_all entry_wf ?es"
    by (auto simp: opt_entries_def list_all_iff entry_of_def Let_def)
  ultimately show ?thesis
    by (simp add: out_ok_def change_msg_def wf_uchange_msg tail_zero_uchange_msg)
qed

lemma out_ok_to_all: "(\<And>fd. out_ok (fd, m)) \<Longrightarrow> list_all out_ok (to_all s x m)"
  by (simp add: to_all_def list_all_iff)

lemma broadcast_eff:
  assumes "users_ok s" and "\<And>p. q1 = Some p \<Longrightarrow> p \<in> dom (uheap s)"
    and "\<And>p. q2 = Some p \<Longrightarrow> p \<in> dom (uheap s)"
  obtains s' where "broadcast_user_changes q1 q2 s = Inr s'" and "eff (\<lambda>p x. x) s s'"
proof
  show "broadcast_user_changes q1 q2 s = Inr (s\<lparr>out := out s @ to_all s (-1) (change_msg s q1 q2)\<rparr>)"
    using assms by (rule broadcast_eq)
  show "eff (\<lambda>p x. x) s (s\<lparr>out := out s @ to_all s (-1) (change_msg s q1 q2)\<rparr>)"
    by (rule eff_out_only) (simp_all add: sends_def out_ok_to_all out_ok_change_msg)
qed

section \<open>The end of a battle\<close>

lemma add_score_eff:
  assumes "p \<in> dom (uheap s)"
  obtains s' where "add_score p d s = Inr s'" and "eff (\<lambda>q x. x) s s'"
proof -
  from assms obtain u where u: "uheap s p = Some u" by auto
  show ?thesis
  proof (rule that)
    show "add_score p d s = Inr (set_user p (u\<lparr>u_score := u_score u + d\<rparr>) s)"
      using u by (simp add: add_score_def)
    show "eff (\<lambda>q x. x) s (set_user p (u\<lparr>u_score := u_score u + d\<rparr>) s)"
      using u by (rule eff_set_user) (simp_all add: same_identity_def)
  qed
qed

definition back_online :: "ptr set \<Rightarrow> ptr \<Rightarrow> u32 \<Rightarrow> u32" where
  "back_online P p x = (if p \<in> P \<and> x = UBATTLING then UONLINE else x)"

lemma leave_battle_eff:
  assumes "p \<in> dom (uheap s)"
  obtains s' where "leave_battle p s = Inr s'" and "eff (back_online {p}) s s'"
proof -
  from assms obtain u where u: "uheap s p = Some u" by auto
  show ?thesis
  proof (cases "u_state u = UBATTLING")
    case True
    show ?thesis
    proof (rule that)
      show "leave_battle p s = Inr (set_user p (u\<lparr>u_state := UONLINE\<rparr>) s)"
        using u True by (simp add: leave_battle_def)
      show "eff (back_online {p}) s (set_user p (u\<lparr>u_state := UONLINE\<rparr>) s)"
        using u True by (intro eff_set_user) (auto simp: same_identity_def back_online_def)
    qed
  next
    case False
    show ?thesis
    proof (rule that)
      show "leave_battle p s = Inr s" using u False by (simp add: leave_battle_def)
      show "eff (back_online {p}) s s"
        using u False by (auto simp: eff_def back_online_def)
    qed
  qed
qed

lemma eff_dom: "eff st s s' \<Longrightarrow> dom (uheap s') = dom (uheap s)"
proof -
  assume e: "eff st s s'"
  have "(uheap s' p = None) = (uheap s p = None)" for p
    using eff_user [OF e, of p] eff_user_back [OF e, of p]
    by (cases "uheap s p"; cases "uheap s' p") auto
  then show ?thesis by (simp add: dom_def)
qed

lemma users_ok_eff: "users_ok s \<Longrightarrow> eff st s s' \<Longrightarrow> users_ok s'"
  by (rule users_ok_keeps) (auto dest: effD)

lemma find_id_eff: "eff st s s' \<Longrightarrow> find_id i s' = find_id i s"
  by (rule find_id_keeps) (rule effD)

text \<open>
  \<open>judge_finish\<close> never fails on users that are in the tables: both leave the battle
  and the challenge leaves its tree.
\<close>

lemma judge_finish_eff:
  assumes "users_ok s" and "p1 \<in> set (user_by_id s)" and "p2 \<in> set (user_by_id s)"
    and "cheap s pch = Some ch"
  obtains s' where "judge_finish pch p1 p2 w s =
      Inr (s'\<lparr>ch_by_id := fst (tdelete cmp_by_chid (cheap s) ch (ch_by_id s))\<rparr>)"
    and "eff (back_online {p1, p2}) s s'"
proof -
  have live: "p1 \<in> dom (uheap s)" "p2 \<in> dom (uheap s)"
    using users_ok_live [OF assms(1)] assms(2,3) by auto
  obtain r1 s1 r2 s2 where r: "random_num s = (r1, s1)" "random_num s1 = (r2, s2)" by fastforce
  have "eff (\<lambda>p x. x) s s1" "eff (\<lambda>p x. x) s1 s2"
    using eff_random [of s] eff_random [of s1] r by simp_all
  then have e2: "eff (\<lambda>p x. x) s s2" using eff_trans by fastforce
  obtain u1 where u1: "uheap s2 p1 = Some u1" using live eff_dom [OF e2] by auto
  define swap where "swap = (u_id u1 \<noteq> w)"
  define a b where "a = (if swap then p2 else p1)" and "b = (if swap then p1 else p2)"
  have ab: "a \<in> dom (uheap s2)" "b \<in> dom (uheap s2)"
    using live eff_dom [OF e2] by (auto simp: a_def b_def)
  obtain sa where sa: "add_score a (of_nat (r1 mod 4 + 1)) s2 = Inr sa" "eff (\<lambda>q x. x) s2 sa"
    using ab(1) by (rule add_score_eff)
  have "b \<in> dom (uheap sa)" using ab(2) eff_dom [OF sa(2)] by simp
  then obtain s3 where s3: "add_score b (- of_nat (r2 mod 4)) sa = Inr s3" "eff (\<lambda>q x. x) sa s3"
    by (rule add_score_eff)
  have e3: "eff (\<lambda>p x. x) s s3" using eff_trans [OF eff_trans [OF e2 sa(2)] s3(2)] by simp
  have "p1 \<in> dom (uheap s3)" using live eff_dom [OF e3] by simp
  then obtain s4 where s4: "leave_battle p1 s3 = Inr s4" "eff (back_online {p1}) s3 s4"
    by (rule leave_battle_eff)
  have "p2 \<in> dom (uheap s4)" using live eff_dom [OF e3] eff_dom [OF s4(2)] by simp
  then obtain s5 where s5: "leave_battle p2 s4 = Inr s5" "eff (back_online {p2}) s4 s5"
    by (rule leave_battle_eff)
  have e5: "eff (back_online {p1, p2}) s s5"
    by (rule eff_cong [OF eff_trans [OF eff_trans [OF e3 s4(2)] s5(2)]])
       (auto simp: back_online_def)
  have "p1 \<in> dom (uheap s5)" "p2 \<in> dom (uheap s5)" using live eff_dom [OF e5] by simp_all
  then obtain s6 where
    s6: "broadcast_user_changes (Some p1) (Some p2) s5 = Inr s6" "eff (\<lambda>p x. x) s5 s6"
    using broadcast_eff [OF users_ok_eff [OF assms(1) e5], of "Some p1" "Some p2"] by blast
  have e6: "eff (back_online {p1, p2}) s s6" using eff_trans [OF e5 s6(2)] by simp
  have "ch_unlink pch s6 = Inr (s6\<lparr>ch_by_id := fst (tdelete cmp_by_chid (cheap s) ch (ch_by_id s))\<rparr>)"
    using effD(2,3) [OF e6] assms(4) by (simp add: ch_unlink_def)
  then have "judge_finish pch p1 p2 w s =
      Inr (s6\<lparr>ch_by_id := fst (tdelete cmp_by_chid (cheap s) ch (ch_by_id s))\<rparr>)"
    using r u1 sa(1) s3(1) s4(1) s5(1) s6(1)
    by (cases swap) (simp_all add: judge_finish_def swap_def a_def b_def)
  with e6 show ?thesis using that by blast
qed

section \<open>judge_turn\<close>

text \<open>The challenge after the turn, for the random number the turn would draw.\<close>

definition judged :: "nat \<Rightarrow> challenge_t \<Rightarrow> challenge_t" where
  "judged r ch =
     (let ch1 = judge_advance ch
      in (if acted1 ch1 \<and> acted2 ch1 then judge_damage r ch1 else ch1)
           \<lparr>acted1 := False, acted2 := False\<rparr>)"

lemma judged_fields [simp]:
  "ch_id (judged r ch) = ch_id ch" "user1 (judged r ch) = user1 ch" "user2 (judged r ch) = user2 ch"
  "maxhp1 (judged r ch) = maxhp1 ch" "maxhp2 (judged r ch) = maxhp2 ch"
  "ch_state (judged r ch) = ch_state ch" "\<not> acted1 (judged r ch)" "\<not> acted2 (judged r ch)"
  by (simp_all add: judged_def judge_advance_def judge_damage_def Let_def split: prod.split)

definition judge_draws :: "challenge_t \<Rightarrow> bool" where
  "judge_draws ch \<longleftrightarrow> acted1 (judge_advance ch) \<and> acted2 (judge_advance ch)"

text \<open>The state in which \<open>judge_turn\<close> looks at the result.\<close>

definition judge_mid :: "ptr \<Rightarrow> int \<Rightarrow> challenge_t \<Rightarrow> ptr \<Rightarrow> ptr \<Rightarrow> server_t \<Rightarrow> server_t" where
  "judge_mid pch f ch p1 p2 s =
     (let ch3 = judged (unat (rnd s (rpos s))) ch; msg = turn_r_msg ch3 (judge_winner f ch3)
      in send_msg (fd_of s p2) msg (send_msg (fd_of s p1) msg
           (set_ch pch ch3 (if judge_draws ch then snd (random_num s) else s))))"

lemma judge_turn_eq:
  assumes "cheap s pch = Some ch" and "find_id (user1 ch) s = Some p1"
    and "find_id (user2 ch) s = Some p2"
  shows "judge_turn pch f s =
    (case judge_winner f (judged (unat (rnd s (rpos s))) ch) of
       None \<Rightarrow> Inr (judge_mid pch f ch p1 p2 s)
     | Some w \<Rightarrow> judge_finish pch p1 p2 w (judge_mid pch f ch p1 p2 s))"
proof -
  obtain u1 u2 where u: "uheap s p1 = Some u1" "uheap s p2 = Some u2"
    using assms(2,3) by (auto elim!: find_id_SomeE)
  have f: "find_id i (set_ch q c (snd (random_num s))) = find_id i s"
    "find_id i (set_ch q c s) = find_id i s" for i q c
    by (rule find_id_cong, simp_all)+
  show ?thesis
    using assms(1) u assms(2,3) f judged_fields(2,3) [of "unat (rnd s (rpos s))" ch]
    by (cases "judge_draws ch")
       (simp_all add: judge_turn_def judge_mid_def judged_def Let_def fd_of_def random_num_def
          flip: judge_draws_def del: judged_fields split: option.split)
qed

lemma judge_turn_null:
  assumes "cheap s pch = Some ch"
    and "find_id (user1 ch) s = None \<or> find_id (user2 ch) s = None"
  shows "judge_turn pch f s = Inl NullDeref"
proof -
  have f: "find_id i (set_ch q c (snd (random_num s))) = find_id i s"
    "find_id i (set_ch q c s) = find_id i s" for i q c
    by (rule find_id_cong, simp_all)+
  show ?thesis
    using assms f judged_fields(2,3) [of "unat (rnd s (rpos s))" ch]
    by (auto simp: judge_turn_def judged_def Let_def random_num_def simp del: judged_fields
        split: prod.splits option.splits)
qed

end
