(* ===== verification/ServerInv.thy ===== *)
theory ServerInv imports ServerEffects begin

text \<open>
  The invariant of the server and its preservation by every handler: the three user
  trees hold the same users in order, no two users share an id, a descriptor or a
  nickname, the count is right and at most 1024, every user is online or in a
  battle, every challenge in the tree is between two users and has hit points
  between 1 and 10, and every message passed to \<open>msg_send\<close> is well-formed.
\<close>

section \<open>The invariant\<close>

definition states_ok :: "server_t \<Rightarrow> bool" where
  "states_ok s \<longleftrightarrow> (\<forall>p u. p \<in> set (user_by_id s) \<longrightarrow> uheap s p = Some u \<longrightarrow>
     u_state u = UONLINE \<or> u_state u = UBATTLING)"

definition ch_wf :: "challenge_t \<Rightarrow> bool" where
  "ch_wf c \<longleftrightarrow> ch_id c \<noteq> 0 \<and> user1 c \<noteq> user2 c \<and> maxhp1 c = MAXHP \<and> maxhp2 c = MAXHP \<and>
     sint (hp1 c) \<in> {1..10} \<and> sint (hp2 c) \<in> {1..10}"

definition ch_vals_ok :: "server_t \<Rightarrow> bool" where
  "ch_vals_ok s \<longleftrightarrow> (\<forall>p c. p \<in> set (ch_by_id s) \<longrightarrow> cheap s p = Some c \<longrightarrow> ch_wf c)"

definition outs_ok :: "server_t \<Rightarrow> bool" where
  "outs_ok s \<longleftrightarrow> list_all out_ok (out s)"

definition server_inv :: "server_t \<Rightarrow> bool" where
  "server_inv s \<longleftrightarrow> users_ok s \<and> chs_ok s \<and> states_ok s \<and> ch_vals_ok s \<and> outs_ok s"

lemma server_invD:
  assumes "server_inv s"
  shows "users_ok s" and "chs_ok s" and "states_ok s" and "ch_vals_ok s" and "outs_ok s"
  using assms by (simp_all add: server_inv_def)

lemma outs_ok_sends: "outs_ok s \<Longrightarrow> sends s s' \<Longrightarrow> outs_ok s'"
  by (auto simp: outs_ok_def sends_def)

text \<open>
  What an effect does to the invariant: everything but the states of the users
  carries over.
\<close>

lemma chs_ok_eff: "chs_ok s \<Longrightarrow> eff st s s' \<Longrightarrow> chs_ok s'"
  by (simp add: chs_ok_def eff_def)

lemma ch_vals_ok_eff: "ch_vals_ok s \<Longrightarrow> eff st s s' \<Longrightarrow> ch_vals_ok s'"
  by (simp add: ch_vals_ok_def eff_def)

lemma outs_ok_eff: "outs_ok s \<Longrightarrow> eff st s s' \<Longrightarrow> outs_ok s'"
  by (blast intro: outs_ok_sends dest: effD)

lemma eff_by_id: "eff st s s' \<Longrightarrow> user_by_id s' = user_by_id s"
  by (simp add: eff_def keeps_def)

lemma states_ok_eff:
  assumes "states_ok s" and "eff st s s'"
    and "\<And>p x. p \<in> set (user_by_id s) \<Longrightarrow> x = UONLINE \<or> x = UBATTLING \<Longrightarrow>
      st p x = UONLINE \<or> st p x = UBATTLING"
  shows "states_ok s'"
  unfolding states_ok_def
proof (intro allI impI)
  fix p u' assume p: "p \<in> set (user_by_id s')" and u': "uheap s' p = Some u'"
  obtain u where "uheap s p = Some u" "u_state u' = st p (u_state u)"
    using eff_user_back [OF assms(2) u'] by blast
  with p assms(1) assms(3) [of p "u_state u"] eff_by_id [OF assms(2)]
  show "u_state u' = UONLINE \<or> u_state u' = UBATTLING" by (simp add: states_ok_def)
qed

lemma server_inv_eff:
  assumes "server_inv s" and "eff st s s'"
    and "\<And>p x. p \<in> set (user_by_id s) \<Longrightarrow> x = UONLINE \<or> x = UBATTLING \<Longrightarrow>
      st p x = UONLINE \<or> st p x = UBATTLING"
  shows "server_inv s'"
  using server_invD [OF assms(1)] states_ok_eff [OF _ assms(2,3)] users_ok_eff chs_ok_eff
    ch_vals_ok_eff outs_ok_eff assms(2)
  unfolding server_inv_def by blast

lemma server_inv_same: "server_inv s \<Longrightarrow> eff (\<lambda>p x. x) s s' \<Longrightarrow> server_inv s'"
  by (rule server_inv_eff)

lemma server_inv_send_msg: "server_inv s \<Longrightarrow> out_ok (fd, m) \<Longrightarrow> server_inv (send_msg fd m s)"
  by (rule server_inv_same [OF _ eff_send_msg])

section \<open>Writing a challenge\<close>

lemma chs_ok_set_ch:
  assumes "chs_ok s" and "cheap s p = Some c" and "ch_id c' = ch_id c"
  shows "chs_ok (set_ch p c' s)"
proof -
  have "tree_ok cmp_by_chid ((cheap s)(p \<mapsto> c')) (ch_by_id s)"
  proof (rule tree_ok_cong [OF chs_okD(1) [OF assms(1)]])
    fix q assume "q \<in> set (ch_by_id s)"
    then obtain d where "cheap s q = Some d"
      using tree_ok_live [OF chs_okD(1) [OF assms(1)]] by blast
    with assms(2,3) show "\<exists>a b. cheap s q = Some a \<and> ((cheap s)(p \<mapsto> c')) q = Some b \<and>
        (\<forall>x. cmp_by_chid b x = cmp_by_chid a x) \<and> (\<forall>x. cmp_by_chid x b = cmp_by_chid x a)"
      by (auto simp: cmp_by_chid_def)
  qed
  then show ?thesis using assms by (auto simp: chs_ok_def)
qed

lemma users_ok_set_ch [simp]: "users_ok (set_ch p c s) = users_ok s"
  by (simp add: users_ok_def)

lemma states_ok_set_ch [simp]: "states_ok (set_ch p c s) = states_ok s"
  by (simp add: states_ok_def)

lemma outs_ok_set_ch [simp]: "outs_ok (set_ch p c s) = outs_ok s"
  by (simp add: outs_ok_def)

lemma server_inv_set_ch:
  assumes "server_inv s" and "cheap s p = Some c" and "ch_id c' = ch_id c"
    and "p \<in> set (ch_by_id s) \<Longrightarrow> ch_wf c'"
  shows "server_inv (set_ch p c' s)"
  using assms chs_ok_set_ch [OF _ assms(2,3)] server_invD [OF assms(1)]
  by (auto simp: server_inv_def ch_vals_ok_def)

lemma ch_by_id_distinct: "chs_ok s \<Longrightarrow> distinct (ch_by_id s)"
  by (rule by_chid.tree_ok_distinct) (rule chs_okD)

lemma ch_unlink_eq:
  assumes "chs_ok s" and "p \<in> set (ch_by_id s)" and "cheap s p = Some c" and "ch_id k = ch_id c"
  shows "fst (tdelete cmp_by_chid (cheap s) k (ch_by_id s)) = remove1 p (ch_by_id s)"
  using by_chid.tdelete_eq [OF chs_okD(1) [OF assms(1)] assms(2,3), of k] assms(4) by simp

lemma tree_ok_remove1: "tree_ok cmp h t \<Longrightarrow> tree_ok cmp h (remove1 p t)"
  by (induction t) (auto simp: tree_ok_Cons dest: set_mp [OF set_remove1_subset])

lemma set_remove1_ch: "chs_ok s \<Longrightarrow> set (remove1 p (ch_by_id s)) = set (ch_by_id s) - {p}"
  by (simp add: set_remove1_eq ch_by_id_distinct)

lemma chs_ok_remove: "chs_ok s \<Longrightarrow> chs_ok (s\<lparr>ch_by_id := remove1 p (ch_by_id s)\<rparr>)"
  by (simp add: chs_ok_def tree_ok_remove1)

text \<open>Fields of the state that the user part of the invariant does not read.\<close>

lemma users_ok_ch_by_id [simp]: "users_ok (s\<lparr>ch_by_id := t\<rparr>) = users_ok s"
  by (simp add: users_ok_def)

lemma states_ok_ch_by_id [simp]: "states_ok (s\<lparr>ch_by_id := t\<rparr>) = states_ok s"
  by (simp add: states_ok_def)

lemma outs_ok_ch_by_id [simp]: "outs_ok (s\<lparr>ch_by_id := t\<rparr>) = outs_ok s"
  by (simp add: outs_ok_def)

section \<open>Hit points\<close>

lemma sint_small: "-100 \<le> n \<Longrightarrow> n \<le> 100 \<Longrightarrow> sint (word_of_int n :: u32) = n"
  by (simp add: sint_sbintrunc' signed_take_bit_int_eq_self)

lemma sint_diff_small:
  assumes "sint (h :: u32) \<in> {1..10}" and "d \<le> 5"
  shows "sint (h - of_nat d) = sint h - int d"
proof -
  have "h - of_nat d = word_of_int (sint h - int d)" by simp
  then show ?thesis using assms sint_small [of "sint h - int d"] by simp
qed

lemma judge_damage_hp:
  assumes "sint (hp1 c) \<in> {1..10}" and "sint (hp2 c) \<in> {1..10}"
  shows "sint (hp1 (judge_damage r c)) \<in> {-4..10}" and "sint (hp2 (judge_damage r c)) \<in> {-4..10}"
proof -
  have d: "r mod 5 + 1 \<le> 5" using mod_less_divisor [of 5 r] by linarith
  show "sint (hp1 (judge_damage r c)) \<in> {-4..10}" "sint (hp2 (judge_damage r c)) \<in> {-4..10}"
    using sint_diff_small [OF assms(1) d] sint_diff_small [OF assms(2) d] assms d
    by (auto simp: judge_damage_def Let_def split: turn_result_t.split)
qed

lemma judged_hp:
  assumes "sint (hp1 c) \<in> {1..10}" and "sint (hp2 c) \<in> {1..10}"
  shows "sint (hp1 (judged r c)) \<in> {-4..10} \<and> sint (hp2 (judged r c)) \<in> {-4..10}"
proof -
  have *: "hp1 (judge_advance c) = hp1 c" "hp2 (judge_advance c) = hp2 c"
    by (simp_all add: judge_advance_def)
  show ?thesis
    using judge_damage_hp [of "judge_advance c" r] assms * by (auto simp: judged_def Let_def)
qed

text \<open>A battle that goes on has both sides alive.\<close>

lemma ch_wf_judged: "ch_wf c \<Longrightarrow> judge_winner f (judged r c) = None \<Longrightarrow> ch_wf (judged r c)"
  using judged_hp [of c r]
  by (auto simp: ch_wf_def judge_winner_def split: if_splits)

section \<open>judge_turn\<close>

lemma out_ok_simple:
  "kind_of_body b \<in> {QUIT, CHALLENGE, CHALLENGE_R, TURN, TURN_R} \<Longrightarrow>
   out_ok (fd, (init_msg_buf (kind_of_body b))\<lparr>m_body := b\<rparr>)"
  using wf_simple_body [of b] by (auto simp: out_ok_def intro!: tail_zero_other)

lemma out_ok_turn_r: "out_ok (fd, turn_r_msg ch w)"
  using out_ok_simple [of "m_body (turn_r_msg ch w)" fd]
  by (simp add: turn_r_msg_def kind_of_body_def)

lemma out_ok_challenge_r: "out_ok (fd, challenge_r_msg c err b)"
  using out_ok_simple [of "m_body (challenge_r_msg c err b)" fd]
  by (simp add: challenge_r_msg_def init_challenge_r_def kind_of_body_def)

lemma out_ok_relay: "out_ok (fd, relay_msg c i)"
  using out_ok_simple [of "m_body (relay_msg c i)" fd]
  by (simp add: relay_msg_def make_challenge_def make_msg_buf_def kind_of_body_def)

lemma out_ok_join_r: "out_ok (fd, make_join_r nick err i key)"
  using wf_make_join_r [of nick err i key]
  by (simp add: out_ok_def make_join_r_def tail_zero_def)

text \<open>
  With both users in the tables \<open>judge_turn\<close> succeeds. \<open>t\<close> is the state before the
  challenge is taken out of its tree, if it is.
\<close>

lemma judge_turn_eff:
  fixes f :: int
  assumes "users_ok s" and "chs_ok s" and "pch \<in> set (ch_by_id s)" and "cheap s pch = Some ch"
    and "find_id (user1 ch) s = Some p1" and "find_id (user2 ch) s = Some p2"
  defines "ch' \<equiv> judged (unat (rnd s (rpos s))) ch"
  defines "w \<equiv> judge_winner f ch'"
  obtains t where
    "judge_turn pch f s =
       Inr (if w = None then t else t\<lparr>ch_by_id := remove1 pch (ch_by_id s)\<rparr>)"
    and "eff (if w = None then (\<lambda>p x. x) else back_online {p1, p2}) (set_ch pch ch' s) t"
proof -
  let ?mid = "judge_mid pch f ch p1 p2 s"
  have e1: "eff (\<lambda>p x. x) (set_ch pch ch' s) ?mid"
    by (rule eff_out_only)
       (simp_all add: judge_mid_def Let_def ch'_def sends_def out_ok_turn_r)
  show ?thesis
  proof (cases w)
    case None
    with e1 show ?thesis
      using judge_turn_eq [OF assms(4-6), of f] that [of ?mid]
      by (simp add: w_def ch'_def)
  next
    case (Some i)
    have u: "users_ok ?mid" using users_ok_eff [OF _ e1] assms(1) by simp
    have c: "chs_ok (set_ch pch ch' s)"
      using chs_ok_set_ch [OF assms(2,4)] by (simp add: ch'_def)
    have ch: "cheap ?mid pch = Some ch'" "ch_by_id ?mid = ch_by_id s" "user_by_id ?mid = user_by_id s"
      using effD(2,3) [OF e1] eff_by_id [OF e1] by simp_all
    obtain t where t: "judge_finish pch p1 p2 i ?mid =
        Inr (t\<lparr>ch_by_id := fst (tdelete cmp_by_chid (cheap ?mid) ch' (ch_by_id ?mid))\<rparr>)"
      and e2: "eff (back_online {p1, p2}) ?mid t"
      using judge_finish_eff [OF u _ _ ch(1), of p1 p2 i] assms(5,6) ch(3)
      by (auto elim!: find_id_SomeE)
    have "chs_ok ?mid" using chs_ok_eff [OF c e1] .
    then have "fst (tdelete cmp_by_chid (cheap ?mid) ch' (ch_by_id ?mid)) = remove1 pch (ch_by_id s)"
      using ch_unlink_eq [of ?mid pch ch' ch'] ch assms(3) by simp
    moreover have "eff (back_online {p1, p2}) (set_ch pch ch' s) t"
      using eff_trans [OF e1 e2] by simp
    ultimately show ?thesis
      using that [of t] judge_turn_eq [OF assms(4-6), of f] t Some
      by (simp add: w_def ch'_def)
  qed
qed

text \<open>Both users are told the result of the turn, before anything else is sent.\<close>

lemma judge_turn_out:
  fixes f :: int
  assumes "users_ok s" and "cheap s pch = Some ch"
    and "find_id (user1 ch) s = Some p1" and "find_id (user2 ch) s = Some p2"
    and "judge_turn pch f s = Inr s'"
  defines "ch' \<equiv> judged (unat (rnd s (rpos s))) ch"
  defines "w \<equiv> judge_winner f ch'"
  obtains ms where "out s' = out s @ [(fd_of s p1, turn_r_msg ch' w), (fd_of s p2, turn_r_msg ch' w)] @ ms"
    and "w = None \<Longrightarrow> ms = []" and "cheap s' pch = Some ch'"
proof -
  let ?mid = "judge_mid pch f ch p1 p2 s"
  let ?m = "turn_r_msg ch' w"
  have mid: "out ?mid = out s @ [(fd_of s p1, ?m), (fd_of s p2, ?m)]" "cheap ?mid pch = Some ch'"
    "user_by_id ?mid = user_by_id s"
    by (simp_all add: judge_mid_def Let_def ch'_def w_def)
  have e1: "eff (\<lambda>p x. x) (set_ch pch ch' s) ?mid"
    by (rule eff_out_only)
       (simp_all add: judge_mid_def Let_def ch'_def sends_def out_ok_turn_r)
  show ?thesis
  proof (cases w)
    case None
    with judge_turn_eq [OF assms(2-4), of f] assms(5) have "s' = ?mid" by (simp add: w_def ch'_def)
    with mid that [of "[]"] show ?thesis by simp
  next
    case (Some i)
    with judge_turn_eq [OF assms(2-4), of f] assms(5)
    have j: "judge_finish pch p1 p2 i ?mid = Inr s'" by (simp add: w_def ch'_def)
    have "users_ok ?mid" using users_ok_eff [OF _ e1] assms(1) by simp
    then obtain t where t: "judge_finish pch p1 p2 i ?mid =
        Inr (t\<lparr>ch_by_id := fst (tdelete cmp_by_chid (cheap ?mid) ch' (ch_by_id ?mid))\<rparr>)"
      and e2: "eff (back_online {p1, p2}) ?mid t"
      using judge_finish_eff [of ?mid p1 p2 pch ch' i] assms(3,4) mid(2,3)
      by (auto elim!: find_id_SomeE)
    obtain ms where "out t = out ?mid @ ms" using effD(5) [OF e2] by (auto simp: sends_def)
    with j t mid effD(2) [OF e2] Some that [of ms] show ?thesis by auto
  qed
qed

lemma judge_turn_inv:
  assumes "server_inv s" and "pch \<in> set (ch_by_id s)" and "judge_turn pch f s = Inr s'"
  shows "server_inv s'"
proof -
  note inv = server_invD [OF assms(1)]
  obtain ch where ch: "cheap s pch = Some ch"
    using tree_ok_live [OF chs_okD(1) [OF inv(2)] assms(2)] by blast
  have wf: "ch_wf ch" using inv(4) assms(2) ch by (simp add: ch_vals_ok_def)
  obtain p1 p2 where p: "find_id (user1 ch) s = Some p1" "find_id (user2 ch) s = Some p2"
    using judge_turn_null [OF ch, of f] assms(3)
    by (cases "find_id (user1 ch) s"; cases "find_id (user2 ch) s") auto
  let ?ch = "judged (unat (rnd s (rpos s))) ch"
  let ?w = "judge_winner f ?ch"
  obtain t where t: "s' = (if ?w = None then t else t\<lparr>ch_by_id := remove1 pch (ch_by_id s)\<rparr>)"
    and e: "eff (if ?w = None then (\<lambda>p x. x) else back_online {p1, p2}) (set_ch pch ?ch s) t"
    using judge_turn_eff [OF inv(1,2) assms(2) ch p, of f] assms(3) by auto
  have c: "chs_ok (set_ch pch ?ch s)" using chs_ok_set_ch [OF inv(2) ch] by simp
  have tch: "cheap t = (cheap s)(pch \<mapsto> ?ch)" "ch_by_id t = ch_by_id s"
    using effD(2,3) [OF e] by simp_all
  have "states_ok t"
    using states_ok_eff [OF _ e] inv(3) by (auto simp: back_online_def split: if_splits)
  moreover have "users_ok t" "chs_ok t" "outs_ok t"
    using users_ok_eff [OF _ e] chs_ok_eff [OF c e] outs_ok_eff [OF _ e] inv by simp_all
  moreover have "ch_vals_ok s'"
  proof (cases ?w)
    case None
    with inv(4) wf ch_wf_judged [OF wf None] tch t show ?thesis by (auto simp: ch_vals_ok_def)
  next
    case (Some i)
    with inv(4) tch t set_remove1_ch [OF inv(2), of pch] show ?thesis
      by (auto simp: ch_vals_ok_def)
  qed
  ultimately show ?thesis
    using t chs_ok_remove [OF \<open>chs_ok t\<close>, of pch] tch
    by (auto simp: server_inv_def)
qed

end
