(* ===== verification/ServerJoin.thy ===== *)
theory ServerJoin imports ServerInv begin

text \<open>
  Joining and leaving: \<open>user_add\<close>, \<open>handle_join\<close>, \<open>user_del_and_destroy\<close>, \<open>quit_user\<close>
  and the handlers that call it keep the invariant; and what they do exactly.
\<close>

section \<open>Creating a user\<close>

lemma user_create_eq:
  assumes "user_create nick s = (p, u, s1)"
  shows "p = brk s" and "uheap s1 = (uheap s)(p \<mapsto> u)" and "brk s1 = Suc (brk s)"
    and "cheap s1 = cheap s" and "ch_by_id s1 = ch_by_id s" and "out s1 = out s"
    and "user_by_id s1 = user_by_id s" and "user_by_fd s1 = user_by_fd s"
    and "user_by_nick s1 = user_by_nick s" and "user_cnt s1 = user_cnt s"
    and "u_id u = 0" and "u_state u = UONLINE" and "u_score u = 0" and "u_chid u = 0"
    and "u_fd u = junk_fd s p" and "u_nickname u = take 31 (cstr nick)"
  using assms
  by (auto simp: user_create_def random_key_def random_num_def Let_def snprintf_s_cstr
      NICKNAME_LEN_def)

lemma brk_fresh: "users_ok s \<Longrightarrow> brk s \<notin> dom (uheap s)"
  by (auto dest: users_okD(9))

lemma brk_not_in_trees:
  "users_ok s \<Longrightarrow> brk s \<notin> set (user_by_id s) \<and> brk s \<notin> set (user_by_fd s) \<and>
    brk s \<notin> set (user_by_nick s)"
  using brk_fresh [of s] users_okD(4,5) [of s] users_ok_live [of s "brk s"] by auto

text \<open>A user object that is in no tree yet.\<close>

lemma users_ok_heap_fresh:
  assumes "users_ok s" and "p \<notin> set (user_by_id s)" and "uheap s' = (uheap s)(p := x)"
    and "user_by_id s' = user_by_id s" and "user_by_fd s' = user_by_fd s"
    and "user_by_nick s' = user_by_nick s" and "user_cnt s' = user_cnt s"
    and "brk s \<le> brk s'" and "p < brk s'"
  shows "users_ok s'"
proof -
  note t = users_okD [OF assms(1)]
  have "q < brk s'" if "q \<in> dom (uheap s')" for q
  proof (cases "q = p")
    case False
    with that assms(3) have "q \<in> dom (uheap s)" by (cases x) simp_all
    then obtain u where "uheap s q = Some u" by blast
    with t(9) assms(8) show ?thesis using order_less_le_trans by blast
  qed (use assms(9) in simp)
  moreover have "tree_ok cmp_by_id ((uheap s)(p := x)) (user_by_id s)"
    "tree_ok cmp_by_fd ((uheap s)(p := x)) (user_by_fd s)"
    "tree_ok cmp_by_nick ((uheap s)(p := x)) (user_by_nick s)"
    using assms(2) t(4,5) by (auto intro: tree_ok_unused t(1,2,3))
  moreover have "user_wf u" if "q \<in> set (user_by_id s)" "uheap s' q = Some u" for q u
    using that t(8) [of q u] assms(2,3) by (cases "q = p") auto
  ultimately show ?thesis using assms t by (simp add: users_ok_def)
qed

lemma user_create_users_ok:
  assumes "users_ok s" and "user_create nick s = (p, u, s1)"
  shows "users_ok s1"
  using user_create_eq [OF assms(2)] brk_not_in_trees [OF assms(1)]
  by (intro users_ok_heap_fresh [OF assms(1), of p s1 "Some u"]) auto

section \<open>Registering a user\<close>

lemma user_register_eq:
  assumes "users_ok s" and "uheap s p = Some u" and "p \<notin> set (user_by_id s)"
    and "user_wf (u\<lparr>u_fd := fd\<rparr>)" and "user_cnt s < MAX_USER_COUNT"
    and "user_register p u uid fd s = Inr (r, err, s')"
  shows "r = Some p \<and> err = ME_OK \<and> users_ok s' \<and>
    set (user_by_id s') = insert p (set (user_by_id s)) \<and>
    uheap s' = (uheap s)(p \<mapsto> u\<lparr>u_id := uid, u_fd := fd\<rparr>) \<and> cheap s' = cheap s \<and>
    ch_by_id s' = ch_by_id s \<and> out s' = out s \<and> brk s' = brk s"
proof -
  let ?u = "u\<lparr>u_id := uid, u_fd := fd\<rparr>" and ?h = "(uheap s)(p \<mapsto> u\<lparr>u_id := uid, u_fd := fd\<rparr>)"
  have pfd: "p \<notin> set (user_by_fd s)" and pnick: "p \<notin> set (user_by_nick s)"
    using assms(3) users_okD(4,5) [OF assms(1)] by simp_all
  obtain t1 t2 t3 where
    t1: "tsearch cmp_by_id ?h p ?u (user_by_id s) = (t1, p)" and
    t2: "tsearch cmp_by_fd ?h p ?u (user_by_fd s) = (t2, p)" and
    t3: "tsearch cmp_by_nick ?h p ?u (user_by_nick s) = (t3, p)" and
    res: "r = Some p" "err = ME_OK" "s' = (set_user p ?u s)\<lparr>user_by_id := t1, user_by_fd := t2,
      user_by_nick := t3, user_cnt := user_cnt s + 1\<rparr>"
    using assms(6) by (auto simp: user_register_def Let_def split: prod.splits if_splits)
  have i: "tree_ok cmp_by_id ?h t1 \<and> set t1 = insert p (set (user_by_id s)) \<and>
      length t1 = Suc (length (user_by_id s))"
    using by_id.tsearch_own [OF tree_ok_unused _ assms(3) t1] users_okD(1) [OF assms(1)] assms(3)
    by simp
  have f: "tree_ok cmp_by_fd ?h t2 \<and> set t2 = insert p (set (user_by_fd s))"
    using by_fd.tsearch_own [OF tree_ok_unused _ pfd t2] users_okD(2) [OF assms(1)] pfd by simp
  have n: "tree_ok cmp_by_nick ?h t3 \<and> set t3 = insert p (set (user_by_nick s))"
    using by_nick.tsearch_own [OF tree_ok_unused _ pnick t3] users_okD(3) [OF assms(1)] pnick by simp
  have wf: "user_wf ?u" using assms(4) by (simp add: user_wf_def)
  have "users_ok s'"
    using i f n wf res assms(2,5) users_okD [OF assms(1)]
    by (auto simp: users_ok_def split: if_splits)
  with i res show ?thesis by simp
qed

text \<open>
  The 16 attempts: the test does not depend on the attempt, so either the first one
  goes through or all fail.
\<close>

lemma user_add_loop_blocked:
  assumes "tfind cmp_by_id (uheap s) u (user_by_id s) \<noteq> None"
  shows "user_add_loop n uid p u fd s = Inr (None, ME_OTHER, s\<lparr>rpos := rpos s + n\<rparr>)"
  using assms
proof (induction n arbitrary: s uid)
  case 0
  then show ?case by simp
next
  case (Suc n)
  then show ?case by (simp add: random_num_def)
qed

lemma user_add_loop_cases:
  assumes "users_ok s" and "uheap s p = Some u" and "p \<notin> set (user_by_id s)"
    and "user_wf (u\<lparr>u_fd := fd\<rparr>)" and "user_cnt s < MAX_USER_COUNT"
    and "user_add_loop (Suc n) uid p u fd s = Inr (r, err, s')"
  shows "users_ok s' \<and> cheap s' = cheap s \<and> ch_by_id s' = ch_by_id s \<and> out s' = out s \<and>
    brk s' = brk s \<and>
    (r = None \<and> err = ME_OTHER \<and> set (user_by_id s') = set (user_by_id s) \<and> uheap s' = uheap s \<or>
     r = Some p \<and> err = ME_OK \<and> set (user_by_id s') = insert p (set (user_by_id s)) \<and>
     uheap s' = (uheap s)(p \<mapsto> u\<lparr>u_id := uid, u_fd := fd\<rparr>))"
proof (cases "tfind cmp_by_id (uheap s) u (user_by_id s) = None")
  case True
  with assms(6) have "user_register p u uid fd s = Inr (r, err, s')" by simp
  from user_register_eq [OF assms(1-5) this] show ?thesis by blast
next
  case False
  have "users_ok (s\<lparr>rpos := x\<rparr>)" for x using assms(1) by (simp add: users_ok_def)
  with user_add_loop_blocked [OF False, of "Suc n" uid p fd] assms(6) show ?thesis by auto
qed

definition join_id :: "int \<Rightarrow> u16" where
  "join_id fd = word_of_int (c_rem fd (int UINT16_MAX))"

text \<open>
  \<open>user_add\<close>: on an error the tables are as before; on success there is one more user,
  with the descriptor and the nickname given.
\<close>

lemma user_add_cases:
  assumes "users_ok s" and "0 \<le> fd" and "user_add fd nick s = Inr (r, err, s')"
  shows "users_ok s' \<and> cheap s' = cheap s \<and> ch_by_id s' = ch_by_id s \<and> out s' = out s \<and>
    brk s' = Suc (brk s) \<and> (\<forall>q. q \<noteq> brk s \<longrightarrow> uheap s' q = uheap s q) \<and>
    (r = None \<and> err \<noteq> ME_OK \<and> set (user_by_id s') = set (user_by_id s) \<or>
     r = Some (brk s) \<and> err = ME_OK \<and> set (user_by_id s') = insert (brk s) (set (user_by_id s)) \<and>
     (\<exists>u. uheap s' (brk s) = Some u \<and> u_state u = UONLINE \<and> u_fd u = fd \<and> u_chid u = 0 \<and>
          u_id u = join_id fd \<and> u_nickname u = take 31 (cstr nick)))"
proof -
  obtain p u s1 where c: "user_create nick s = (p, u, s1)" by (metis prod_cases3)
  note e = user_create_eq [OF c]
  have s1: "users_ok s1" by (rule user_create_users_ok [OF assms(1) c])
  have p: "p \<notin> set (user_by_id s1)" using brk_not_in_trees [OF assms(1)] e(1,7) by simp
  have u: "uheap s1 p = Some u" using e(2) by simp
  show ?thesis
  proof (cases "user_cnt s1 \<ge> MAX_USER_COUNT \<or> tfind cmp_by_fd (uheap s1) u (user_by_fd s1) \<noteq> None
      \<or> tfind cmp_by_nick (uheap s1) u (user_by_nick s1) \<noteq> None")
    case True
    then have "r = None \<and> err \<noteq> ME_OK \<and> s' = user_destroy p s1"
      using assms(3) c by (auto simp: user_add_def split: if_splits)
    moreover have "users_ok (user_destroy p s1)"
      using p e by (intro users_ok_heap_fresh [OF s1, of p _ None]) (auto simp: user_destroy_def)
    ultimately show ?thesis using e by (auto simp: user_destroy_def)
  next
    case False
    then have l: "user_add_loop 16 (join_id fd) p u fd s1 = Inr (r, err, s')"
      using assms(3) c by (auto simp: user_add_def join_id_def split: if_splits)
    have n16: "Suc 15 = (16::nat)" by simp
    have "0 \<notin> set (take 31 (cstr nick))" by (rule notin_take) simp
    moreover have "length (take 31 (cstr nick)) < 32" by (simp add: min_def)
    ultimately have wf: "user_wf (u\<lparr>u_fd := fd\<rparr>)"
      using e(16) assms(2) by (simp add: user_wf_def NICKNAME_LEN_def)
    have cnt: "user_cnt s1 < MAX_USER_COUNT" using False by simp
    note f = user_add_loop_cases [OF s1 u p wf cnt, of 15 "join_id fd" r err s', unfolded n16, OF l]
    have h: "uheap s' q = uheap s q" if "q \<noteq> brk s" for q
      using f e(1,2) that by (elim conjE disjE) simp_all
    have "r = None \<and> err = ME_OTHER \<and> set (user_by_id s') = set (user_by_id s1) \<or>
        r = Some p \<and> err = ME_OK \<and> set (user_by_id s') = insert p (set (user_by_id s1)) \<and>
        uheap s' p = Some (u\<lparr>u_id := join_id fd, u_fd := fd\<rparr>)"
      using f by (elim conjE disjE) simp_all
    moreover have "ME_OTHER \<noteq> (ME_OK :: u16)" by simp
    ultimately show ?thesis using f h unfolding e(1,7) using e(3-6,12,14,16) by fastforce
  qed
qed

section \<open>handle_join\<close>

lemma out_ok_uchange: "length es \<le> 16 \<Longrightarrow> list_all entry_wf es \<Longrightarrow> out_ok (fd, uchange_msg es)"
  by (simp add: out_ok_def wf_uchange_msg tail_zero_uchange_msg)

lemma batch_out_ok:
  assumes "batch [] (map (entry_of s) ps) = (bs, c)"
  shows "list_all out_ok (map (\<lambda>b. (fd, uchange_msg b)) (bs @ [c]))"
proof -
  have "concat (bs @ [c]) = map (entry_of s) ps" using batch_concat [OF assms] by simp
  then have "list_all entry_wf (concat (bs @ [c]))"
    by (simp only:) (simp add: list_all_iff entry_of_def Let_def)
  then have "list_all entry_wf b" if "b \<in> set (bs @ [c])" for b
    using that unfolding list_all_iff set_concat by blast
  moreover have "list_all (\<lambda>b. length b \<le> 16) (bs @ [c])"
    using batch_full [OF assms] by (auto simp: list_all_iff)
  ultimately have "out_ok (fd, uchange_msg b)" if "b \<in> set (bs @ [c])" for b
    using that by (intro out_ok_uchange) (auto simp: list_all_iff)
  then show ?thesis unfolding list_all_iff set_map by blast
qed

text \<open>
  After a successful \<open>user_add\<close> the new user gets its reply, then the data of all
  users in batches; everybody else gets the data of the new user.
\<close>

definition join_outs :: "server_t \<Rightarrow> int \<Rightarrow> byte list \<Rightarrow> ptr \<Rightarrow> (int \<times> message_t) list" where
  "join_outs s fd nick p =
     (let u = the (uheap s p); (bs, c) = batch [] (map (entry_of s) (user_by_id s))
      in [(fd, make_join_r nick ME_OK (u_id u) (u_key u))]
         @ map (\<lambda>b. (fd, uchange_msg b)) (bs @ [c])
         @ to_all s fd (uchange_msg [entry_of s p]))"

lemma to_all_out [simp]: "to_all (s\<lparr>out := x\<rparr>) = to_all s"
  by (simp add: to_all_def fd_of_def fun_eq_iff)

lemma users_ok_out [simp]: "users_ok (s\<lparr>out := x\<rparr>) = users_ok s"
  by (simp add: users_ok_def)

lemma entry_of_out [simp]: "entry_of (s\<lparr>out := x\<rparr>) = entry_of s"
  by (simp add: entry_of_def fun_eq_iff)

lemma handle_join_ok:
  assumes "users_ok s" and "0 \<le> fd" and "user_add fd (j_nickname j) s = Inr (Some p, ME_OK, s1)"
  shows "handle_join fd j s = Inr (s1\<lparr>out := out s1 @ join_outs s1 fd (j_nickname j) p\<rparr>)"
proof -
  note a = user_add_cases [OF assms]
  then obtain u where u: "uheap s1 p = Some u" by auto
  have ok: "users_ok s1" using a by simp
  have "p \<in> set (user_by_id s1)" using a by auto
  then have ne: "user_by_id s1 \<noteq> []" by auto
  obtain bs c where b: "batch [] (map (entry_of s1) (user_by_id s1)) = (bs, c)" by fastforce
  let ?s2 = "s1\<lparr>out := out s1 @ [(fd, make_join_r (j_nickname j) ME_OK (u_id u) (u_key u))]\<rparr>"
  have w1: "twalk_users \<lparr>w_type = ALL_TO_ONE, w_fd = fd, w_msg = None\<rparr> ?s2 =
      Inr (\<lparr>w_type = ALL_TO_ONE, w_fd = fd, w_msg = Some (uchange_msg c)\<rparr>,
           ?s2\<lparr>out := out ?s2 @ map (\<lambda>b. (fd, uchange_msg b)) bs\<rparr>)"
    by (rule twalk_users_all_to_one) (simp_all add: ok ne b)
  have m: "fst (snd (uchange_add_or_create make_uchange False (u_nickname u) (u_id u) (u_state u)
      (u_score u))) = uchange_msg [entry_of s1 p]"
    using u by (simp add: make_uchange_eq uchange_add_or_create_msg entry_of_def)
  have w2: "twalk_users \<lparr>w_type = MSG_TO_ALL, w_fd = fd, w_msg = Some m\<rparr> (s1\<lparr>out := x\<rparr>) =
      Inr (\<lparr>w_type = MSG_TO_ALL, w_fd = fd, w_msg = Some m\<rparr>, s1\<lparr>out := x @ to_all s1 fd m\<rparr>)"
    for m x
    using twalk_users_to_all [of "s1\<lparr>out := x\<rparr>" fd m] ok by simp
  show ?thesis
    using assms(3) u b w1 w2 m
    by (simp add: handle_join_def send_msg_def join_outs_def)
qed

lemma handle_join_err:
  assumes "user_add fd (j_nickname j) s = Inr (r, err, s1)" and "err \<noteq> ME_OK"
  shows "handle_join fd j s = Inr (send_msg fd (make_join_r (j_nickname j) err 0 0) s1)"
  using assms by (simp add: handle_join_def)

lemma join_outs_ok: "list_all out_ok (join_outs s fd nick p)"
proof -
  obtain bs c where b: "batch [] (map (entry_of s) (user_by_id s)) = (bs, c)" by fastforce
  have "list_all out_ok (to_all s fd (uchange_msg [entry_of s p]))"
    by (rule out_ok_to_all, rule out_ok_uchange) (simp_all add: entry_of_def Let_def)
  with batch_out_ok [OF b, of fd] b show ?thesis
    by (simp add: join_outs_def Let_def out_ok_join_r)
qed

lemma user_add_inv:
  assumes "server_inv s" and "0 \<le> fd" and "user_add fd nick s = Inr (r, err, s')"
  shows "server_inv s'"
proof -
  note inv = server_invD [OF assms(1)]
  note c = user_add_cases [OF inv(1) assms(2,3)]
  have "brk s \<notin> set (user_by_id s)" using brk_not_in_trees [OF inv(1)] by simp
  then have "states_ok s'" using c inv(3) unfolding states_ok_def by (metis insert_iff option.inject)
  moreover have "chs_ok s'" using c inv(2) by (auto simp: chs_ok_def intro: less_SucI)
  ultimately show ?thesis
    using c inv(4,5) by (simp add: server_inv_def ch_vals_ok_def outs_ok_def)
qed

lemma server_inv_more_out:
  "server_inv s \<Longrightarrow> list_all out_ok ms \<Longrightarrow> server_inv (s\<lparr>out := out s @ ms\<rparr>)"
  by (rule server_inv_same, assumption, rule eff_out_only) (simp_all add: sends_def)

lemma handle_join_inv:
  assumes "server_inv s" and "0 \<le> fd" and "handle_join fd j s = Inr s'"
  shows "server_inv s'"
proof -
  obtain r err s1 where a: "user_add fd (j_nickname j) s = Inr (r, err, s1)"
    using assms(3) by (auto simp: handle_join_def bind_r_eq_Inr)
  have inv1: "server_inv s1" by (rule user_add_inv [OF assms(1,2) a])
  show ?thesis
  proof (cases "err = ME_OK")
    case True
    with user_add_cases [OF server_invD(1) [OF assms(1)] assms(2) a] obtain p where "r = Some p"
      by auto
    with True a have "s' = s1\<lparr>out := out s1 @ join_outs s1 fd (j_nickname j) p\<rparr>"
      using handle_join_ok [OF server_invD(1) [OF assms(1)] assms(2), of j p s1] assms(3) by simp
    with server_inv_more_out [OF inv1 join_outs_ok] show ?thesis by simp
  next
    case False
    with handle_join_err [OF a] assms(3) have "s' = send_msg fd (make_join_r (j_nickname j) err 0 0) s1"
      by simp
    with server_inv_send_msg [OF inv1 out_ok_join_r] show ?thesis by simp
  qed
qed

section \<open>Removing a user\<close>

lemma user_del_eq:
  assumes "users_ok s" and "p \<in> set (user_by_id s)"
  shows "\<exists>s'. user_del_and_destroy p s = Inr s' \<and> users_ok s' \<and>
    user_by_id s' = remove1 p (user_by_id s) \<and> set (user_by_id s') = set (user_by_id s) - {p} \<and>
    uheap s' = (uheap s)(p := None) \<and> cheap s' = cheap s \<and> ch_by_id s' = ch_by_id s \<and>
    out s' = out s \<and> brk s' = brk s"
proof -
  obtain u where u: "uheap s p = Some u" using users_ok_live [OF assms] by blast
  note t = users_okD [OF assms(1)]
  have pfd: "p \<in> set (user_by_fd s)" and pnick: "p \<in> set (user_by_nick s)"
    using assms(2) t(4,5) by simp_all
  have f: "tfind cmp_by_id (uheap s) u (user_by_id s) = Some p"
    by (rule by_id.tfind_eq [OF t(1) assms(2) u]) simp
  obtain t1 where t1: "tdelete cmp_by_id (uheap s) u (user_by_id s) = (t1, True)"
    "t1 = remove1 p (user_by_id s)" "set t1 = set (user_by_id s) - {p}"
    using by_id.tdelete_eq [OF t(1) assms(2) u, of u]
    by (cases "tdelete cmp_by_id (uheap s) u (user_by_id s)") auto
  obtain t2 where t2: "tdelete cmp_by_nick (uheap s) u (user_by_nick s) = (t2, True)"
    "set t2 = set (user_by_id s) - {p}"
    using by_nick.tdelete_eq [OF t(3) pnick u, of u] t(5)
    by (cases "tdelete cmp_by_nick (uheap s) u (user_by_nick s)") (auto simp: by_nick.cmp_refl)
  obtain t3 where t3: "tdelete cmp_by_fd (uheap s) u (user_by_fd s) = (t3, True)"
    "set t3 = set (user_by_id s) - {p}"
    using by_fd.tdelete_eq [OF t(2) pfd u, of u] t(4)
    by (cases "tdelete cmp_by_fd (uheap s) u (user_by_fd s)") auto
  let ?s = "(user_destroy p (s\<lparr>user_by_id := t1, user_by_nick := t2, user_by_fd := t3\<rparr>))
      \<lparr>user_cnt := user_cnt s - 1\<rparr>"
  have r: "user_del_and_destroy p s = Inr ?s"
    using u f t1(1) t2(1) t3(1) by (simp add: user_del_and_destroy_def)
  have "tree_ok cmp_by_id ((uheap s)(p := None)) t1"
    using tree_ok_tdelete [OF t(1), of u] t1 by (intro tree_ok_unused) auto
  moreover have "tree_ok cmp_by_nick ((uheap s)(p := None)) t2"
    using tree_ok_tdelete [OF t(3), of u] t2 by (intro tree_ok_unused) auto
  moreover have "tree_ok cmp_by_fd ((uheap s)(p := None)) t3"
    using tree_ok_tdelete [OF t(2), of u] t3 by (intro tree_ok_unused) auto
  moreover have "length t1 = length (user_by_id s) - 1"
    using t1(2) assms(2) by (simp add: length_remove1)
  moreover have "\<forall>q \<in> dom ((uheap s)(p := None)). q < brk s" using t(9) by auto
  moreover have "\<forall>q u. q \<in> set (user_by_id s) - {p} \<longrightarrow> ((uheap s)(p := None)) q = Some u \<longrightarrow> user_wf u"
    using t(8) by fastforce
  moreover have "length (user_by_id s) - 1 \<le> MAX_USER_COUNT" using t(6,7) by simp
  ultimately have "users_ok ?s"
    unfolding users_ok_def using t1(3) t2(2) t3(2) t(6) by (simp add: user_destroy_def)
  with r t1 show ?thesis by (simp add: user_destroy_def)
qed

text \<open>
  What remains of \<open>quit_user\<close> after the battle, if any, has been judged: it always
  succeeds, and the user is gone.
\<close>

definition quit_tail :: "ptr \<Rightarrow> server_t \<Rightarrow> fault + server_t" where
  "quit_tail p s1 =
     bind_r (deref_u p s1) (\<lambda>user1.
       bind_r (broadcast_user_changes (Some p) None (set_user p (user1\<lparr>u_state := UOFFLINE\<rparr>) s1))
         (user_del_and_destroy p))"

lemma quit_tail_eff:
  assumes "users_ok s" and "p \<in> set (user_by_id s)"
  obtains t s' where "quit_tail p s = Inr s'" and "eff (\<lambda>q x. if q = p then UOFFLINE else x) s t"
    and "users_ok s'" and "user_by_id s' = remove1 p (user_by_id s)"
    and "set (user_by_id s') = set (user_by_id s) - {p}"
    and "uheap s' = (uheap t)(p := None)" and "cheap s' = cheap s" and "ch_by_id s' = ch_by_id s"
    and "out s' = out t" and "brk s' = brk s"
proof -
  obtain u where u: "uheap s p = Some u" using users_ok_live [OF assms] by blast
  let ?s1 = "set_user p (u\<lparr>u_state := UOFFLINE\<rparr>) s"
  have e1: "eff (\<lambda>q x. if q = p then UOFFLINE else x) s ?s1"
    using u by (rule eff_set_user) (simp_all add: same_identity_def)
  obtain t where b: "broadcast_user_changes (Some p) None ?s1 = Inr t" and e2: "eff (\<lambda>p x. x) ?s1 t"
    using broadcast_eff [OF users_ok_eff [OF assms(1) e1], of "Some p" None] by auto
  have e: "eff (\<lambda>q x. if q = p then UOFFLINE else x) s t" using eff_trans [OF e1 e2] by simp
  have pt: "p \<in> set (user_by_id t)" using assms(2) eff_by_id [OF e] by simp
  obtain s' where "user_del_and_destroy p t = Inr s'" "users_ok s'"
    "user_by_id s' = remove1 p (user_by_id t)" "set (user_by_id s') = set (user_by_id t) - {p}"
    "uheap s' = (uheap t)(p := None)" "cheap s' = cheap t" "ch_by_id s' = ch_by_id t"
    "out s' = out t" "brk s' = brk t"
    using user_del_eq [OF users_ok_eff [OF assms(1) e] pt] by blast
  with u b e effD(2-4) [OF e] eff_by_id [OF e] show ?thesis
    by (intro that [of s' t]) (simp_all add: quit_tail_def)
qed

lemma quit_tail_inv:
  assumes "server_inv s" and "p \<in> set (user_by_id s)" and "quit_tail p s = Inr s'"
  shows "server_inv s' \<and> p \<notin> set (user_by_id s')"
proof -
  note inv = server_invD [OF assms(1)]
  obtain t where e: "eff (\<lambda>q x. if q = p then UOFFLINE else x) s t"
    and r: "users_ok s'" "set (user_by_id s') = set (user_by_id s) - {p}"
      "uheap s' = (uheap t)(p := None)" "cheap s' = cheap s" "ch_by_id s' = ch_by_id s"
      "out s' = out t" "brk s' = brk s"
    using quit_tail_eff [OF inv(1) assms(2)] assms(3) by (metis sum.inject(2))
  have "states_ok s'"
    unfolding states_ok_def
  proof (intro allI impI)
    fix q u' assume q: "q \<in> set (user_by_id s')" "uheap s' q = Some u'"
    then have "q \<noteq> p" "q \<in> set (user_by_id s)" "uheap t q = Some u'" using r by auto
    with eff_user_back [OF e] inv(3) show "u_state u' = UONLINE \<or> u_state u' = UBATTLING"
      by (fastforce simp: states_ok_def)
  qed
  moreover have "outs_ok s'" using outs_ok_eff [OF inv(5) e] r by (simp add: outs_ok_def)
  ultimately show ?thesis
    using r inv(2,4) by (simp add: server_inv_def chs_ok_def ch_vals_ok_def)
qed

lemma quit_user_eq:
  assumes "users_ok s" and "p \<in> set (user_by_id s)" and "uheap s p = Some u"
  shows "quit_user p s =
    bind_r (if u_state u = UBATTLING then
              (case find_ch (u_chid u) s of None \<Rightarrow> Inr s
               | Some pch \<Rightarrow> judge_turn pch (uint (u_id u)) s)
            else Inr s) (quit_tail p)"
proof -
  have "quit_tail p = (\<lambda>s1. bind_r (deref_u p s1) (\<lambda>user1.
      bind_r (broadcast_user_changes (Some p) None (set_user p (user1\<lparr>u_state := UOFFLINE\<rparr>) s1))
        (user_del_and_destroy p)))"
    by (rule ext) (rule quit_tail_def)
  moreover have "user_by_id s \<noteq> []" using assms(2) by auto
  ultimately show ?thesis using assms(3) by (simp only: quit_user_def Let_def deref_u_Some) simp
qed

lemma judge_turn_by_id:
  assumes "server_inv s" and "pch \<in> set (ch_by_id s)" and "judge_turn pch f s = Inr s'"
  shows "user_by_id s' = user_by_id s"
proof -
  note inv = server_invD [OF assms(1)]
  obtain ch where ch: "cheap s pch = Some ch"
    using tree_ok_live [OF chs_okD(1) [OF inv(2)] assms(2)] by blast
  obtain p1 p2 where p: "find_id (user1 ch) s = Some p1" "find_id (user2 ch) s = Some p2"
    using judge_turn_null [OF ch, of f] assms(3)
    by (cases "find_id (user1 ch) s"; cases "find_id (user2 ch) s") auto
  show ?thesis
    by (rule judge_turn_eff [OF inv(1,2) assms(2) ch p, of f])
       (use assms(3) eff_by_id in \<open>auto split: if_splits\<close>)
qed

lemma quit_user_inv:
  assumes "server_inv s" and "p \<in> set (user_by_id s)" and "quit_user p s = Inr s'"
  shows "server_inv s' \<and> p \<notin> set (user_by_id s')"
proof -
  note inv = server_invD [OF assms(1)]
  obtain u where u: "uheap s p = Some u" using users_ok_live [OF inv(1) assms(2)] by blast
  obtain s1 where
    s1: "(if u_state u = UBATTLING then
            (case find_ch (u_chid u) s of None \<Rightarrow> Inr s
             | Some pch \<Rightarrow> judge_turn pch (uint (u_id u)) s)
          else Inr s) = Inr s1"
    and t: "quit_tail p s1 = Inr s'"
    using assms(3) quit_user_eq [OF inv(1) assms(2) u] by (auto simp: bind_r_eq_Inr)
  have "server_inv s1 \<and> user_by_id s1 = user_by_id s"
    using s1 assms(1) judge_turn_inv [OF assms(1)] judge_turn_by_id [OF assms(1)]
    by (auto split: if_splits option.splits elim!: find_ch_SomeE)
  with quit_tail_inv [of s1 p s'] t assms(2) show ?thesis by simp
qed

lemma handle_disconnect_inv:
  assumes "server_inv s" and "handle_disconnect fd s = Inr s'"
  shows "server_inv s'"
  using assms quit_user_inv [OF assms(1)] users_okD(4) [OF server_invD(1) [OF assms(1)]]
  by (auto simp: handle_disconnect_def split: option.splits elim!: find_fd_SomeE)

lemma handle_quit_inv:
  assumes "server_inv s" and "handle_quit q s = Inr s'"
  shows "server_inv s'"
  using assms quit_user_inv [OF assms(1)]
  by (auto simp: handle_quit_def bind_r_eq_Inr split: option.splits if_splits elim!: find_id_SomeE)

end
