(* ===== verification/ServerChallenge.thy ===== *)
theory ServerChallenge imports ServerJoin begin

text \<open>
  Challenges, turns and chat: each handler keeps the invariant and never follows a
  dangling pointer. \<open>safe_result\<close> collects both statements about a result; with the
  lemmas on joining and leaving it is shown for \<open>handle_entry\<close> and, through the locale
  \<open>invariant_step\<close>, for whole runs.
\<close>

section \<open>Safe results\<close>

definition safe_result :: "fault + server_t \<Rightarrow> bool" where
  "safe_result r \<longleftrightarrow> (case r of Inl e \<Rightarrow> e \<noteq> UseAfterFree | Inr s \<Rightarrow> server_inv s)"

lemma safe_result_simps [simp]:
  "safe_result (Inr s) = server_inv s"
  "safe_result (Inl AssertFailed)" "safe_result (Inl NullDeref)"
  by (simp_all add: safe_result_def)

lemma safe_resultI:
  "(\<And>s. r = Inr s \<Longrightarrow> server_inv s) \<Longrightarrow> r \<noteq> Inl UseAfterFree \<Longrightarrow> safe_result r"
  by (cases r) (auto simp: safe_result_def)

lemma safe_result_bind:
  "safe_result r \<Longrightarrow> (\<And>s. r = Inr s \<Longrightarrow> server_inv s \<Longrightarrow> safe_result (f s)) \<Longrightarrow>
   safe_result (bind_r r f)"
  by (cases r) (auto simp: safe_result_def)

lemma safe_resultD: "safe_result r \<Longrightarrow> r = Inr s \<Longrightarrow> server_inv s"
  by simp

section \<open>Changing users and challenges\<close>

lemma keeps_set_user_inv:
  assumes "server_inv s" and "uheap s p = Some u" and "same_identity u u'"
    and "u_state u' = UONLINE \<or> u_state u' = UBATTLING"
  shows "server_inv (set_user p u' s)"
proof -
  note inv = server_invD [OF assms(1)]
  have "users_ok (set_user p u' s)"
    by (rule users_ok_keeps [OF inv(1) keeps_set_user [OF assms(2,3)]])
  moreover have "states_ok (set_user p u' s)"
    using inv(3) assms(4) by (auto simp: states_ok_def)
  ultimately show ?thesis
    using inv by (simp add: server_inv_def chs_ok_def ch_vals_ok_def outs_ok_def)
qed

lemma ch_live:
  assumes "server_inv s" and "pch \<in> set (ch_by_id s)"
  obtains ch where "cheap s pch = Some ch" and "ch_wf ch"
  using tree_ok_live [OF chs_okD(1) [OF server_invD(2) [OF assms(1)]] assms(2)]
    server_invD(4) [OF assms(1)] assms(2)
  by (auto simp: ch_vals_ok_def)

lemma user_online_or_battling:
  "server_inv s \<Longrightarrow> p \<in> set (user_by_id s) \<Longrightarrow> uheap s p = Some u \<Longrightarrow>
   u_state u = UONLINE \<or> u_state u = UBATTLING"
  using server_invD(3) unfolding states_ok_def by blast

text \<open>A challenge taken out of the tree.\<close>

lemma ch_unlink_inv:
  assumes "server_inv s" and "pch \<in> set (ch_by_id s)"
  shows "ch_unlink pch s = Inr (s\<lparr>ch_by_id := remove1 pch (ch_by_id s)\<rparr>) \<and>
    server_inv (s\<lparr>ch_by_id := remove1 pch (ch_by_id s)\<rparr>)"
proof
  note inv = server_invD [OF assms(1)]
  obtain ch where ch: "cheap s pch = Some ch" by (rule ch_live [OF assms])
  show "ch_unlink pch s = Inr (s\<lparr>ch_by_id := remove1 pch (ch_by_id s)\<rparr>)"
    using ch ch_unlink_eq [OF inv(2) assms(2) ch, of ch] by (simp add: ch_unlink_def)
  have "ch_vals_ok (s\<lparr>ch_by_id := remove1 pch (ch_by_id s)\<rparr>)"
    using inv(4) set_remove1_ch [OF inv(2), of pch] by (auto simp: ch_vals_ok_def)
  then show "server_inv (s\<lparr>ch_by_id := remove1 pch (ch_by_id s)\<rparr>)"
    using inv chs_ok_remove [OF inv(2), of pch] by (simp add: server_inv_def)
qed

lemma ch_free_inv:
  assumes "server_inv s" and "pch \<notin> set (ch_by_id s)"
  shows "server_inv (ch_free pch s)"
proof -
  note inv = server_invD [OF assms(1)]
  have "chs_ok (ch_free pch s)"
    using tree_ok_unused [OF chs_okD(1) [OF inv(2)] assms(2), of None] inv(2)
    by (auto simp: chs_ok_def ch_free_def)
  moreover have "ch_vals_ok (ch_free pch s)"
    using inv(4) assms(2) by (auto simp: ch_vals_ok_def ch_free_def)
  ultimately show ?thesis
    using inv by (simp add: server_inv_def ch_free_def users_ok_def states_ok_def outs_ok_def)
qed

section \<open>add_challenge\<close>

text \<open>
  Either the 16 attempts are used up, or the new challenge is in the tree under an id
  that is not 0 and that no other challenge has.
\<close>

definition ch_added :: "ptr \<Rightarrow> challenge_t \<Rightarrow> server_t \<Rightarrow> server_t \<Rightarrow> bool" where
  "ch_added p c s s' \<longleftrightarrow> chs_ok s' \<and> set (ch_by_id s') = insert p (set (ch_by_id s)) \<and>
     cheap s' = (cheap s)(p \<mapsto> c) \<and> ch_id c \<noteq> 0 \<and>
     (\<forall>q d. q \<in> set (ch_by_id s) \<longrightarrow> cheap s q = Some d \<longrightarrow> ch_id d \<noteq> ch_id c) \<and>
     uheap s' = uheap s \<and> user_by_id s' = user_by_id s \<and> user_by_fd s' = user_by_fd s \<and>
     user_by_nick s' = user_by_nick s \<and> user_cnt s' = user_cnt s \<and> out s' = out s"

definition draw_id :: "server_t \<Rightarrow> u16" where
  "draw_id s = (let i = of_nat (unat (rnd s (rpos s)) mod UINT16_MAX) in if i = 0 then 1 else i)"

lemma draw_id_nonzero [simp]: "draw_id s \<noteq> 0"
  by (simp add: draw_id_def Let_def)

text \<open>The state after one attempt has written its id.\<close>

definition after_draw :: "ptr \<Rightarrow> challenge_t \<Rightarrow> server_t \<Rightarrow> server_t" where
  "after_draw p c s = set_ch p (c\<lparr>ch_id := draw_id s\<rparr>) (snd (random_num s))"

lemma add_challenge_loop_Suc:
  "add_challenge_loop (Suc n) p c s =
     (let c' = c\<lparr>ch_id := draw_id s\<rparr>; s2 = after_draw p c s
      in if tfind cmp_by_chid (cheap s2) c' (ch_by_id s2) \<noteq> None then add_challenge_loop n p c' s2
         else (let (t, q) = tsearch cmp_by_chid (cheap s2) p c' (ch_by_id s2)
               in if q \<noteq> p then Inl AssertFailed else Inr (p, s2\<lparr>ch_by_id := t\<rparr>)))"
  by (simp add: random_num_def draw_id_def after_draw_def Let_def split: prod.split)

lemma after_draw_fields [simp]:
  "uheap (after_draw p c s) = uheap s" "ch_by_id (after_draw p c s) = ch_by_id s"
  "user_by_id (after_draw p c s) = user_by_id s" "user_by_fd (after_draw p c s) = user_by_fd s"
  "user_by_nick (after_draw p c s) = user_by_nick s" "user_cnt (after_draw p c s) = user_cnt s"
  "out (after_draw p c s) = out s" "brk (after_draw p c s) = brk s"
  "cheap (after_draw p c s) = (cheap s)(p \<mapsto> c\<lparr>ch_id := draw_id s\<rparr>)"
  by (simp_all add: after_draw_def)

lemma chs_ok_after_draw:
  assumes "chs_ok s" and "p \<notin> set (ch_by_id s)" and "p < brk s"
  shows "chs_ok (after_draw p c s)"
  using tree_ok_unused [OF chs_okD(1) [OF assms(1)] assms(2)] assms(1,3)
  by (auto simp: chs_ok_def)

lemma ch_added_from:
  assumes "ch_added p c s1 s'" and "p \<notin> set (ch_by_id s)" and "cheap s1 = (cheap s)(p \<mapsto> d)"
    and "ch_by_id s1 = ch_by_id s" and "uheap s1 = uheap s" and "user_by_id s1 = user_by_id s"
    and "user_by_fd s1 = user_by_fd s" and "user_by_nick s1 = user_by_nick s"
    and "user_cnt s1 = user_cnt s" and "out s1 = out s"
  shows "ch_added p c s s'"
proof -
  have "cheap s1 q = cheap s q" if "q \<in> set (ch_by_id s)" for q using that assms(2,3) by auto
  with assms show ?thesis by (simp add: ch_added_def)
qed

lemma add_challenge_loop_cases:
  assumes "chs_ok s" and "p \<notin> set (ch_by_id s)" and "p < brk s"
  shows "add_challenge_loop n p c s = Inl AssertFailed \<or>
    (\<exists>i s'. add_challenge_loop n p c s = Inr (p, s') \<and> ch_added p (c\<lparr>ch_id := i\<rparr>) s s' \<and>
       brk s' = brk s)"
  using assms
proof (induction n arbitrary: c s)
  case 0
  then show ?case by simp
next
  case (Suc n)
  let ?c = "c\<lparr>ch_id := draw_id s\<rparr>" and ?s = "after_draw p c s"
  have ok: "chs_ok ?s" by (rule chs_ok_after_draw [OF Suc.prems])
  show ?case
  proof (cases "tfind cmp_by_chid (cheap ?s) ?c (ch_by_id ?s)")
    case None
    obtain t where t: "tsearch cmp_by_chid (cheap ?s) p ?c (ch_by_id ?s) = (t, p)"
      using by_chid.tsearch_new [OF chs_okD(1) [OF ok] _ None, of p]
      by (cases "tsearch cmp_by_chid (cheap ?s) p ?c (ch_by_id ?s)") auto
    have "tree_ok cmp_by_chid (cheap ?s) t \<and> set t = insert p (set (ch_by_id s))"
      using by_chid.tsearch_own [OF chs_okD(1) [OF ok] _ _ t] Suc.prems(2) by simp
    moreover have "ch_id d \<noteq> draw_id s" if "q \<in> set (ch_by_id s)" "cheap s q = Some d" for q d
    proof
      assume "ch_id d = draw_id s"
      moreover have "q \<noteq> p" using that(1) Suc.prems(2) by auto
      ultimately show False
        using by_chid.tfind_eq [OF chs_okD(1) [OF ok], of q d ?c] that None by simp
    qed
    moreover have "\<forall>q \<in> dom (cheap ?s). q < brk ?s" using ok unfolding chs_ok_def by blast
    ultimately have "ch_added p ?c s (?s\<lparr>ch_by_id := t\<rparr>)"
      unfolding ch_added_def chs_ok_def by simp
    then show ?thesis
      using None t by (intro disjI2 exI [of _ "draw_id s"] exI [of _ "?s\<lparr>ch_by_id := t\<rparr>"])
        (simp add: add_challenge_loop_Suc del: add_challenge_loop.simps)
  next
    case (Some q)
    then have l: "add_challenge_loop (Suc n) p c s = add_challenge_loop n p ?c ?s"
      by (simp add: add_challenge_loop_Suc Let_def del: add_challenge_loop.simps)
    have "ch_added p (?c\<lparr>ch_id := i\<rparr>) ?s s' \<Longrightarrow> ch_added p (c\<lparr>ch_id := i\<rparr>) s s'" for i s'
      using Suc.prems(2) ch_added_from [of p _ ?s s' s] by simp
    with l Suc.IH [of ?s ?c] ok Suc.prems(2,3) show ?thesis by fastforce
  qed
qed

lemma add_challenge_cases:
  assumes "chs_ok s"
  shows "add_challenge s = Inl AssertFailed \<or>
    (\<exists>i s'. add_challenge s = Inr (brk s, s') \<and> brk s' = Suc (brk s) \<and>
       ch_added (brk s) (zero_challenge\<lparr>ch_id := i\<rparr>) s s')"
proof -
  let ?s = "set_ch (brk s) zero_challenge (s\<lparr>brk := Suc (brk s)\<rparr>)"
  have z: "zero_challenge\<lparr>ch_state := ASKING\<rparr> = zero_challenge" by (simp add: zero_challenge_def)
  have n: "brk s \<notin> set (ch_by_id s)"
    using tree_ok_live [OF chs_okD(1) [OF assms]] chs_okD(2) [OF assms] by blast
  have "chs_ok ?s"
    using tree_ok_unused [OF chs_okD(1) [OF assms] n] assms
    by (auto simp: chs_ok_def intro: less_SucI)
  moreover have "ch_added (brk s) c ?s s' \<Longrightarrow> ch_added (brk s) c s s'" for c s'
    using n ch_added_from [of "brk s" c ?s s' s] by simp
  ultimately show ?thesis
    using add_challenge_loop_cases [of ?s "brk s" 16 zero_challenge] n
    by (fastforce simp: add_challenge_def Let_def z)
qed

end
