(* ===== verification/Runs.thy ===== *)
theory Runs imports Prelude begin

text \<open>
  Event loops: a step function that handles one input at a time and may end the
  process. The locale carries an invariant of the step to all inputs.
\<close>

text \<open>Every input is admitted in the state in which its turn comes.\<close>

fun run_admitted :: "('x \<Rightarrow> 's \<Rightarrow> 'e + 's) \<Rightarrow> ('x \<Rightarrow> 's \<Rightarrow> bool) \<Rightarrow> 'x list \<Rightarrow> 's \<Rightarrow> bool" where
  "run_admitted step admitted [] s = True"
| "run_admitted step admitted (x # xs) s =
     (admitted x s \<and>
      (case step x s of Inl e \<Rightarrow> True | Inr s' \<Rightarrow> run_admitted step admitted xs s'))"

lemma run_admittedI: "(\<And>x s. x \<in> set xs \<Longrightarrow> admitted x s) \<Longrightarrow> run_admitted step admitted xs s"
  by (induction xs arbitrary: s) (auto split: sum.split)

lemma run_admitted_append:
  "run_admitted step admitted (xs @ ys) s \<longleftrightarrow> run_admitted step admitted xs s \<and>
     (case fold_r step xs s of Inl e \<Rightarrow> True | Inr s' \<Rightarrow> run_admitted step admitted ys s')"
proof (induction xs arbitrary: s)
  case Nil
  then show ?case by simp
next
  case (Cons x xs)
  then show ?case by (cases "step x s") auto
qed

locale invariant_step =
  fixes step :: "'x \<Rightarrow> 's \<Rightarrow> 'e + 's" and admitted :: "'x \<Rightarrow> 's \<Rightarrow> bool"
    and inv :: "'s \<Rightarrow> bool" and tolerated :: "'e \<Rightarrow> bool"
  assumes step_inv: "inv s \<Longrightarrow> admitted x s \<Longrightarrow> step x s = Inr s' \<Longrightarrow> inv s'"
    and step_fault: "inv s \<Longrightarrow> admitted x s \<Longrightarrow> step x s = Inl e \<Longrightarrow> tolerated e"
begin

lemma run_result:
  "inv s \<Longrightarrow> run_admitted step admitted xs s \<Longrightarrow>
   case fold_r step xs s of Inl e \<Rightarrow> tolerated e | Inr s' \<Rightarrow> inv s'"
proof (induction xs arbitrary: s)
  case Nil
  then show ?case by simp
next
  case (Cons x xs)
  then show ?case by (cases "step x s") (auto dest: step_inv step_fault)
qed

end

end
