(* ===== verification/ServerSafety.thy ===== *)
theory ServerSafety imports ServerChallenge Runs begin

text \<open>
  Every handler of \<open>server/server.c\<close> has a safe result on a state that satisfies the
  invariant: the next state satisfies it too, and no freed block is accessed. The
  locale \<open>invariant_step\<close> carries this from one entry of the queue to all of them.
\<close>

section \<open>judge_turn and quit_user\<close>

lemma judge_turn_result:
  assumes "server_inv s" and "pch \<in> set (ch_by_id s)" and "cheap s pch = Some ch"
  shows "(find_id (user1 ch) s = None \<or> find_id (user2 ch) s = None) \<and>
      judge_turn pch f s = Inl NullDeref \<or>
    (\<exists>p1 p2 s'. find_id (user1 ch) s = Some p1 \<and> find_id (user2 ch) s = Some p2 \<and>
      judge_turn pch f s = Inr s' \<and> server_inv s')"
proof (cases "find_id (user1 ch) s = None \<or> find_id (user2 ch) s = None")
  case True
  with judge_turn_null [OF assms(3)] show ?thesis by blast
next
  case False
  then obtain p1 p2 where p: "find_id (user1 ch) s = Some p1" "find_id (user2 ch) s = Some p2"
    by auto
  obtain s' where "judge_turn pch f s = Inr s'"
    by (rule judge_turn_eff [OF server_invD(1,2) [OF assms(1)] assms(2,3) p, of f])
  with judge_turn_inv [OF assms(1,2)] p show ?thesis by blast
qed

lemma judge_turn_safe:
  assumes "server_inv s" and "pch \<in> set (ch_by_id s)"
  shows "safe_result (judge_turn pch f s)"
proof -
  obtain ch where "cheap s pch = Some ch" by (rule ch_live [OF assms])
  from judge_turn_result [OF assms this, of f] show ?thesis by auto
qed

lemma quit_tail_Inr:
  assumes "users_ok s" and "p \<in> set (user_by_id s)"
  shows "\<exists>s'. quit_tail p s = Inr s'"
  by (rule quit_tail_eff [OF assms]) blast

lemma quit_user_safe:
  assumes "server_inv s" and "p \<in> set (user_by_id s)"
  shows "safe_result (quit_user p s)"
proof (rule safe_resultI)
  show "quit_user p s = Inr s' \<Longrightarrow> server_inv s'" for s'
    using quit_user_inv [OF assms] by blast
  obtain u where u: "uheap s p = Some u"
    using users_ok_live [OF server_invD(1) [OF assms(1)] assms(2)] by blast
  let ?r = "if u_state u = UBATTLING then
            (case find_ch (u_chid u) s of None \<Rightarrow> Inr s
             | Some pch \<Rightarrow> judge_turn pch (uint (u_id u)) s)
          else Inr s"
  have "safe_result ?r"
    using assms(1) judge_turn_safe [OF assms(1)]
    by (auto split: option.split elim!: find_ch_SomeE)
  moreover have "?r = Inr s1 \<Longrightarrow> user_by_id s1 = user_by_id s" for s1
    using judge_turn_by_id [OF assms(1)]
    by (auto split: if_splits option.splits elim!: find_ch_SomeE)
  ultimately show "quit_user p s \<noteq> Inl UseAfterFree"
    using quit_user_eq [OF server_invD(1) [OF assms(1)] assms(2) u] assms(2)
      quit_tail_Inr [OF server_invD(1), of _ p]
    by (cases ?r) (fastforce simp: safe_result_def)+
qed

lemma handle_disconnect_safe:
  "server_inv s \<Longrightarrow> safe_result (handle_disconnect fd s)"
  using quit_user_safe [of s] users_okD(4) [OF server_invD(1), of s]
  by (auto simp: handle_disconnect_def split: option.split elim!: find_fd_SomeE)

lemma handle_quit_safe:
  "server_inv s \<Longrightarrow> safe_result (handle_quit q s)"
  using quit_user_safe [of s]
  by (auto simp: handle_quit_def split: option.split elim!: find_id_SomeE)

section \<open>handle_join\<close>

lemma user_add_no_uaf: "user_add fd nick s \<noteq> Inl UseAfterFree"
proof -
  have r: "user_register p u uid fd s1 \<noteq> Inl UseAfterFree" for p u uid s1
    by (simp add: user_register_def Let_def split: prod.split)
  have "user_add_loop n uid p u fd s1 \<noteq> Inl UseAfterFree" for n uid p u s1
    by (induction n arbitrary: uid s1) (simp_all add: r Let_def split: prod.split)
  then show ?thesis by (simp add: user_add_def split: prod.split)
qed

lemma handle_join_safe:
  assumes "server_inv s" and "0 \<le> fd"
  shows "safe_result (handle_join fd j s)"
proof (cases "user_add fd (j_nickname j) s")
  case (Inl e)
  then show ?thesis
    using user_add_no_uaf [of fd "j_nickname j" s] by (simp add: handle_join_def safe_result_def)
next
  case (Inr x)
  obtain r err s1 where x: "x = (r, err, s1)" by (cases x)
  note a = Inr [unfolded x]
  note c = user_add_cases [OF server_invD(1) [OF assms(1)] assms(2) a]
  obtain s' where s': "handle_join fd j s = Inr s'"
  proof (cases "err = ME_OK")
    case True
    with c a have "user_add fd (j_nickname j) s = Inr (Some (brk s), ME_OK, s1)" by auto
    from handle_join_ok [OF server_invD(1) [OF assms(1)] assms(2) this] show ?thesis by (rule that)
  next
    case False
    from handle_join_err [OF a this] show ?thesis by (rule that)
  qed
  with handle_join_inv [OF assms] show ?thesis by simp
qed

section \<open>handle_challenge\<close>

lemma challenge_start_safe:
  assumes "server_inv s" and "find_id (c_id1 c) s = Some p1" and "find_id (c_id2 c) s = Some p2"
  shows "safe_result (challenge_start fd c p1 p2 s)"
proof -
  note inv = server_invD [OF assms(1)]
  obtain usr1 where u1: "uheap s p1 = Some usr1" "u_id usr1 = c_id1 c" "p1 \<in> set (user_by_id s)"
    using assms(2) by (rule find_id_SomeE)
  obtain usr2 where u2: "uheap s p2 = Some usr2" "u_id usr2 = c_id2 c" "p2 \<in> set (user_by_id s)"
    using assms(3) by (rule find_id_SomeE)
  show ?thesis
  proof (cases "u_state usr1 \<noteq> UONLINE \<or> u_state usr2 \<noteq> UONLINE \<or> u_id usr1 = u_id usr2")
    case True
    with u1(1) u2(1) show ?thesis
      by (auto simp: challenge_start_def assms(1) out_ok_challenge_r intro!: server_inv_send_msg)
  next
    case False
    consider "add_challenge s = Inl AssertFailed" |
      i s1 where "add_challenge s = Inr (brk s, s1)" "brk s1 = Suc (brk s)"
        "ch_added (brk s) (zero_challenge\<lparr>ch_id := i\<rparr>) s s1"
      using add_challenge_cases [OF inv(2)] by blast
    then show ?thesis
    proof cases
      case 1
      with u1(1) u2(1) False show ?thesis by (simp add: challenge_start_def)
    next
      case 2
      let ?pch = "brk s" and ?c0 = "zero_challenge\<lparr>ch_id := i\<rparr>"
      let ?ch = "?c0\<lparr>ch_state := ASKING, user1 := c_id1 c, user2 := c_id2 c,
          hp1 := MAXHP, hp2 := MAXHP, maxhp1 := MAXHP, maxhp2 := MAXHP\<rparr>"
      let ?s2 = "set_ch ?pch ?ch s1"
      note added = 2(3) [unfolded ch_added_def]
      have "users_ok s1"
        by (rule users_ok_keeps [OF inv(1) keeps_only_heap]) (use added 2(2) in simp_all)
      moreover have "chs_ok ?s2" by (rule chs_ok_set_ch [of s1 ?pch ?c0]) (use added in simp_all)
      moreover have "ch_wf ?ch"
        using added False u1(2) u2(2) by (simp add: ch_wf_def MAXHP_def)
      then have "ch_vals_ok ?s2" using inv(4) added by (auto simp: ch_vals_ok_def)
      moreover have "states_ok ?s2" "outs_ok ?s2"
        using inv(3,5) added by (simp_all add: states_ok_def outs_ok_def)
      ultimately have "server_inv ?s2" by (simp add: server_inv_def)
      then have "server_inv (set_user p1 (usr1\<lparr>u_chid := i\<rparr>) ?s2)"
        using u1(1) False added by (intro keeps_set_user_inv) (simp_all add: same_identity_def)
      then have "server_inv (send_msg (u_fd usr2) (relay_msg c i)
          (set_user p1 (usr1\<lparr>u_chid := i\<rparr>) ?s2))"
        by (rule server_inv_send_msg [OF _ out_ok_relay])
      then show ?thesis using u1(1) u2(1) False 2(1) added by (simp add: challenge_start_def Let_def)
    qed
  qed
qed

lemma challenge_cancel_safe:
  assumes "server_inv s" and "p1 \<in> set (user_by_id s)"
  shows "safe_result (challenge_cancel fd c p1 s)"
proof -
  obtain usr1 where u1: "uheap s p1 = Some usr1"
    using users_ok_live [OF server_invD(1) [OF assms(1)] assms(2)] by blast
  show ?thesis
  proof (cases "u_state usr1 = UONLINE \<and> find_ch (u_chid usr1) s \<noteq> None")
    case True
    then obtain pch where f1: "find_ch (u_chid usr1) s = Some pch" by auto
    then obtain ch where f: "pch \<in> set (ch_by_id s)" "cheap s pch = Some ch"
      by (rule find_ch_SomeE)
    let ?s1 = "set_user p1 (usr1\<lparr>u_chid := 0\<rparr>) s"
    have "server_inv ?s1"
      by (rule keeps_set_user_inv [OF assms(1) u1]) (simp_all add: same_identity_def True)
    from ch_unlink_inv [OF this, of pch] f(1)
    have l: "ch_unlink pch ?s1 = Inr (?s1\<lparr>ch_by_id := remove1 pch (ch_by_id s)\<rparr>)"
      "server_inv (?s1\<lparr>ch_by_id := remove1 pch (ch_by_id s)\<rparr>)"
      by simp_all
    from l(2) have "safe_result (case find_id (user2 ch) (?s1\<lparr>ch_by_id := remove1 pch (ch_by_id s)\<rparr>) of
        None \<Rightarrow> Inr (?s1\<lparr>ch_by_id := remove1 pch (ch_by_id s)\<rparr>)
      | Some p2 \<Rightarrow> bind_r (deref_u p2 (?s1\<lparr>ch_by_id := remove1 pch (ch_by_id s)\<rparr>)) (\<lambda>u2.
          Inr (send_msg (u_fd u2) (challenge_r_msg c CANCELLED False)
            (?s1\<lparr>ch_by_id := remove1 pch (ch_by_id s)\<rparr>))))"
      by (auto split: option.split elim!: find_id_SomeE simp del: set_user_fields
          intro!: server_inv_send_msg out_ok_challenge_r)
    with True f1 f u1 l(1) assms(1) show ?thesis
      by (simp add: challenge_cancel_def)
  next
    case False
    with u1 assms(1) show ?thesis by (auto simp: challenge_cancel_def)
  qed
qed

text \<open>
  An acceptance that finds both users online starts the battle and then judges it, in a
  state with the same users and with the challenge set up for its first turn.
\<close>

lemma challenge_accept_judge:
  assumes "server_inv s" and "pch \<in> set (ch_by_id s)" and "cheap s pch = Some ch"
    and "uheap s p1 = Some usr1" and "uheap s p2 = Some usr2"
    and "p1 \<in> set (user_by_id s)" and "p2 \<in> set (user_by_id s)"
    and "u_state usr1 = UONLINE" and "u_state usr2 = UONLINE"
  obtains s7 where "challenge_accept fd c p1 p2 pch s = judge_turn pch (-1) s7"
    and "server_inv s7" and "keeps s s7" and "pch \<in> set (ch_by_id s7)"
    and "cheap s7 pch = Some (ch\<lparr>ch_state := STARTED, turn_no := 0\<rparr>)"
proof -
  note inv = server_invD [OF assms(1)]
  have wf: "ch_wf ch" using inv(4) assms(2,3) by (simp add: ch_vals_ok_def)
  let ?s1 = "set_ch pch (ch\<lparr>ch_state := STARTED\<rparr>) s"
  let ?s2 = "set_user p1 (usr1\<lparr>u_state := UBATTLING, u_chid := ch_id ch\<rparr>) ?s1"
  have i1: "server_inv ?s1"
    using assms(1,3) wf by (intro server_inv_set_ch) (simp_all add: ch_wf_def)
  have i2: "server_inv ?s2"
    by (rule keeps_set_user_inv [OF i1, of p1 usr1]) (simp_all add: assms(4) same_identity_def)
  obtain usr2' where u2': "uheap ?s2 p2 = Some usr2'" "same_identity usr2 usr2'"
    using assms(4,5) by (cases "p2 = p1") (auto simp: same_identity_def)
  let ?s3 = "set_user p2 (usr2'\<lparr>u_state := UBATTLING, u_chid := ch_id ch\<rparr>) ?s2"
  have i3: "server_inv ?s3"
    by (rule keeps_set_user_inv [OF i2 u2'(1)]) (simp_all add: same_identity_def)
  have "keeps s ?s1" by simp
  moreover have "keeps ?s1 ?s2"
    by (rule keeps_set_user [of _ _ usr1]) (simp_all add: assms(4) same_identity_def)
  moreover have "keeps ?s2 ?s3" by (rule keeps_set_user [OF u2'(1)]) (simp add: same_identity_def)
  ultimately have k3: "keeps s ?s3" by (blast intro: keeps_trans)
  obtain s4 where s4: "broadcast_user_changes (Some p1) (Some p2) ?s3 = Inr s4"
    and e4: "eff (\<lambda>p x. x) ?s3 s4"
    using broadcast_eff [OF server_invD(1) [OF i3], of "Some p1" "Some p2"] by auto
  let ?s6 = "send_msg (u_fd usr2) (challenge_r_msg c ME_OK False)
      (send_msg (u_fd usr1) (challenge_r_msg c ME_OK True) s4)"
  let ?s7 = "set_ch pch (ch\<lparr>ch_state := STARTED, turn_no := 0\<rparr>) ?s6"
  have i6: "server_inv ?s6"
    by (intro server_inv_send_msg out_ok_challenge_r server_inv_same [OF i3 e4])
  have ch6: "cheap ?s6 pch = Some (ch\<lparr>ch_state := STARTED\<rparr>)" "ch_by_id ?s6 = ch_by_id s"
    using effD(2,3) [OF e4] by simp_all
  have "server_inv ?s7"
    using wf by (intro server_inv_set_ch [OF i6 ch6(1)]) (simp_all add: ch_wf_def)
  moreover have "keeps s ?s7"
    using keeps_trans [OF k3 effD(1) [OF e4]] by (blast intro: keeps_trans keeps_send_msg keeps_set_ch)
  moreover have "challenge_accept fd c p1 p2 pch s = judge_turn pch (-1) ?s7"
    using assms(3-5,8,9) u2'(1) s4 ch6(1) by (simp add: challenge_accept_def Let_def)
  ultimately show ?thesis using assms(2) ch6(2) by (intro that [of ?s7]) simp_all
qed

lemma challenge_accept_engaged:
  assumes "uheap s p1 = Some usr1" and "uheap s p2 = Some usr2" and "cheap s pch = Some ch"
    and "u_state usr1 \<noteq> UONLINE \<or> u_state usr2 \<noteq> UONLINE"
  shows "challenge_accept fd c p1 p2 pch s = Inr (send_msg fd (challenge_r_msg c ENGAGED False) s)"
  using assms by (auto simp: challenge_accept_def)

lemma challenge_accept_safe:
  assumes "server_inv s" and "p1 \<in> set (user_by_id s)" and "p2 \<in> set (user_by_id s)"
    and "pch \<in> set (ch_by_id s)"
  shows "safe_result (challenge_accept fd c p1 p2 pch s)"
proof -
  obtain usr1 usr2 where u: "uheap s p1 = Some usr1" "uheap s p2 = Some usr2"
    using users_ok_live [OF server_invD(1) [OF assms(1)]] assms(2,3) by blast
  obtain ch where ch: "cheap s pch = Some ch" by (rule ch_live [OF assms(1,4)])
  show ?thesis
  proof (cases "u_state usr1 = UONLINE \<and> u_state usr2 = UONLINE")
    case True
    then obtain s7 where "challenge_accept fd c p1 p2 pch s = judge_turn pch (-1) s7"
      "server_inv s7" "pch \<in> set (ch_by_id s7)"
      using challenge_accept_judge [OF assms(1,4) ch u assms(2,3), of fd c] by blast
    with judge_turn_safe show ?thesis by simp
  next
    case False
    with challenge_accept_engaged [OF u ch, of fd c] assms(1) show ?thesis
      by (simp add: server_inv_send_msg out_ok_challenge_r)
  qed
qed

text \<open>
  If the challenge names a user who has left, the server dereferences \<open>NULL\<close>.
\<close>

lemma challenge_accept_crash:
  assumes "server_inv s" and "pch \<in> set (ch_by_id s)" and "cheap s pch = Some ch"
    and "uheap s p1 = Some usr1" and "uheap s p2 = Some usr2"
    and "p1 \<in> set (user_by_id s)" and "p2 \<in> set (user_by_id s)"
    and "u_state usr1 = UONLINE" and "u_state usr2 = UONLINE"
    and "find_id (user1 ch) s = None \<or> find_id (user2 ch) s = None"
  shows "challenge_accept fd c p1 p2 pch s = Inl NullDeref"
proof -
  obtain s7 where s7: "challenge_accept fd c p1 p2 pch s = judge_turn pch (-1) s7" "keeps s s7"
    "cheap s7 pch = Some (ch\<lparr>ch_state := STARTED, turn_no := 0\<rparr>)"
    using assms(1-9) by (rule challenge_accept_judge)
  have "judge_turn pch (-1) s7 = Inl NullDeref"
    by (rule judge_turn_null [OF s7(3)]) (use assms(10) find_id_keeps [OF s7(2)] in simp)
  with s7(1) show ?thesis by simp
qed

lemma challenge_reject_safe:
  assumes "server_inv s" and "p1 \<in> set (user_by_id s)" and "p2 \<in> set (user_by_id s)"
    and "pch \<in> set (ch_by_id s)"
  shows "safe_result (challenge_reject c p1 p2 pch s)"
proof -
  note inv = server_invD [OF assms(1)]
  obtain usr1 usr2 where u: "uheap s p1 = Some usr1" "uheap s p2 = Some usr2"
    using users_ok_live [OF inv(1)] assms(2,3) by blast
  obtain ch where ch: "cheap s pch = Some ch" by (rule ch_live [OF assms(1,4)])
  let ?s1 = "send_msg (u_fd usr1) (challenge_r_msg c REJECTED False) s"
  have "server_inv ?s1" by (rule server_inv_send_msg [OF assms(1) out_ok_challenge_r])
  from ch_unlink_inv [OF this, of pch] assms(4)
  have l: "ch_unlink pch ?s1 = Inr (?s1\<lparr>ch_by_id := remove1 pch (ch_by_id s)\<rparr>)"
    "server_inv (?s1\<lparr>ch_by_id := remove1 pch (ch_by_id s)\<rparr>)"
    by simp_all
  moreover have "pch \<notin> set (remove1 pch (ch_by_id s))" by (simp add: set_remove1_ch [OF inv(2)])
  ultimately have "server_inv (ch_free pch (?s1\<lparr>ch_by_id := remove1 pch (ch_by_id s)\<rparr>))"
    by (intro ch_free_inv) simp_all
  with l(1) u ch assms(1) show ?thesis by (simp add: challenge_reject_def)
qed

lemma handle_challenge_safe:
  assumes "server_inv s"
  shows "safe_result (handle_challenge fd c s)"
proof (cases "find_id (c_id1 c) s = None \<or> find_id (c_id2 c) s = None")
  case True
  with assms show ?thesis
    by (auto simp: handle_challenge_def intro!: server_inv_send_msg out_ok_challenge_r split: option.split)
next
  case False
  then obtain p1 p2 where p: "find_id (c_id1 c) s = Some p1" "find_id (c_id2 c) s = Some p2"
    by auto
  obtain usr1 where u1: "uheap s p1 = Some usr1" "p1 \<in> set (user_by_id s)"
    using p(1) by (rule find_id_SomeE)
  obtain usr2 where u2: "uheap s p2 = Some usr2" "p2 \<in> set (user_by_id s)"
    using p(2) by (rule find_id_SomeE)
  have err: "safe_result (Inr (send_msg fd (challenge_r_msg c e b) s))" for e b
    by (simp add: assms server_inv_send_msg out_ok_challenge_r)
  have "safe_result (case find_ch (c_chid c) s of
      None \<Rightarrow> Inr (send_msg fd (challenge_r_msg c NXCHID False) s)
    | Some pch \<Rightarrow> bind_r (deref_c pch s) (\<lambda>ch. if ch_state ch = STARTED then Inr s
        else if c_action c = C_ACCEPT then challenge_accept fd c p1 p2 pch s
        else challenge_reject c p1 p2 pch s))"
    using challenge_accept_safe [OF assms u1(2) u2(2)] challenge_reject_safe [OF assms u1(2) u2(2)]
      err assms
    by (auto split: option.split elim!: find_ch_SomeE simp del: safe_result_simps(1)
        intro: safe_result_simps(1) [THEN iffD2])
  with p u1 u2 err challenge_start_safe [OF assms p] challenge_cancel_safe [OF assms u1(2)]
  show ?thesis
    by (auto simp: handle_challenge_def simp del: safe_result_simps(1) split: option.split)
qed

section \<open>Turns and chat\<close>

lemma ch_wf_record_action: "ch_wf ch \<Longrightarrow> ch_wf (record_action t ch)"
  by (simp add: record_action_def ch_wf_def)

lemma record_action_id [simp]: "ch_id (record_action t ch) = ch_id ch"
  "user1 (record_action t ch) = user1 ch" "user2 (record_action t ch) = user2 ch"
  "ch_state (record_action t ch) = ch_state ch"
  by (simp_all add: record_action_def)

lemma handle_turn_safe:
  assumes "server_inv s"
  shows "safe_result (handle_turn fd t s)"
proof (cases "find_ch (t_chid t) s")
  case None
  with assms show ?thesis by (simp add: handle_turn_def)
next
  case (Some pch)
  then have pch: "pch \<in> set (ch_by_id s)" by (auto elim: find_ch_SomeE)
  obtain ch where ch: "cheap s pch = Some ch" "ch_wf ch" by (rule ch_live [OF assms pch])
  have i: "server_inv (set_ch pch (record_action t ch) s)"
    by (rule server_inv_set_ch [OF assms ch(1)]) (simp_all add: ch_wf_record_action ch(2))
  with judge_turn_safe [OF i, of pch "-1"] pch ch(1) assms Some show ?thesis
    by (auto simp: handle_turn_def Let_def split: option.split elim!: find_id_SomeE)
qed

text \<open>A chat message is relayed to everybody, without the key of its author.\<close>

lemma handle_sendmsg_eq:
  assumes "users_ok s" and "find_id (sm_id sm) s = Some p" and "uheap s p = Some u"
    and "u_key u = sm_key sm"
  shows "handle_sendmsg sm msg s =
    Inr (s\<lparr>out := out s @ to_all s (-1) (msg\<lparr>m_body := Sendmsg (sm\<lparr>sm_key := 0\<rparr>)\<rparr>)\<rparr>)"
  using assms by (simp add: handle_sendmsg_def twalk_users_to_all)

lemma out_ok_sendmsg:
  assumes "wf_message msg" and "m_body msg = Sendmsg sm"
  shows "out_ok (fd, msg\<lparr>m_body := Sendmsg (sm\<lparr>sm_key := 0\<rparr>)\<rparr>)"
  using assms
  by (auto simp: out_ok_def wf_message_iff kind_of_body_def tail_zero_def body_wf_def msg_check_form_def
      bad_kind_def split: if_splits)

lemma handle_sendmsg_safe:
  assumes "server_inv s" and "wf_message msg" and "m_body msg = Sendmsg sm"
  shows "safe_result (handle_sendmsg sm msg s)"
proof (cases "find_id (sm_id sm) s")
  case None
  with assms(1) show ?thesis by (simp add: handle_sendmsg_def)
next
  case (Some p)
  then obtain u where u: "uheap s p = Some u" by (rule find_id_SomeE)
  show ?thesis
  proof (cases "u_key u = sm_key sm")
    case True
    with server_inv_more_out [OF assms(1) out_ok_to_all [OF out_ok_sendmsg [OF assms(2,3)]]]
      handle_sendmsg_eq [OF server_invD(1) [OF assms(1)] Some u] show ?thesis by simp
  next
    case False
    with Some u assms(1) show ?thesis by (simp add: handle_sendmsg_def)
  qed
qed

section \<open>One entry of the queue\<close>

text \<open>What \<open>serve\<close> puts on the queue: descriptors of \<open>accept\<close>, messages \<open>msg_recv\<close> accepted.\<close>

definition entry_ok :: "queue_entry_t \<Rightarrow> bool" where
  "entry_ok e \<longleftrightarrow> (case e of EMSG fd m \<Rightarrow> 0 \<le> fd \<and> wf_message m | EDISCONN fd \<Rightarrow> True)"

lemma handle_entry_safe:
  assumes "server_inv s" and "entry_ok e"
  shows "safe_result (handle_entry e s)"
proof (cases e)
  case (EMSG fd m)
  with assms handle_join_safe [OF assms(1)] handle_quit_safe [OF assms(1)]
    handle_challenge_safe [OF assms(1)] handle_turn_safe [OF assms(1)]
    handle_sendmsg_safe [OF assms(1)]
  show ?thesis by (cases "m_body m") (simp_all add: handle_entry_def entry_ok_def)
next
  case (EDISCONN fd)
  with handle_disconnect_safe [OF assms(1)] show ?thesis by (simp add: handle_entry_def)
qed

section \<open>Runs\<close>

interpretation server_steps: invariant_step handle_entry "\<lambda>e s. entry_ok e" server_inv
  "\<lambda>e. e \<noteq> UseAfterFree"
  by unfold_locales (use handle_entry_safe in \<open>fastforce simp: safe_result_def\<close>)+

lemma server_run_safe:
  "server_inv s \<Longrightarrow> list_all entry_ok es \<Longrightarrow> safe_result (server_run es s)"
  using server_steps.run_result [of s es] run_admittedI [of es "\<lambda>e s. entry_ok e" handle_entry s]
  by (auto simp: server_run_def safe_result_def list_all_iff split: sum.splits)

text \<open>The state \<open>main\<close> starts with.\<close>

lemma server_inv_init: "uheap s = Map.empty \<Longrightarrow> cheap s = Map.empty \<Longrightarrow> out s = [] \<Longrightarrow>
  server_inv (model_init s)"
  by (simp add: model_init_def server_inv_def users_ok_def chs_ok_def states_ok_def
      ch_vals_ok_def outs_ok_def)

end
