(* ===== verification/Lobby.thy ===== *)
theory Lobby imports Common begin

text \<open>
  The abstract specification of the server's lobby: which users are there and whether
  they play, which duels are open or under way. A duel under way is between two users
  who both are in a battle and both name that duel; a user in a battle takes part in
  the duel they name. \<open>ServerLobby\<close> shows that the handlers of \<open>server/server.c\<close>
  implement these steps.
\<close>

section \<open>State and steps\<close>

text \<open>A player's status with the duel they named last; a duel's two sides and state.\<close>

type_synonym players = "u16 \<rightharpoonup> u32 \<times> u16"
type_synonym duels = "u16 \<rightharpoonup> u16 \<times> u16 \<times> challenge_state_t"

definition relieve :: "u16 set \<Rightarrow> players \<Rightarrow> players" where
  "relieve A P = (\<lambda>x. if x \<in> A
     then map_option (\<lambda>(st, c). (if st = UBATTLING then UONLINE else st, c)) (P x) else P x)"

inductive lobby_step :: "players \<times> duels \<Rightarrow> players \<times> duels \<Rightarrow> bool" where
  join: "P a = None \<Longrightarrow> lobby_step (P, D) (P(a \<mapsto> (UONLINE, 0)), D)"
| leave: "P a = Some (UONLINE, c) \<Longrightarrow> lobby_step (P, D) (P(a := None), D)"
| start: "P a = Some (UONLINE, c) \<Longrightarrow> P b = Some (UONLINE, d) \<Longrightarrow> a \<noteq> b \<Longrightarrow> D i = None \<Longrightarrow>
    lobby_step (P, D) (P(a \<mapsto> (UONLINE, i)), D(i \<mapsto> (a, b, ASKING)))"
| cancel: "P a = Some (UONLINE, i) \<Longrightarrow> D i = Some (a, b, ASKING) \<Longrightarrow>
    lobby_step (P, D) (P(a \<mapsto> (UONLINE, 0)), D(i := None))"
| reject: "D i = Some (a, b, ASKING) \<Longrightarrow> lobby_step (P, D) (P, D(i := None))"
| accept: "P a = Some (UONLINE, c) \<Longrightarrow> P b = Some (UONLINE, d) \<Longrightarrow> a \<noteq> b \<Longrightarrow>
    D i = Some (a, b, ASKING) \<Longrightarrow>
    lobby_step (P, D) (P(a \<mapsto> (UBATTLING, i), b \<mapsto> (UBATTLING, i)), D(i \<mapsto> (a, b, STARTED)))"
| finish: "D i = Some (a, b, STARTED) \<Longrightarrow> lobby_step (P, D) (relieve {a, b} P, D(i := None))"

inductive_cases lobby_stepE: "lobby_step (P, D) L'"

section \<open>Consistency\<close>

definition lobby_ok :: "players \<times> duels \<Rightarrow> bool" where
  "lobby_ok L \<longleftrightarrow> (case L of (P, D) \<Rightarrow>
     (\<forall>i a b. D i = Some (a, b, STARTED) \<longrightarrow>
        a \<noteq> b \<and> P a = Some (UBATTLING, i) \<and> P b = Some (UBATTLING, i)) \<and>
     (\<forall>a i. P a = Some (UBATTLING, i) \<longrightarrow>
        (\<exists>b. D i = Some (a, b, STARTED) \<or> D i = Some (b, a, STARTED))))"

lemma lobby_ok_duel:
  "lobby_ok (P, D) \<Longrightarrow> D i = Some (a, b, STARTED) \<Longrightarrow>
   a \<noteq> b \<and> P a = Some (UBATTLING, i) \<and> P b = Some (UBATTLING, i)"
  by (simp add: lobby_ok_def)

lemma lobby_ok_player:
  "lobby_ok (P, D) \<Longrightarrow> P a = Some (UBATTLING, i) \<Longrightarrow>
   \<exists>b. D i = Some (a, b, STARTED) \<or> D i = Some (b, a, STARTED)"
  by (simp add: lobby_ok_def)

lemma lobby_okI:
  assumes "\<And>i a b. D i = Some (a, b, STARTED) \<Longrightarrow>
      a \<noteq> b \<and> P a = Some (UBATTLING, i) \<and> P b = Some (UBATTLING, i)"
    and "\<And>a i. P a = Some (UBATTLING, i) \<Longrightarrow>
      \<exists>b. D i = Some (a, b, STARTED) \<or> D i = Some (b, a, STARTED)"
  shows "lobby_ok (P, D)"
  using assms by (simp add: lobby_ok_def)

text \<open>Users who play in no battle may come, change and go.\<close>

lemma lobby_ok_idle:
  assumes "lobby_ok (P, D)" and "\<And>c. P a \<noteq> Some (UBATTLING, c)" and "\<And>c. x \<noteq> Some (UBATTLING, c)"
  shows "lobby_ok (P(a := x), D)"
proof (rule lobby_okI)
  fix i b c assume d: "D i = Some (b, c, STARTED)"
  from lobby_ok_duel [OF assms(1) d] assms(2)
  show "b \<noteq> c \<and> (P(a := x)) b = Some (UBATTLING, i) \<and> (P(a := x)) c = Some (UBATTLING, i)" by auto
next
  fix b i assume "(P(a := x)) b = Some (UBATTLING, i)"
  with assms(3) [of i] have "P b = Some (UBATTLING, i)" by (cases "b = a") simp_all
  with lobby_ok_player [OF assms(1)]
  show "\<exists>c. D i = Some (b, c, STARTED) \<or> D i = Some (c, b, STARTED)" by blast
qed

text \<open>So may duels that have not started.\<close>

lemma lobby_ok_asking:
  assumes "lobby_ok (P, D)" and "\<And>a b. D i \<noteq> Some (a, b, STARTED)"
    and "\<And>a b. x \<noteq> Some (a, b, STARTED)"
  shows "lobby_ok (P, D(i := x))"
proof (rule lobby_okI)
  fix j b c assume "(D(i := x)) j = Some (b, c, STARTED)"
  with assms(3) [of b c] have "D j = Some (b, c, STARTED)" by (cases "j = i") simp_all
  with lobby_ok_duel [OF assms(1)]
  show "b \<noteq> c \<and> P b = Some (UBATTLING, j) \<and> P c = Some (UBATTLING, j)" by blast
next
  fix a j assume "P a = Some (UBATTLING, j)"
  from lobby_ok_player [OF assms(1) this]
  obtain b where b: "D j = Some (a, b, STARTED) \<or> D j = Some (b, a, STARTED)" by blast
  then have "j \<noteq> i" using assms(2) by auto
  with b show "\<exists>b. (D(i := x)) j = Some (a, b, STARTED) \<or> (D(i := x)) j = Some (b, a, STARTED)"
    by auto
qed

lemma lobby_ok_accept:
  assumes "lobby_ok (P, D)" and "\<And>x. P a \<noteq> Some (UBATTLING, x)" and "\<And>x. P b \<noteq> Some (UBATTLING, x)"
    and "a \<noteq> b" and "D i = Some (a, b, ASKING)"
  shows "lobby_ok (P(a \<mapsto> (UBATTLING, i), b \<mapsto> (UBATTLING, i)), D(i \<mapsto> (a, b, STARTED)))"
    (is "lobby_ok (?P, ?D)")
proof (rule lobby_okI)
  fix j c d assume j: "?D j = Some (c, d, STARTED)"
  show "c \<noteq> d \<and> ?P c = Some (UBATTLING, j) \<and> ?P d = Some (UBATTLING, j)"
  proof (cases "j = i")
    case True
    with j assms(4) show ?thesis by simp
  next
    case False
    with j lobby_ok_duel [OF assms(1), of j c d] assms(2,3) show ?thesis by auto
  qed
next
  fix c j assume c: "?P c = Some (UBATTLING, j)"
  show "\<exists>d. ?D j = Some (c, d, STARTED) \<or> ?D j = Some (d, c, STARTED)"
  proof (cases "c = a \<or> c = b")
    case True
    with c have "j = i" by (auto split: if_splits)
    with True show ?thesis by auto
  next
    case False
    with c have "P c = Some (UBATTLING, j)" by simp
    from lobby_ok_player [OF assms(1) this] assms(5) show ?thesis by (cases "j = i") auto
  qed
qed

lemma relieve_eq_battling:
  "relieve A P x = Some (UBATTLING, c) \<longleftrightarrow> x \<notin> A \<and> P x = Some (UBATTLING, c)"
  by (auto simp: relieve_def split: if_splits)

lemma lobby_ok_finish:
  assumes "lobby_ok (P, D)" and "D i = Some (a, b, STARTED)"
  shows "lobby_ok (relieve {a, b} P, D(i := None))"
proof (rule lobby_okI)
  fix j c d assume "(D(i := None)) j = Some (c, d, STARTED)"
  then have j: "j \<noteq> i" "D j = Some (c, d, STARTED)" by (auto split: if_splits)
  from lobby_ok_duel [OF assms(1) j(2)] lobby_ok_duel [OF assms] j(1)
  show "c \<noteq> d \<and> relieve {a, b} P c = Some (UBATTLING, j) \<and> relieve {a, b} P d = Some (UBATTLING, j)"
    by (auto simp: relieve_eq_battling)
next
  fix c j assume "relieve {a, b} P c = Some (UBATTLING, j)"
  then have c: "c \<notin> {a, b}" "P c = Some (UBATTLING, j)" by (simp_all add: relieve_eq_battling)
  from lobby_ok_player [OF assms(1) c(2)] assms(2) c(1)
  show "\<exists>d. (D(i := None)) j = Some (c, d, STARTED) \<or> (D(i := None)) j = Some (d, c, STARTED)"
    by (cases "j = i") auto
qed

text \<open>Consistency is an invariant.\<close>

lemma lobby_ok_step: "lobby_step L L' \<Longrightarrow> lobby_ok L \<Longrightarrow> lobby_ok L'"
proof (induction rule: lobby_step.induct)
  case (start P a c b d D i)
  from start.prems start.hyps have "lobby_ok (P(a \<mapsto> (UONLINE, i)), D)"
    by (intro lobby_ok_idle) auto
  then show ?case using start.hyps by (intro lobby_ok_asking) auto
next
  case (cancel P a i D b)
  from cancel.prems cancel.hyps have "lobby_ok (P(a \<mapsto> (UONLINE, 0)), D)"
    by (intro lobby_ok_idle) auto
  then show ?case using cancel.hyps by (intro lobby_ok_asking) auto
next
  case (accept P a c b d D i)
  then show ?case by (intro lobby_ok_accept) auto
next
  case (finish D i a b P)
  then show ?case by (intro lobby_ok_finish)
qed (auto intro: lobby_ok_idle lobby_ok_asking)

lemma lobby_ok_steps: "lobby_step\<^sup>*\<^sup>* L L' \<Longrightarrow> lobby_ok L \<Longrightarrow> lobby_ok L'"
  by (induction rule: rtranclp_induct) (auto intro: lobby_ok_step)

lemma lobby_ok_empty: "lobby_ok (Map.empty, Map.empty)"
  by (simp add: lobby_ok_def)

text \<open>In a consistent lobby nobody takes part in two battles.\<close>

lemma lobby_one_battle:
  assumes "lobby_ok (P, D)" and "D i = Some (a, b, STARTED)" and "D j = Some (c, d, STARTED)"
    and "{a, b} \<inter> {c, d} \<noteq> {}"
  shows "i = j"
  using lobby_ok_duel [OF assms(1,2)] lobby_ok_duel [OF assms(1,3)] assms(4) by auto

text \<open>A duel under way is only ended by finishing it.\<close>

lemma started_until_finish:
  assumes "lobby_step (P, D) (P', D')" and "D i = Some (a, b, STARTED)"
  shows "D' i = Some (a, b, STARTED) \<or> P' = relieve {a, b} P \<and> D' = D(i := None)"
  using assms by (elim lobby_stepE) auto

end
