(* ===== verification/ServerLobby.thy ===== *)
theory ServerLobby imports ServerSafety Lobby begin

text \<open>
  The server implements the lobby: \<open>lobby\<close> abstracts a server state to the statuses of
  its users and to its duels, by id. On entries that respect the protocol
  (\<open>disciplined\<close>) every handler succeeds and does lobby steps, so that a server fed
  with such entries never stops.
\<close>

section \<open>Abstraction\<close>

definition players_of :: "server_t \<Rightarrow> players" where
  "players_of s i = (case find_id i s of None \<Rightarrow> None
     | Some p \<Rightarrow> map_option (\<lambda>u. (u_state u, u_chid u)) (uheap s p))"

definition duels_of :: "server_t \<Rightarrow> duels" where
  "duels_of s i = (case find_ch i s of None \<Rightarrow> None
     | Some q \<Rightarrow> map_option (\<lambda>c. (user1 c, user2 c, ch_state c)) (cheap s q))"

definition lobby :: "server_t \<Rightarrow> players \<times> duels" where
  "lobby s = (players_of s, duels_of s)"

lemma players_of_Some:
  assumes "users_ok s"
  shows "players_of s i = Some v \<longleftrightarrow>
    (\<exists>p \<in> set (user_by_id s). \<exists>u. uheap s p = Some u \<and> u_id u = i \<and> v = (u_state u, u_chid u))"
  (is "_ \<longleftrightarrow> ?r")
proof
  assume "players_of s i = Some v"
  then obtain p where "find_id i s = Some p" "map_option (\<lambda>u. (u_state u, u_chid u)) (uheap s p) = Some v"
    by (auto simp: players_of_def split: option.splits)
  then show ?r by (elim find_id_SomeE) auto
next
  assume ?r
  with find_id_eq [OF assms] show "players_of s i = Some v" by (auto simp: players_of_def)
qed

lemma players_of_eq:
  assumes "users_ok s" and "find_id i s = Some p" and "uheap s p = Some u"
  shows "players_of s i = Some (u_state u, u_chid u)"
  using assms by (simp add: players_of_def)

lemma players_of_None: "users_ok s \<Longrightarrow> players_of s i = None \<longleftrightarrow> find_id i s = None"
  by (auto simp: players_of_def split: option.splits elim!: find_id_SomeE)

lemma duels_of_Some:
  assumes "chs_ok s"
  shows "duels_of s i = Some v \<longleftrightarrow>
    (\<exists>q \<in> set (ch_by_id s). \<exists>c. cheap s q = Some c \<and> ch_id c = i \<and> v = (user1 c, user2 c, ch_state c))"
  (is "_ \<longleftrightarrow> ?r")
proof
  assume "duels_of s i = Some v"
  then obtain q where "find_ch i s = Some q"
    "map_option (\<lambda>c. (user1 c, user2 c, ch_state c)) (cheap s q) = Some v"
    by (auto simp: duels_of_def split: option.splits)
  then show ?r by (elim find_ch_SomeE) auto
next
  assume ?r
  with find_ch_eq [OF assms] show "duels_of s i = Some v" by (auto simp: duels_of_def)
qed

lemma duels_of_eq:
  "chs_ok s \<Longrightarrow> q \<in> set (ch_by_id s) \<Longrightarrow> cheap s q = Some c \<Longrightarrow>
   duels_of s (ch_id c) = Some (user1 c, user2 c, ch_state c)"
  by (simp add: duels_of_def find_ch_eq)

lemma find_ch_iff:
  assumes "chs_ok s"
  shows "find_ch i s = Some q \<longleftrightarrow> q \<in> set (ch_by_id s) \<and> (\<exists>c. cheap s q = Some c \<and> ch_id c = i)"
  using find_ch_eq [OF assms] by (auto elim: find_ch_SomeE)

lemma find_id_iff:
  assumes "users_ok s"
  shows "find_id i s = Some p \<longleftrightarrow> p \<in> set (user_by_id s) \<and> (\<exists>u. uheap s p = Some u \<and> u_id u = i)"
  using find_id_eq [OF assms] by (auto elim: find_id_SomeE)

text \<open>Two maps that have the same bindings are equal.\<close>

lemma map_eqI_Some: "(\<And>i v. f i = Some v \<longleftrightarrow> g i = Some v) \<Longrightarrow> f = g"
  by (rule ext) (metis not_Some_eq)

lemma user_ids_unique:
  assumes "users_ok s" and "p \<in> set (user_by_id s)" and "q \<in> set (user_by_id s)"
    and "uheap s p = Some u" and "uheap s q = Some v" and "u_id u = u_id v"
  shows "p = q"
  using find_id_eq [OF assms(1,2,4)] find_id_eq [OF assms(1,3,5)] assms(6) by simp

lemma ch_ids_unique:
  assumes "chs_ok s" and "p \<in> set (ch_by_id s)" and "q \<in> set (ch_by_id s)"
    and "cheap s p = Some c" and "cheap s q = Some d" and "ch_id c = ch_id d"
  shows "p = q"
  using find_ch_eq [OF assms(1,2,4)] find_ch_eq [OF assms(1,3,5)] assms(6) by simp

section \<open>What a step does to the abstraction\<close>

lemma duels_of_cong: "cheap s' = cheap s \<Longrightarrow> ch_by_id s' = ch_by_id s \<Longrightarrow> duels_of s' = duels_of s"
  by (rule ext) (simp add: duels_of_def find_ch_def split: option.split)

lemma players_of_cong: "uheap s' = uheap s \<Longrightarrow> user_by_id s' = user_by_id s \<Longrightarrow> players_of s' = players_of s"
  by (rule ext) (simp add: players_of_def find_id_def split: option.split)

lemma lobby_send_msg [simp]: "lobby (send_msg fd m s) = lobby s"
  using duels_of_cong [of "send_msg fd m s" s] players_of_cong [of "send_msg fd m s" s]
  by (simp add: lobby_def)

lemma lobby_out [simp]: "lobby (s\<lparr>out := x\<rparr>) = lobby s"
  using duels_of_cong [of "s\<lparr>out := x\<rparr>" s] players_of_cong [of "s\<lparr>out := x\<rparr>" s]
  by (simp add: lobby_def)

lemma players_of_set_user:
  assumes "users_ok s" and "p \<in> set (user_by_id s)" and "uheap s p = Some u" and "same_identity u u'"
  shows "players_of (set_user p u' s) = (players_of s)(u_id u \<mapsto> (u_state u', u_chid u'))"
proof (rule ext)
  fix i
  have f: "find_id i (set_user p u' s) = find_id i s"
    by (rule find_id_keeps [OF keeps_set_user [OF assms(3,4)]])
  show "players_of (set_user p u' s) i = ((players_of s)(u_id u \<mapsto> (u_state u', u_chid u'))) i"
  proof (cases "i = u_id u")
    case True
    with f find_id_eq [OF assms(1-3)] show ?thesis by (simp add: players_of_def)
  next
    case False
    then have "find_id i s \<noteq> Some p" using assms(3) by (auto elim!: find_id_SomeE)
    with False f show ?thesis by (auto simp: players_of_def split: option.split)
  qed
qed

lemma lobby_set_user:
  assumes "users_ok s" and "p \<in> set (user_by_id s)" and "uheap s p = Some u" and "same_identity u u'"
  shows "lobby (set_user p u' s) = ((players_of s)(u_id u \<mapsto> (u_state u', u_chid u')), duels_of s)"
  using players_of_set_user [OF assms] duels_of_cong [of "set_user p u' s" s] by (simp add: lobby_def)

lemma duels_of_set_ch:
  assumes "chs_ok s" and "q \<in> set (ch_by_id s)" and "cheap s q = Some c" and "ch_id c' = ch_id c"
  shows "duels_of (set_ch q c' s) = (duels_of s)(ch_id c \<mapsto> (user1 c', user2 c', ch_state c'))"
proof (rule ext)
  fix i
  have "find_ch i (set_ch q c' s) = Some r \<longleftrightarrow> find_ch i s = Some r" for r
    using assms(3,4) by (auto simp: find_ch_iff [OF chs_ok_set_ch [OF assms(1,3,4)]]
        find_ch_iff [OF assms(1)] split: if_splits)
  then have f: "find_ch i (set_ch q c' s) = find_ch i s"
    by (cases "find_ch i s"; cases "find_ch i (set_ch q c' s)") auto
  show "duels_of (set_ch q c' s) i =
      ((duels_of s)(ch_id c \<mapsto> (user1 c', user2 c', ch_state c'))) i"
  proof (cases "i = ch_id c")
    case True
    with f find_ch_eq [OF assms(1-3)] show ?thesis by (simp add: duels_of_def)
  next
    case False
    then have "find_ch i s \<noteq> Some q" using assms(3) by (auto elim!: find_ch_SomeE)
    with False f show ?thesis by (auto simp: duels_of_def split: option.split)
  qed
qed

lemma lobby_set_ch:
  assumes "chs_ok s" and "q \<in> set (ch_by_id s)" and "cheap s q = Some c" and "ch_id c' = ch_id c"
  shows "lobby (set_ch q c' s) =
    (players_of s, (duels_of s)(ch_id c \<mapsto> (user1 c', user2 c', ch_state c')))"
  using duels_of_set_ch [OF assms] players_of_cong [of "set_ch q c' s" s] by (simp add: lobby_def)

lemma lobby_remove_ch:
  assumes "chs_ok s" and "q \<in> set (ch_by_id s)" and "cheap s q = Some c"
  shows "lobby (s\<lparr>ch_by_id := remove1 q (ch_by_id s)\<rparr>) = (players_of s, (duels_of s)(ch_id c := None))"
proof -
  let ?s = "s\<lparr>ch_by_id := remove1 q (ch_by_id s)\<rparr>"
  have "duels_of ?s i = Some v \<longleftrightarrow> ((duels_of s)(ch_id c := None)) i = Some v" for i v
    using ch_ids_unique [OF assms(1) _ assms(2) _ assms(3)] assms(3)
    by (auto simp: duels_of_Some [OF chs_ok_remove [OF assms(1)]] duels_of_Some [OF assms(1)]
        set_remove1_ch [OF assms(1)])
  then have "duels_of ?s = (duels_of s)(ch_id c := None)" by (rule map_eqI_Some)
  moreover have "players_of ?s = players_of s" by (rule players_of_cong) simp_all
  ultimately show ?thesis by (simp add: lobby_def)
qed

lemma duels_of_added:
  assumes "chs_ok s" and "p \<notin> set (ch_by_id s)" and "ch_added p c s s'"
  shows "duels_of s' = (duels_of s)(ch_id c \<mapsto> (user1 c, user2 c, ch_state c))"
    and "duels_of s (ch_id c) = None"
proof -
  note a = assms(3) [unfolded ch_added_def]
  have ok: "chs_ok s'" using a by simp
  show none: "duels_of s (ch_id c) = None"
  proof (cases "duels_of s (ch_id c)")
    case (Some v)
    then have False using a unfolding duels_of_Some [OF assms(1)] by blast
    then show ?thesis ..
  qed
  have "duels_of s' i = Some v \<longleftrightarrow> ((duels_of s)(ch_id c \<mapsto> (user1 c, user2 c, ch_state c))) i = Some v"
    for i v
    using a assms(2) by (cases "i = ch_id c")
      (auto simp: duels_of_Some [OF ok] duels_of_Some [OF assms(1)])
  then show "duels_of s' = (duels_of s)(ch_id c \<mapsto> (user1 c, user2 c, ch_state c))"
    by (rule map_eqI_Some)
qed

lemma lobby_eff:
  assumes "users_ok s" and "eff st s s'"
  shows "lobby s' = ((\<lambda>i. case find_id i s of None \<Rightarrow> None
      | Some p \<Rightarrow> map_option (\<lambda>(x, c). (st p x, c)) (players_of s i)), duels_of s)"
proof -
  have "players_of s' i = (case find_id i s of None \<Rightarrow> None
      | Some p \<Rightarrow> map_option (\<lambda>(x, c). (st p x, c)) (players_of s i))" for i
    using eff_user [OF assms(2)]
    by (fastforce simp: players_of_def find_id_eff [OF assms(2)] split: option.split
        elim!: find_id_SomeE)
  moreover have "duels_of s' = duels_of s"
    using effD(2,3) [OF assms(2)] by (rule duels_of_cong)
  ultimately show ?thesis by (simp add: lobby_def fun_eq_iff)
qed

lemma lobby_eff_same:
  assumes "users_ok s" and "eff (\<lambda>p x. x) s s'"
  shows "lobby s' = lobby s"
proof -
  have "(case find_id i s of None \<Rightarrow> None | Some p \<Rightarrow> map_option (\<lambda>(x, c). (x, c)) (players_of s i)) =
      players_of s i" for i
    using players_of_None [OF assms(1), of i] by (cases "players_of s i") (auto split: option.split)
  with lobby_eff [OF assms] show ?thesis by (simp add: lobby_def)
qed

lemma lobby_eff_back_online:
  assumes "users_ok s" and "eff (back_online {p1, p2}) s s'"
    and "find_id a s = Some p1" and "find_id b s = Some p2"
  shows "lobby s' = (relieve {a, b} (players_of s), duels_of s)"
proof -
  have inj: "i = j" if "find_id i s = Some p" "find_id j s = Some p" for i j p
    using that by (auto elim!: find_id_SomeE)
  have "(case find_id i s of None \<Rightarrow> None
      | Some p \<Rightarrow> map_option (\<lambda>(x, c). (back_online {p1, p2} p x, c)) (players_of s i)) =
      relieve {a, b} (players_of s) i" for i
  proof (cases "find_id i s")
    case None
    with players_of_None [OF assms(1), of i] show ?thesis by (simp add: relieve_def)
  next
    case (Some p)
    have "p \<in> {p1, p2} \<longleftrightarrow> i \<in> {a, b}" using inj assms(3,4) Some by auto
    with Some show ?thesis
      by (cases "players_of s i") (auto simp: relieve_def back_online_def)
  qed
  with lobby_eff [OF assms(1,2)] show ?thesis by simp
qed

end
