(* ===== verification/ServerProtocol.thy ===== *)
theory ServerProtocol imports ServerLobby begin

text \<open>
  Entries that respect the protocol, and the simulation: on them every handler
  succeeds and does steps of \<open>Lobby\<close>.
\<close>

section \<open>When user_add fails an assertion\<close>

lemma tfind_by_id: "tfind cmp_by_id (uheap s) (u :: server_user_t) (user_by_id s) = find_id (u_id u) s"
  unfolding find_id_def by (rule tfind_cong_key) (simp add: cmp_by_id_def)

lemma tfind_by_fd: "tfind cmp_by_fd (uheap s) (u :: server_user_t) (user_by_fd s) = find_fd (u_fd u) s"
  unfolding find_fd_def by (rule tfind_cong_key) (simp add: cmp_by_fd_def)

lemma tfind_by_chid: "tfind cmp_by_chid (cheap s) c (ch_by_id s) = find_ch (ch_id c) s"
  unfolding find_ch_def by (rule tfind_cong_key) (simp add: cmp_by_chid_def)

text \<open>
  The insertions into the three trees succeed exactly when neither the id nor the
  descriptor is taken; the nickname has been tested before.
\<close>

lemma user_register_fault:
  assumes "users_ok s" and "p \<notin> set (user_by_id s)"
    and "tfind cmp_by_nick (uheap s) u (user_by_nick s) = None"
  shows "user_register p u uid fd s =
    (if find_id uid s \<noteq> None \<or> find_fd fd s \<noteq> None then Inl AssertFailed
     else Inr (Some p, ME_OK, (set_user p (u\<lparr>u_id := uid, u_fd := fd\<rparr>) s)
       \<lparr>user_by_id := fst (tsearch cmp_by_id ((uheap s)(p \<mapsto> u\<lparr>u_id := uid, u_fd := fd\<rparr>)) p
            (u\<lparr>u_id := uid, u_fd := fd\<rparr>) (user_by_id s)),
        user_by_fd := fst (tsearch cmp_by_fd ((uheap s)(p \<mapsto> u\<lparr>u_id := uid, u_fd := fd\<rparr>)) p
            (u\<lparr>u_id := uid, u_fd := fd\<rparr>) (user_by_fd s)),
        user_by_nick := fst (tsearch cmp_by_nick ((uheap s)(p \<mapsto> u\<lparr>u_id := uid, u_fd := fd\<rparr>)) p
            (u\<lparr>u_id := uid, u_fd := fd\<rparr>) (user_by_nick s)),
        user_cnt := user_cnt s + 1\<rparr>))"
proof -
  let ?u = "u\<lparr>u_id := uid, u_fd := fd\<rparr>"
  let ?h = "(uheap s)(p \<mapsto> ?u)"
  note t = users_okD [OF assms(1)]
  have pfd: "p \<notin> set (user_by_fd s)" and pnick: "p \<notin> set (user_by_nick s)"
    using assms(2) t(4,5) by simp_all
  have "tfind cmp_by_nick (uheap s) ?u (user_by_nick s) = tfind cmp_by_nick (uheap s) u (user_by_nick s)"
    by (rule tfind_cong_key) (simp add: cmp_by_nick_def)
  then have n: "snd (tsearch cmp_by_nick ?h p ?u (user_by_nick s)) = p"
    using by_nick.tsearch_result [OF tree_ok_unused [OF t(3) pnick] _ pnick, of "Some ?u" ?u] assms(3)
    by (simp add: tfind_unused [OF pnick])
  have i: "snd (tsearch cmp_by_id ?h p ?u (user_by_id s)) = p \<longleftrightarrow> find_id uid s = None"
    using by_id.tsearch_result [OF tree_ok_unused [OF t(1) assms(2)] _ assms(2), of "Some ?u" ?u]
    by (simp add: tfind_unused [OF assms(2)] tfind_by_id)
  have f: "snd (tsearch cmp_by_fd ?h p ?u (user_by_fd s)) = p \<longleftrightarrow> find_fd fd s = None"
    using by_fd.tsearch_result [OF tree_ok_unused [OF t(2) pfd] _ pfd, of "Some ?u" ?u]
    by (simp add: tfind_unused [OF pfd] tfind_by_fd)
  show ?thesis using n i f by (simp add: user_register_def Let_def split_def)
qed

text \<open>The tests before the insertions: too many users, the descriptor that \<open>malloc\<close> left in the
  new block, the nickname, and the id 0 of the new block.\<close>

definition nick_taken :: "cstring \<Rightarrow> server_t \<Rightarrow> bool" where
  "nick_taken nick s \<longleftrightarrow> list_ex (\<lambda>p. case uheap s p of None \<Rightarrow> False
     | Some u \<Rightarrow> nick_cmp (take 31 (cstr nick)) (u_nickname u) = 0) (user_by_nick s)"

definition join_blocked :: "int \<Rightarrow> cstring \<Rightarrow> server_t \<Rightarrow> bool" where
  "join_blocked fd nick s \<longleftrightarrow>
     MAX_USER_COUNT \<le> user_cnt s \<or> find_fd (junk_fd s (brk s)) s \<noteq> None \<or>
     nick_taken nick s \<or> find_id 0 s \<noteq> None"

text \<open>What the searches of \<open>user_add\<close> find after \<open>user_create\<close>.\<close>

lemma user_create_finds:
  assumes "users_ok s" and "user_create nick s = (p, u, s1)"
  shows "find_id i s1 = find_id i s" and "find_fd f s1 = find_fd f s"
    and "tfind cmp_by_nick (uheap s1) u (user_by_nick s1) \<noteq> None \<longleftrightarrow> nick_taken nick s"
    and "tfind cmp_by_fd (uheap s1) u (user_by_fd s1) = find_fd (junk_fd s (brk s)) s"
    and "user_cnt s1 = user_cnt s"
proof -
  note e = user_create_eq [OF assms(2)]
  have p: "p \<notin> set (user_by_id s)" "p \<notin> set (user_by_fd s)" "p \<notin> set (user_by_nick s)"
    using brk_not_in_trees [OF assms(1)] e(1) by simp_all
  show "find_id i s1 = find_id i s"
    using tfind_unused [OF p(1)] e(2,7) by (simp add: find_id_def)
  have f: "find_fd f s1 = find_fd f s" for f
    using tfind_unused [OF p(2)] e(2,8) by (simp add: find_fd_def)
  then show "find_fd f s1 = find_fd f s" .
  show "tfind cmp_by_nick (uheap s1) u (user_by_nick s1) \<noteq> None \<longleftrightarrow> nick_taken nick s"
    using e(2,9,16) tfind_unused [OF p(3), of cmp_by_nick "uheap s" "Some u" u]
    by (simp add: tfind_None_iff matches_def list_ex_iff cmp_by_nick_def nick_taken_def
        cong: option.case_cong)
  show "tfind cmp_by_fd (uheap s1) u (user_by_fd s1) = find_fd (junk_fd s (brk s)) s"
    unfolding tfind_by_fd f using e(1,15) by simp
  show "user_cnt s1 = user_cnt s" by (rule e(10))
qed

text \<open>The attempts to find an id succeed at once or not at all.\<close>

lemma user_add_loop_first:
  assumes "u_id u = 0"
  shows "user_add_loop 16 i p u fd s1 =
    (if find_id 0 s1 \<noteq> None then Inr (None, ME_OTHER, s1\<lparr>rpos := rpos s1 + 16\<rparr>)
     else user_register p u i fd s1)"
proof -
  have n16: "(16::nat) = Suc 15" by simp
  show ?thesis
  proof (cases "find_id 0 s1")
    case None
    then show ?thesis unfolding n16 user_add_loop.simps(2) tfind_by_id assms by simp
  next
    case (Some q)
    with user_add_loop_blocked [of s1 u 16 i p fd] show ?thesis by (simp add: tfind_by_id assms)
  qed
qed

text \<open>
  \<open>user_add\<close> in all cases. Past the tests it stops the server exactly if the descriptor or
  the id made from it is taken.
\<close>

lemma user_add_outcome:
  assumes "users_ok s"
  shows "if join_blocked fd nick s then \<exists>err s1. user_add fd nick s = Inr (None, err, s1) \<and> err \<noteq> ME_OK
    else if find_id (join_id fd) s \<noteq> None \<or> find_fd fd s \<noteq> None
    then user_add fd nick s = Inl AssertFailed
    else \<exists>s1. user_add fd nick s = Inr (Some (brk s), ME_OK, s1)"
proof -
  obtain p u s1 where c: "user_create nick s = (p, u, s1)" by (metis prod_cases3)
  note e = user_create_eq [OF c] and f = user_create_finds [OF assms c]
  have s1: "users_ok s1" by (rule user_create_users_ok [OF assms c])
  have p: "p \<notin> set (user_by_id s1)" using brk_not_in_trees [OF assms] e(1,7) by simp
  have b: "join_blocked fd nick s \<longleftrightarrow> MAX_USER_COUNT \<le> user_cnt s1 \<or>
      tfind cmp_by_fd (uheap s1) u (user_by_fd s1) \<noteq> None \<or>
      tfind cmp_by_nick (uheap s1) u (user_by_nick s1) \<noteq> None \<or> find_id 0 s1 \<noteq> None"
    unfolding f by (simp add: join_blocked_def)
  note l = user_add_loop_first [OF e(11)]
  show ?thesis
  proof (cases "join_blocked fd nick s")
    case True
    with b show ?thesis by (auto simp: user_add_def c l)
  next
    case False
    with b have n: "tfind cmp_by_nick (uheap s1) u (user_by_nick s1) = None" by simp
    from user_register_fault [OF s1 p n, of "join_id fd" fd] False b e(1) f(1,2)
    show ?thesis by (auto simp: user_add_def c l join_id_def)
  qed
qed

lemma user_add_fault_iff:
  assumes "users_ok s"
  shows "user_add fd nick s = Inl e \<longleftrightarrow> e = AssertFailed \<and> \<not> join_blocked fd nick s \<and>
    (find_id (join_id fd) s \<noteq> None \<or> find_fd fd s \<noteq> None)"
  using user_add_outcome [OF assms, of fd nick] by (auto split: if_splits)

section \<open>When add_challenge finds an id\<close>

text \<open>One of the next 16 draws is the id of no challenge in the tree.\<close>

definition fresh_draw :: "nat \<Rightarrow> server_t \<Rightarrow> bool" where
  "fresh_draw n s \<longleftrightarrow> list_ex (\<lambda>k. find_ch (draw_id (s\<lparr>rpos := rpos s + k\<rparr>)) s = None) [0..<n]"

lemma fresh_draw_Suc:
  "fresh_draw (Suc n) s \<longleftrightarrow> find_ch (draw_id s) s = None \<or>
     list_ex (\<lambda>k. find_ch (draw_id (s\<lparr>rpos := Suc (rpos s) + k\<rparr>)) s = None) [0..<n]"
proof -
  have "[0..<Suc n] = 0 # map Suc [0..<n]" 
    by (simp add: upt_conv_Cons map_Suc_upt del: upt_Suc)
  moreover have "list_ex f (0 # map Suc xs) \<longleftrightarrow> f 0 \<or> list_ex (\<lambda>k. f (Suc k)) xs" for f xs
    by (induction xs) auto
  ultimately show ?thesis by (simp only: fresh_draw_def) simp
qed

lemma find_ch_after_draw: "p \<notin> set (ch_by_id s) \<Longrightarrow> find_ch i (after_draw p c s) = find_ch i s"
  by (simp add: find_ch_def tfind_unused)

lemma add_challenge_loop_ok_iff:
  assumes "chs_ok s" and "p \<notin> set (ch_by_id s)" and "p < brk s"
  shows "add_challenge_loop n p c s = Inl AssertFailed \<longleftrightarrow> \<not> fresh_draw n s"
  using assms
proof (induction n arbitrary: c s)
  case 0
  then show ?case by (simp add: fresh_draw_def)
next
  case (Suc n)
  let ?c = "c\<lparr>ch_id := draw_id s\<rparr>" and ?s = "after_draw p c s"
  have ok: "chs_ok ?s" by (rule chs_ok_after_draw [OF Suc.prems])
  have f: "tfind cmp_by_chid (cheap ?s) ?c (ch_by_id ?s) = find_ch (draw_id s) s"
    using tfind_by_chid [of ?s ?c] find_ch_after_draw [OF Suc.prems(2)] by simp
  have d: "draw_id (?s\<lparr>rpos := rpos ?s + k\<rparr>) = draw_id (s\<lparr>rpos := Suc (rpos s) + k\<rparr>)" for k
    by (simp add: draw_id_def after_draw_def set_ch_def random_num_def)
  have r: "fresh_draw n ?s \<longleftrightarrow>
      list_ex (\<lambda>k. find_ch (draw_id (s\<lparr>rpos := Suc (rpos s) + k\<rparr>)) s = None) [0..<n]"
    unfolding fresh_draw_def d find_ch_after_draw [OF Suc.prems(2)] ..
  show ?case
  proof (cases "find_ch (draw_id s) s")
    case None
    with f have "snd (tsearch cmp_by_chid (cheap ?s) p ?c (ch_by_id ?s)) = p"
      using by_chid.tsearch_result [OF chs_okD(1) [OF ok], of p ?c] Suc.prems(2) by simp
    then obtain t where "tsearch cmp_by_chid (cheap ?s) p ?c (ch_by_id ?s) = (t, p)"
      by (cases "tsearch cmp_by_chid (cheap ?s) p ?c (ch_by_id ?s)") simp
    with None f show ?thesis unfolding add_challenge_loop_Suc fresh_draw_Suc Let_def by simp
  next
    case (Some q)
    then have l: "add_challenge_loop (Suc n) p c s = add_challenge_loop n p ?c ?s"
      unfolding add_challenge_loop_Suc Let_def f by simp
    show ?thesis
      using Suc.IH [of ?s ?c] ok Suc.prems(2,3) Some unfolding l r fresh_draw_Suc by simp
  qed
qed

lemma add_challenge_fault_iff:
  assumes "chs_ok s"
  shows "add_challenge s = Inl e \<longleftrightarrow> e = AssertFailed \<and> \<not> fresh_draw 16 s"
proof -
  let ?s = "set_ch (brk s) zero_challenge (s\<lparr>brk := Suc (brk s)\<rparr>)"
  have z: "zero_challenge\<lparr>ch_state := ASKING\<rparr> = zero_challenge" by (simp add: zero_challenge_def)
  have n: "brk s \<notin> set (ch_by_id s)"
    using tree_ok_live [OF chs_okD(1) [OF assms]] chs_okD(2) [OF assms] by blast
  have "chs_ok ?s"
    using tree_ok_unused [OF chs_okD(1) [OF assms] n] assms
    by (auto simp: chs_ok_def intro: less_SucI)
  from add_challenge_loop_ok_iff [OF this, of "brk s" 16 zero_challenge] n
  have r: "add_challenge s = Inl AssertFailed \<longleftrightarrow> \<not> fresh_draw 16 ?s"
    by (simp add: add_challenge_def Let_def z)
  have fc: "find_ch i ?s = find_ch i s" for i
    by (simp add: find_ch_def set_ch_def tfind_unused [OF n])
  have d: "draw_id (?s\<lparr>rpos := rpos ?s + k\<rparr>) = draw_id (s\<lparr>rpos := rpos s + k\<rparr>)" for k
    by (simp add: draw_id_def set_ch_def)
  have "fresh_draw 16 ?s \<longleftrightarrow> fresh_draw 16 s" unfolding fresh_draw_def fc d ..
  with r show ?thesis using add_challenge_cases [OF assms] by auto
qed

end
