(* ===== verification/ServerSim.thy ===== *)
theory ServerSim imports ServerProtocol begin

text \<open>
  The simulation. \<open>disciplined e s\<close> says that an entry respects the protocol in state
  \<open>s\<close>: a join comes on a descriptor and with an id that are free, an acceptance names
  the two users of its challenge, an action is for a battle that has started, and a
  new challenge finds an id. On such entries every handler succeeds and the lobby
  moves by steps of \<open>Lobby\<close>.
\<close>

definition disciplined :: "queue_entry_t \<Rightarrow> server_t \<Rightarrow> bool" where
  "disciplined e s \<longleftrightarrow> entry_ok e \<and>
     (case e of EDISCONN fd \<Rightarrow> True
      | EMSG fd m \<Rightarrow> (case m_body m of
          Join j \<Rightarrow> find_fd fd s = None \<and> find_id (join_id fd) s = None
        | Challenge c \<Rightarrow>
            if c_action c = C_START then fresh_draw 16 s
            else if c_action c = C_ACCEPT then
              (case duels_of s (c_chid c) of None \<Rightarrow> True
               | Some (a, b, st) \<Rightarrow> a = c_id1 c \<and> b = c_id2 c)
            else True
        | Turn t \<Rightarrow> (case duels_of s (t_chid t) of None \<Rightarrow> True | Some (a, b, st) \<Rightarrow> st = STARTED)
        | _ \<Rightarrow> True))"

text \<open>The handler succeeds, and the lobby moves by lobby steps.\<close>

definition simulated :: "server_t \<Rightarrow> fault + server_t \<Rightarrow> bool" where
  "simulated s r \<longleftrightarrow> (\<exists>s'. r = Inr s' \<and> lobby_step\<^sup>*\<^sup>* (lobby s) (lobby s'))"

lemma simulatedI: "r = Inr s' \<Longrightarrow> lobby_step\<^sup>*\<^sup>* (lobby s) (lobby s') \<Longrightarrow> simulated s r"
  by (auto simp: simulated_def)

lemma simulated_same: "lobby s' = lobby s \<Longrightarrow> simulated s (Inr s')"
  by (simp add: simulated_def)

lemma simulated_skip [simp]: "simulated s (Inr s)"
  by (rule simulated_same) (rule refl)

lemma simulated_send [simp]: "simulated s (Inr (send_msg fd m s))"
  by (rule simulated_same) simp

lemma simulated_one: "r = Inr s' \<Longrightarrow> lobby_step (lobby s) (lobby s') \<Longrightarrow> simulated s r"
  by (auto simp: simulated_def)

section \<open>judge_turn\<close>

lemma judge_turn_lobby:
  fixes f :: int
  assumes "server_inv s" and "pch \<in> set (ch_by_id s)" and "cheap s pch = Some ch"
    and "find_id (user1 ch) s = Some p1" and "find_id (user2 ch) s = Some p2"
  defines "w \<equiv> judge_winner f (judged (unat (rnd s (rpos s))) ch)"
  obtains s' where "judge_turn pch f s = Inr s'" and "server_inv s'"
    and "keeps s s'"
    and "lobby s' = (if w = None then lobby s
      else (relieve {user1 ch, user2 ch} (players_of s), (duels_of s)(ch_id ch := None)))"
proof -
  note inv = server_invD [OF assms(1)]
  let ?ch = "judged (unat (rnd s (rpos s))) ch"
  let ?s1 = "set_ch pch ?ch s"
  obtain t where
    t: "judge_turn pch f s = Inr (if w = None then t else t\<lparr>ch_by_id := remove1 pch (ch_by_id s)\<rparr>)"
    and e: "eff (if w = None then (\<lambda>p x. x) else back_online {p1, p2}) ?s1 t"
    using judge_turn_eff [OF inv(1,2) assms(2-5), of f] unfolding w_def by blast
  have u1: "users_ok ?s1" using inv(1) by simp
  have l1: "lobby ?s1 = lobby s"
    using lobby_set_ch [OF inv(2) assms(2,3), of ?ch] duels_of_eq [OF inv(2) assms(2,3)]
    by (simp add: lobby_def fun_upd_idem)
  have tt: "ch_by_id t = ch_by_id s" "cheap t pch = Some ?ch"
    using effD(2,3) [OF e] by simp_all
  have k: "keeps s t" using keeps_trans [OF keeps_set_ch effD(1) [OF e]] .
  have k': "keeps s (t\<lparr>ch_by_id := x\<rparr>)" for x
    using keeps_trans [OF k keeps_only_heap [of "t\<lparr>ch_by_id := x\<rparr>" t]] by simp
  have find1: "find_id i ?s1 = find_id i s" for i by (rule find_id_cong) simp_all
  show ?thesis
  proof (cases w)
    case None
    with e have "lobby t = lobby s" using lobby_eff_same [OF u1] l1 by simp
    with None t k judge_turn_inv [OF assms(1,2)] show ?thesis by (intro that [of t]) simp_all
  next
    case (Some i)
    with e have e': "eff (back_online {p1, p2}) ?s1 t" by simp
    have lt: "lobby t = (relieve {user1 ch, user2 ch} (players_of s), duels_of s)"
      using lobby_eff_back_online [OF u1 e', of "user1 ch" "user2 ch"] assms(4,5) find1 l1
      by (simp add: lobby_def)
    have ok: "chs_ok t"
      by (rule chs_ok_eff [OF _ e]) (use chs_ok_set_ch [OF inv(2) assms(3)] in simp)
    have "lobby (t\<lparr>ch_by_id := remove1 pch (ch_by_id t)\<rparr>) =
        (players_of t, (duels_of t)(ch_id ?ch := None))"
      by (rule lobby_remove_ch [OF ok]) (use tt assms(2) in simp_all)
    with lt tt(1) have "lobby (t\<lparr>ch_by_id := remove1 pch (ch_by_id s)\<rparr>) =
        (relieve {user1 ch, user2 ch} (players_of s), (duels_of s)(ch_id ch := None))"
      by (simp add: lobby_def)
    with Some t k' judge_turn_inv [OF assms(1,2)] show ?thesis
      by (intro that [of "t\<lparr>ch_by_id := remove1 pch (ch_by_id s)\<rparr>"]) simp_all
  qed
qed

text \<open>For a duel under way in a consistent lobby.\<close>

lemma started_duel:
  assumes "server_inv s" and "lobby_ok (lobby s)" and "pch \<in> set (ch_by_id s)"
    and "cheap s pch = Some ch" and "ch_state ch = STARTED"
  obtains p1 p2 where "find_id (user1 ch) s = Some p1" and "find_id (user2 ch) s = Some p2"
    and "duels_of s (ch_id ch) = Some (user1 ch, user2 ch, STARTED)"
    and "players_of s (user1 ch) = Some (UBATTLING, ch_id ch)"
    and "players_of s (user2 ch) = Some (UBATTLING, ch_id ch)"
proof -
  note inv = server_invD [OF assms(1)]
  have d: "duels_of s (ch_id ch) = Some (user1 ch, user2 ch, STARTED)"
    using duels_of_eq [OF inv(2) assms(3,4)] assms(5) by simp
  with assms(2) have p: "players_of s (user1 ch) = Some (UBATTLING, ch_id ch)"
    "players_of s (user2 ch) = Some (UBATTLING, ch_id ch)"
    using lobby_ok_duel [of "players_of s" "duels_of s"] by (auto simp: lobby_def)
  then have "find_id (user1 ch) s \<noteq> None" "find_id (user2 ch) s \<noteq> None"
    using players_of_None [OF inv(1), of "user1 ch"] players_of_None [OF inv(1), of "user2 ch"] by auto
  with d p that show ?thesis by blast
qed

lemma judge_turn_sim:
  assumes "server_inv s" and "lobby_ok (lobby s)" and "pch \<in> set (ch_by_id s)"
    and "cheap s pch = Some ch" and "ch_state ch = STARTED"
  shows "simulated s (judge_turn pch f s)"
proof -
  obtain p1 p2 where p: "find_id (user1 ch) s = Some p1" "find_id (user2 ch) s = Some p2"
    and d: "duels_of s (ch_id ch) = Some (user1 ch, user2 ch, STARTED)"
    using assms by (rule started_duel)
  obtain s' where s': "judge_turn pch f s = Inr s'"
    "lobby s' = (if judge_winner f (judged (unat (rnd s (rpos s))) ch) = None then lobby s
      else (relieve {user1 ch, user2 ch} (players_of s), (duels_of s)(ch_id ch := None)))"
    by (rule judge_turn_lobby [OF assms(1,3,4) p, of f])
  show ?thesis
  proof (cases "judge_winner f (judged (unat (rnd s (rpos s))) ch)")
    case None
    with s' show ?thesis by (simp add: simulated_same)
  next
    case (Some i)
    with s' lobby_step.finish [of "duels_of s", OF d, of "players_of s"] show ?thesis
      by (intro simulated_one [of _ s']) (simp_all add: lobby_def)
  qed
qed

section \<open>Leaving\<close>

lemma quit_tail_lobby:
  assumes "server_inv s" and "p \<in> set (user_by_id s)" and "uheap s p = Some u"
  obtains s' where "quit_tail p s = Inr s'"
    and "lobby s' = ((players_of s)(u_id u := None), duels_of s)"
proof -
  note inv = server_invD [OF assms(1)]
  obtain t s' where q: "quit_tail p s = Inr s'"
    and e: "eff (\<lambda>q x. if q = p then UOFFLINE else x) s t"
    and ok: "users_ok s'" and set: "set (user_by_id s') = set (user_by_id s) - {p}"
    and h: "uheap s' = (uheap t)(p := None)" and c: "cheap s' = cheap s" "ch_by_id s' = ch_by_id s"
    by (rule quit_tail_eff [OF inv(1) assms(2)])
  have "players_of s' i = ((players_of s)(u_id u := None)) i" for i
  proof (cases "i = u_id u")
    case True
    have "find_id i s' \<noteq> Some q" for q
    proof
      assume "find_id i s' = Some q"
      then obtain v where v: "q \<in> set (user_by_id s')" "uheap s' q = Some v" "u_id v = i"
        by (rule find_id_SomeE)
      with set h have q: "q \<noteq> p" "q \<in> set (user_by_id s)" "uheap t q = Some v" by auto
      obtain v' where "uheap s q = Some v'" "u_id v' = u_id v"
        using eff_user_back [OF e q(3)] by (auto simp: same_identity_def)
      with user_ids_unique [OF inv(1) q(2) assms(2) _ assms(3), of v'] q(1) True v(3)
      show False by simp
    qed
    then have "find_id i s' = None" by (cases "find_id i s'") auto
    with True show ?thesis by (simp add: players_of_def)
  next
    case False
    have eq: "find_id i s' = Some q \<longleftrightarrow> find_id i s = Some q" for q
    proof (cases "q = p")
      case True
      have "p \<notin> set (user_by_id s')" using set by simp
      with True assms(3) False show ?thesis
        by (simp add: find_id_iff [OF ok] find_id_iff [OF inv(1)])
    next
      case qp: False
      have "(\<exists>v. uheap t q = Some v \<and> u_id v = i) \<longleftrightarrow> (\<exists>v. uheap s q = Some v \<and> u_id v = i)"
      proof (cases "uheap s q")
        case None
        with eff_user_back [OF e, of q] show ?thesis by (cases "uheap t q") auto
      next
        case (Some v)
        with eff_user [OF e Some] show ?thesis by (auto simp: same_identity_def)
      qed
      then show ?thesis
        unfolding find_id_iff [OF ok] find_id_iff [OF inv(1)] set h using qp by auto
    qed
    then have f: "find_id i s' = find_id i s" by (cases "find_id i s"; cases "find_id i s'") auto
    show ?thesis
    proof (cases "find_id i s")
      case None
      with f False show ?thesis by (simp add: players_of_def)
    next
      case (Some q)
      then obtain v where v: "uheap s q = Some v" "u_id v = i" by (rule find_id_SomeE)
      with False assms(3) have "q \<noteq> p" by auto
      with eff_user [OF e v(1)] h f Some False v(1) show ?thesis by (auto simp: players_of_def)
    qed
  qed
  moreover have "duels_of s' = duels_of s" using c by (rule duels_of_cong)
  ultimately have "lobby s' = ((players_of s)(u_id u := None), duels_of s)"
    by (simp add: lobby_def fun_eq_iff)
  with q show ?thesis by (rule that)
qed

lemma quit_tail_sim:
  assumes "server_inv s" and "p \<in> set (user_by_id s)" and "uheap s p = Some u" and "u_state u = UONLINE"
  shows "simulated s (quit_tail p s)"
proof -
  obtain s' where s': "quit_tail p s = Inr s'"
    "lobby s' = ((players_of s)(u_id u := None), duels_of s)"
    using assms(1-3) by (rule quit_tail_lobby)
  have "players_of s (u_id u) = Some (UONLINE, u_chid u)"
    using players_of_eq [OF server_invD(1) [OF assms(1)]
        find_id_eq [OF server_invD(1) [OF assms(1)] assms(2,3)] assms(3)] assms(4) by simp
  from lobby_step.leave [of "players_of s", OF this, of "duels_of s"] s' show ?thesis
    by (intro simulated_one [of _ s']) (simp_all add: lobby_def)
qed

lemma judge_winner_forced:
  "f = uint (user1 ch) \<or> f = uint (user2 ch) \<Longrightarrow> judge_winner f (judged r ch) \<noteq> None"
  by (auto simp: judge_winner_def)

text \<open>The battle of a user who leaves is judged, and the user has lost it.\<close>

lemma battling_user_judged:
  assumes "server_inv s" and "lobby_ok (lobby s)" and "p \<in> set (user_by_id s)"
    and "uheap s p = Some u" and "u_state u = UBATTLING"
  obtains pch and ch :: challenge_t and s1 where "find_ch (u_chid u) s = Some pch" and "ch_id ch = u_chid u"
    and "u_id u = user1 ch \<or> u_id u = user2 ch"
    and "duels_of s (ch_id ch) = Some (user1 ch, user2 ch, STARTED)"
    and "players_of s (user1 ch) = Some (UBATTLING, ch_id ch)"
    and "players_of s (user2 ch) = Some (UBATTLING, ch_id ch)"
    and "judge_turn pch (uint (u_id u)) s = Inr s1" and "server_inv s1" and "keeps s s1"
    and "lobby s1 = (relieve {user1 ch, user2 ch} (players_of s), (duels_of s)(ch_id ch := None))"
proof -
  note inv = server_invD [OF assms(1)]
  have pl: "players_of s (u_id u) = Some (u_state u, u_chid u)"
    by (rule players_of_eq [OF inv(1) find_id_eq [OF inv(1) assms(3,4)] assms(4)])
  with assms(2,5) obtain b where b: "duels_of s (u_chid u) = Some (u_id u, b, STARTED) \<or>
      duels_of s (u_chid u) = Some (b, u_id u, STARTED)"
    using lobby_ok_player [of "players_of s" "duels_of s"] by (auto simp: lobby_def)
  then obtain pch ch where ch: "pch \<in> set (ch_by_id s)" "cheap s pch = Some ch"
    "ch_id ch = u_chid u" "ch_state ch = STARTED" "u_id u = user1 ch \<or> u_id u = user2 ch"
    unfolding duels_of_Some [OF inv(2)] by auto
  obtain p1 p2 where p: "find_id (user1 ch) s = Some p1" "find_id (user2 ch) s = Some p2"
    and d: "duels_of s (ch_id ch) = Some (user1 ch, user2 ch, STARTED)"
    and pls: "players_of s (user1 ch) = Some (UBATTLING, ch_id ch)"
      "players_of s (user2 ch) = Some (UBATTLING, ch_id ch)"
    using assms(1,2) ch(1,2,4) by (rule started_duel)
  obtain s1 where s1: "judge_turn pch (uint (u_id u)) s = Inr s1" "server_inv s1" "keeps s s1"
    "lobby s1 = (if judge_winner (uint (u_id u)) (judged (unat (rnd s (rpos s))) ch) = None
      then lobby s
      else (relieve {user1 ch, user2 ch} (players_of s), (duels_of s)(ch_id ch := None)))"
    by (rule judge_turn_lobby [OF assms(1) ch(1,2) p, of "uint (u_id u)"])
  have "judge_winner (uint (u_id u)) (judged (unat (rnd s (rpos s))) ch) \<noteq> None"
    by (rule judge_winner_forced) (use ch(5) in auto)
  with s1(4) have l: "lobby s1 =
      (relieve {user1 ch, user2 ch} (players_of s), (duels_of s)(ch_id ch := None))" by simp
  have "find_ch (u_chid u) s = Some pch" using find_ch_eq [OF inv(2) ch(1,2)] ch(3) by simp
  from this ch(3,5) d pls s1(1-3) l show ?thesis by (rule that)
qed

lemma quit_user_sim:
  assumes "server_inv s" and "lobby_ok (lobby s)" and "p \<in> set (user_by_id s)"
  shows "simulated s (quit_user p s)"
proof -
  note inv = server_invD [OF assms(1)]
  obtain u where u: "uheap s p = Some u" using users_ok_live [OF inv(1) assms(3)] by blast
  show ?thesis
  proof (cases "u_state u = UBATTLING")
    case False
    then have "quit_user p s = quit_tail p s" using quit_user_eq [OF inv(1) assms(3) u] by simp
    with quit_tail_sim [OF assms(1,3) u] user_online_or_battling [OF assms(1,3) u] False
    show ?thesis by simp
  next
    case True
    obtain pch and ch :: challenge_t and s1 where
      ch: "find_ch (u_chid u) s = Some pch" "ch_id ch = u_chid u"
      and who: "u_id u = user1 ch \<or> u_id u = user2 ch"
      and d: "duels_of s (ch_id ch) = Some (user1 ch, user2 ch, STARTED)"
      and pl: "players_of s (user1 ch) = Some (UBATTLING, ch_id ch)"
        "players_of s (user2 ch) = Some (UBATTLING, ch_id ch)"
      and s1: "judge_turn pch (uint (u_id u)) s = Inr s1" "server_inv s1" "keeps s s1"
        "lobby s1 = (relieve {user1 ch, user2 ch} (players_of s), (duels_of s)(ch_id ch := None))"
      by (rule battling_user_judged [OF assms u True])
    have step1: "lobby_step (lobby s) (lobby s1)"
      unfolding s1(4) unfolding lobby_def by (rule lobby_step.finish [of "duels_of s", OF d])
    have p1: "p \<in> set (user_by_id s1)" using s1(3) assms(3) by (simp add: keeps_def)
    obtain u1 where u1: "uheap s1 p = Some u1" "u_id u1 = u_id u"
      using keeps_heap [OF s1(3) u] by (auto simp: same_identity_def)
    have "players_of s1 (u_id u) = Some (u_state u1, u_chid u1)"
      using players_of_eq [OF server_invD(1) [OF s1(2)]
          find_id_eq [OF server_invD(1) [OF s1(2)] p1 u1(1)] u1(1)] u1(2) by simp
    moreover have "players_of s1 = relieve {user1 ch, user2 ch} (players_of s)"
      using s1(4) by (simp add: lobby_def)
    ultimately have "u_state u1 = UONLINE" using pl who by (auto simp: relieve_def)
    with quit_tail_sim [OF s1(2) p1 u1(1)] obtain s' where
      "quit_tail p s1 = Inr s'" "lobby_step\<^sup>*\<^sup>* (lobby s1) (lobby s')"
      by (auto simp: simulated_def)
    then show ?thesis
      using True quit_user_eq [OF inv(1) assms(3) u] s1(1) step1 ch
      by (intro simulatedI [of _ s']) (simp_all add: converse_rtranclp_into_rtranclp)
  qed
qed

end
