(* ===== verification/ServerProgress.thy ===== *)
theory ServerProgress imports ServerSim begin

text \<open>
  Joining, challenges and turns simulate the lobby, and with them every disciplined
  entry: a server that is fed with such entries never stops.
\<close>

section \<open>Joining\<close>

lemma players_of_same_tables:
  assumes "users_ok s" and "users_ok s'" and "set (user_by_id s') = set (user_by_id s)"
    and "\<And>q. q \<in> set (user_by_id s) \<Longrightarrow> uheap s' q = uheap s q"
  shows "players_of s' = players_of s"
proof (rule map_eqI_Some)
  fix i v
  show "players_of s' i = Some v \<longleftrightarrow> players_of s i = Some v"
    unfolding players_of_Some [OF assms(1)] players_of_Some [OF assms(2)] assms(3)
    using assms(4) by auto
qed

lemma players_of_new:
  assumes "users_ok s" and "users_ok s'" and "p \<notin> set (user_by_id s)"
    and "set (user_by_id s') = insert p (set (user_by_id s))" and "uheap s' p = Some u"
    and "\<And>q. q \<noteq> p \<Longrightarrow> uheap s' q = uheap s q" and "find_id (u_id u) s = None"
  shows "players_of s' = (players_of s)(u_id u \<mapsto> (u_state u, u_chid u))"
proof (rule map_eqI_Some)
  fix i v
  have none: "players_of s (u_id u) = None" using assms(1,7) by (simp add: players_of_None)
  show "players_of s' i = Some v \<longleftrightarrow> ((players_of s)(u_id u \<mapsto> (u_state u, u_chid u))) i = Some v"
  proof (cases "i = u_id u")
    case True
    have "players_of s' (u_id u) = Some (u_state u, u_chid u)"
      unfolding players_of_Some [OF assms(2)] using assms(4,5) by auto
    with True show ?thesis by auto
  next
    case False
    have h: "uheap s' q = uheap s q" if "q \<in> set (user_by_id s)" for q
    proof (rule assms(6))
      show "q \<noteq> p" using that assms(3) by auto
    qed
    have "players_of s' i = Some v \<longleftrightarrow> players_of s i = Some v"
      unfolding players_of_Some [OF assms(1)] players_of_Some [OF assms(2)] assms(4)
      using False by (simp add: assms(5) h cong: bex_cong)
    with False show ?thesis by simp
  qed
qed

lemma handle_join_sim:
  assumes "server_inv s" and "0 \<le> fd" and "find_fd fd s = None" and "find_id (join_id fd) s = None"
  shows "simulated s (handle_join fd j s)"
proof -
  note inv = server_invD [OF assms(1)]
  obtain r err s1 where a: "user_add fd (j_nickname j) s = Inr (r, err, s1)"
    using user_add_fault_iff [OF inv(1), of fd "j_nickname j"] assms(3,4)
    by (cases "user_add fd (j_nickname j) s") auto
  note c = user_add_cases [OF inv(1) assms(2) a]
  have b: "brk s \<notin> set (user_by_id s)" using brk_not_in_trees [OF inv(1)] by simp
  have d: "duels_of s1 = duels_of s" using c by (intro duels_of_cong) simp_all
  show ?thesis
  proof (cases "err = ME_OK")
    case True
    with c obtain u where r: "r = Some (brk s)"
      and set: "set (user_by_id s1) = insert (brk s) (set (user_by_id s))"
      and u: "uheap s1 (brk s) = Some u" "u_state u = UONLINE" "u_chid u = 0" "u_id u = join_id fd"
      by auto
    have h: "handle_join fd j s = Inr (s1\<lparr>out := out s1 @ join_outs s1 fd (j_nickname j) (brk s)\<rparr>)"
      using handle_join_ok [OF inv(1) assms(2), of j "brk s" s1] a r True by simp
    have "players_of s1 = (players_of s)(join_id fd \<mapsto> (UONLINE, 0))"
      using players_of_new [OF inv(1) _ b set u(1)] c u assms(4) by simp
    moreover have "players_of s (join_id fd) = None" using assms(4) inv(1) by (simp add: players_of_None)
    ultimately have "lobby_step (lobby s) (lobby s1)"
      using d lobby_step.join [of "players_of s" "join_id fd" "duels_of s"] by (simp add: lobby_def)
    with h show ?thesis by (intro simulated_one [OF h]) simp
  next
    case False
    with c have set: "set (user_by_id s1) = set (user_by_id s)" by auto
    have "uheap s1 q = uheap s q" if "q \<in> set (user_by_id s)" for q
      using c b that by metis
    then have "players_of s1 = players_of s"
      using c by (intro players_of_same_tables [OF inv(1) _ set]) simp_all
    with d have "lobby s1 = lobby s" by (simp add: lobby_def)
    with handle_join_err [OF a False] show ?thesis by (simp add: simulated_same)
  qed
qed

section \<open>Challenges\<close>

text \<open>What the handlers know of the two users of a request.\<close>

lemma player_at:
  assumes "server_inv s" and "find_id i s = Some p" and "uheap s p = Some u"
  shows "players_of s i = Some (u_state u, u_chid u)" and "u_id u = i"
    and "p \<in> set (user_by_id s)"
  using assms players_of_eq [OF server_invD(1) [OF assms(1)] assms(2,3)]
  by (auto elim: find_id_SomeE)

text \<open>A request that is not refused opens a duel and is relayed to the other user.\<close>

lemma challenge_start_effect:
  assumes "server_inv s" and "find_id (c_id1 c) s = Some p1" and "find_id (c_id2 c) s = Some p2"
    and "uheap s p1 = Some usr1" and "uheap s p2 = Some usr2"
    and "u_state usr1 = UONLINE" and "u_state usr2 = UONLINE" and "c_id1 c \<noteq> c_id2 c"
    and "fresh_draw 16 s"
  obtains s' i where "challenge_start fd c p1 p2 s = Inr s'" and "duels_of s i = None" and "i \<noteq> 0"
    and "lobby s' =
      ((players_of s)(c_id1 c \<mapsto> (UONLINE, i)), (duels_of s)(i \<mapsto> (c_id1 c, c_id2 c, ASKING)))"
    and "out s' = out s @ [(u_fd usr2, relay_msg c i)]"
proof -
  note inv = server_invD [OF assms(1)]
  note a1 = player_at [OF assms(1,2,4)] and a2 = player_at [OF assms(1,3,5)]
  obtain i s1 where ac: "add_challenge s = Inr (brk s, s1)" "brk s1 = Suc (brk s)"
    and added: "ch_added (brk s) (zero_challenge\<lparr>ch_id := i\<rparr>) s s1"
    using add_challenge_cases [OF inv(2)] add_challenge_fault_iff [OF inv(2), of AssertFailed]
      assms(9) by auto
  let ?c0 = "zero_challenge\<lparr>ch_id := i\<rparr>"
  let ?ch = "?c0\<lparr>ch_state := ASKING, user1 := c_id1 c, user2 := c_id2 c,
      hp1 := MAXHP, hp2 := MAXHP, maxhp1 := MAXHP, maxhp2 := MAXHP\<rparr>"
  let ?s2 = "set_ch (brk s) ?ch s1" and ?u = "usr1\<lparr>u_chid := i\<rparr>"
  note ad = added [unfolded ch_added_def]
  have n: "brk s \<notin> set (ch_by_id s)"
    using tree_ok_live [OF chs_okD(1) [OF inv(2)]] chs_okD(2) [OF inv(2)] by blast
  have "duels_of s1 = (duels_of s)(i \<mapsto> (0, 0, ASKING))"
    using duels_of_added(1) [OF inv(2) n added] by (simp add: zero_challenge_def)
  moreover have "duels_of ?s2 = (duels_of s1)(i \<mapsto> (c_id1 c, c_id2 c, ASKING))"
    using duels_of_set_ch [of s1 "brk s" ?c0 ?ch] ad by simp
  ultimately have d: "duels_of ?s2 = (duels_of s)(i \<mapsto> (c_id1 c, c_id2 c, ASKING))" by simp
  have p: "players_of ?s2 = players_of s" using ad by (intro players_of_cong) simp_all
  have "users_ok s1"
    by (rule users_ok_keeps [OF inv(1) keeps_only_heap]) (use ad ac(2) in simp_all)
  then have ok: "users_ok ?s2" by simp
  have l: "lobby (set_user p1 ?u ?s2) =
      ((players_of s)(c_id1 c \<mapsto> (UONLINE, i)), (duels_of s)(i \<mapsto> (c_id1 c, c_id2 c, ASKING)))"
    using lobby_set_user [OF ok, of p1 usr1 ?u] d p a1 assms(4,6) ad by (simp add: same_identity_def)
  have r: "challenge_start fd c p1 p2 s =
      Inr (send_msg (u_fd usr2) (relay_msg c i) (set_user p1 ?u ?s2))"
    using assms(4-8) a1(2) a2(2) ac ad by (simp add: challenge_start_def Let_def)
  show ?thesis
    using that [OF r, of i] l duels_of_added(2) [OF inv(2) n added] ad by simp
qed

lemma challenge_start_sim:
  assumes "server_inv s" and "find_id (c_id1 c) s = Some p1" and "find_id (c_id2 c) s = Some p2"
    and "fresh_draw 16 s"
  shows "simulated s (challenge_start fd c p1 p2 s)"
proof -
  obtain usr1 where u1: "uheap s p1 = Some usr1" using assms(2) by (rule find_id_SomeE)
  obtain usr2 where u2: "uheap s p2 = Some usr2" using assms(3) by (rule find_id_SomeE)
  note a1 = player_at [OF assms(1,2) u1] and a2 = player_at [OF assms(1,3) u2]
  show ?thesis
  proof (cases "u_state usr1 = UONLINE \<and> u_state usr2 = UONLINE \<and> c_id1 c \<noteq> c_id2 c")
    case True
    obtain s' i where s': "challenge_start fd c p1 p2 s = Inr s'" "duels_of s i = None"
      "lobby s' =
        ((players_of s)(c_id1 c \<mapsto> (UONLINE, i)), (duels_of s)(i \<mapsto> (c_id1 c, c_id2 c, ASKING)))"
      using challenge_start_effect [OF assms(1-3) u1 u2 _ _ _ assms(4), of fd] True by blast
    have "lobby_step (lobby s) (lobby s')"
      unfolding s'(3) unfolding lobby_def
      by (rule lobby_step.start) (use a1 a2 True s'(2) in auto)
    with s'(1) show ?thesis by (simp add: simulated_one)
  next
    case False
    with u1 u2 a1(2) a2(2) show ?thesis by (auto simp: challenge_start_def)
  qed
qed

lemma challenge_cancel_sim:
  assumes "server_inv s" and "find_id i1 s = Some p1"
  shows "simulated s (challenge_cancel fd c p1 s)"
proof -
  note inv = server_invD [OF assms(1)]
  obtain usr1 where u1: "uheap s p1 = Some usr1" using assms(2) by (rule find_id_SomeE)
  note a1 = player_at [OF assms u1]
  show ?thesis
  proof (cases "u_state usr1 = UONLINE \<and> find_ch (u_chid usr1) s \<noteq> None")
    case True
    then obtain pch where f1: "find_ch (u_chid usr1) s = Some pch" by auto
    then obtain ch where f: "pch \<in> set (ch_by_id s)" "cheap s pch = Some ch" "ch_id ch = u_chid usr1"
      by (rule find_ch_SomeE)
    let ?s1 = "set_user p1 (usr1\<lparr>u_chid := 0\<rparr>) s"
    let ?s2 = "?s1\<lparr>ch_by_id := remove1 pch (ch_by_id s)\<rparr>"
    have si: "server_inv ?s1"
      by (rule keeps_set_user_inv [OF assms(1) u1]) (simp_all add: same_identity_def True)
    have l1: "ch_unlink pch ?s1 = Inr ?s2" using ch_unlink_inv [OF si, of pch] f(1) by simp
    show ?thesis
    proof (cases "ch_state ch = ASKING \<and> user1 ch = u_id usr1")
      case True
      note ask = this
      have d: "duels_of s (u_chid usr1) = Some (i1, user2 ch, ASKING)"
        using duels_of_eq [OF inv(2) f(1,2)] f(3) ask a1(2) by simp
      have "lobby ?s1 = ((players_of s)(i1 \<mapsto> (UONLINE, 0)), duels_of s)"
        using lobby_set_user [OF inv(1) a1(3) u1, of "usr1\<lparr>u_chid := 0\<rparr>"] a1(2)
          \<open>u_state usr1 = UONLINE \<and> find_ch (u_chid usr1) s \<noteq> None\<close>
        by (simp add: same_identity_def)
      then have l2: "lobby ?s2 =
          ((players_of s)(i1 \<mapsto> (UONLINE, 0)), (duels_of s)(u_chid usr1 := None))"
        using lobby_remove_ch [OF server_invD(2) [OF si], of pch ch] f by (simp add: lobby_def)
      have "lobby_step (lobby s) (lobby ?s2)"
        unfolding l2 unfolding lobby_def
        by (rule lobby_step.cancel [of _ _ _ _ "user2 ch"])
           (use a1(1) d \<open>u_state usr1 = UONLINE \<and> find_ch (u_chid usr1) s \<noteq> None\<close> in simp_all)
      then have ok: "simulated s (Inr ?s2)" "simulated s (Inr (send_msg x y ?s2))" for x y
        by (simp_all add: simulated_one)
      have "challenge_cancel fd c p1 s = (case find_id (user2 ch) ?s2 of None \<Rightarrow> Inr ?s2
          | Some p2 \<Rightarrow> bind_r (deref_u p2 ?s2) (\<lambda>u2.
              Inr (send_msg (u_fd u2) (challenge_r_msg c CANCELLED False) ?s2)))"
        using \<open>u_state usr1 = UONLINE \<and> find_ch (u_chid usr1) s \<noteq> None\<close> u1 f1 f ask l1
        by (simp add: challenge_cancel_def)
      with ok show ?thesis
        by (auto split: option.split elim!: find_id_SomeE simp del: set_user_fields)
    next
      case False
      with True u1 f1 f show ?thesis by (auto simp: challenge_cancel_def)
    qed
  next
    case False
    with u1 show ?thesis by (auto simp: challenge_cancel_def)
  qed
qed

lemma duels_of_unused:
  assumes "q \<notin> set (ch_by_id s)" and "cheap s' = (cheap s)(q := x)" and "ch_by_id s' = ch_by_id s"
  shows "duels_of s' = duels_of s"
proof
  fix i
  have f: "find_ch i s' = find_ch i s"
    using assms(2,3) tfind_unused [OF assms(1)] by (simp add: find_ch_def)
  have "find_ch i s \<noteq> Some q" using assms(1) by (auto elim: find_ch_SomeE)
  then show "duels_of s' i = duels_of s i"
    using f assms(2) by (auto simp: duels_of_def split: option.split)
qed

lemma challenge_reject_effect:
  assumes "server_inv s" and "uheap s p1 = Some usr1" and "uheap s p2 = Some usr2"
    and "pch \<in> set (ch_by_id s)" and "cheap s pch = Some ch"
    and "ch_state ch = ASKING" and "user2 ch = u_id usr2"
  obtains s' where "challenge_reject c p1 p2 pch s = Inr s'"
    and "lobby s' = (players_of s, (duels_of s)(ch_id ch := None))"
    and "out s' = out s @ [(u_fd usr1, challenge_r_msg c REJECTED False)]"
proof -
  note inv = server_invD [OF assms(1)]
  let ?s1 = "send_msg (u_fd usr1) (challenge_r_msg c REJECTED False) s"
  let ?s2 = "?s1\<lparr>ch_by_id := remove1 pch (ch_by_id s)\<rparr>"
  have si: "server_inv ?s1" by (rule server_inv_send_msg [OF assms(1) out_ok_challenge_r])
  have l1: "ch_unlink pch ?s1 = Inr ?s2" using ch_unlink_inv [OF si, of pch] assms(4) by simp
  have l2: "lobby ?s2 = (players_of s, (duels_of s)(ch_id ch := None))"
    using lobby_remove_ch [OF server_invD(2) [OF si], of pch ch] assms(4,5)
      lobby_send_msg [of "u_fd usr1" "challenge_r_msg c REJECTED False" s]
    by (simp add: lobby_def)
  have np: "pch \<notin> set (ch_by_id ?s2)" by (simp add: set_remove1_ch [OF inv(2)])
  have "duels_of (ch_free pch ?s2) = duels_of ?s2"
    by (rule duels_of_unused [OF np]) (simp_all add: ch_free_def)
  moreover have "players_of (ch_free pch ?s2) = players_of ?s2"
    by (rule players_of_cong) (simp_all add: ch_free_def)
  ultimately have l3: "lobby (ch_free pch ?s2) = (players_of s, (duels_of s)(ch_id ch := None))"
    using l2 by (simp add: lobby_def)
  have "challenge_reject c p1 p2 pch s = Inr (ch_free pch ?s2)"
    using assms(2,3,5-7) l1 by (simp add: challenge_reject_def)
  then show ?thesis using l3 by (rule that) (simp add: ch_free_def)
qed

lemma challenge_reject_sim:
  assumes "server_inv s" and "p1 \<in> set (user_by_id s)" and "p2 \<in> set (user_by_id s)"
    and "pch \<in> set (ch_by_id s)"
  shows "simulated s (challenge_reject c p1 p2 pch s)"
proof -
  note inv = server_invD [OF assms(1)]
  obtain usr1 usr2 where u: "uheap s p1 = Some usr1" "uheap s p2 = Some usr2"
    using users_ok_live [OF inv(1)] assms(2,3) by blast
  obtain ch where ch: "cheap s pch = Some ch" by (rule ch_live [OF assms(1,4)])
  show ?thesis
  proof (cases "ch_state ch = ASKING \<and> user2 ch = u_id usr2")
    case True
    then obtain s' where s': "challenge_reject c p1 p2 pch s = Inr s'"
      "lobby s' = (players_of s, (duels_of s)(ch_id ch := None))"
      using challenge_reject_effect [OF assms(1) u assms(4) ch, of c] by blast
    have "duels_of s (ch_id ch) = Some (user1 ch, user2 ch, ASKING)"
      using duels_of_eq [OF inv(2) assms(4) ch] True by simp
    then have "lobby_step (lobby s) (lobby s')"
      unfolding s'(2) unfolding lobby_def by (rule lobby_step.reject)
    with s'(1) show ?thesis by (simp add: simulated_one)
  next
    case False
    with u ch show ?thesis by (auto simp: challenge_reject_def)
  qed
qed

text \<open>
  An acceptance that names the users of the challenge starts the battle and announces
  its first turn, which has no winner.
\<close>

lemma challenge_accept_effect:
  assumes "server_inv s" and "find_id i1 s = Some p1" and "find_id i2 s = Some p2"
    and "uheap s p1 = Some usr1" and "uheap s p2 = Some usr2"
    and "pch \<in> set (ch_by_id s)" and "cheap s pch = Some ch"
    and "u_state usr1 = UONLINE" and "u_state usr2 = UONLINE"
    and "user1 ch = i1" and "user2 ch = i2"
  obtains s7 where "challenge_accept fd c p1 p2 pch s = judge_turn pch (-1) s7"
    and "server_inv s7" and "pch \<in> set (ch_by_id s7)"
    and "cheap s7 pch = Some (ch\<lparr>ch_state := STARTED, turn_no := 0\<rparr>)"
    and "lobby s7 = ((players_of s)(i1 \<mapsto> (UBATTLING, ch_id ch), i2 \<mapsto> (UBATTLING, ch_id ch)),
      (duels_of s)(ch_id ch \<mapsto> (i1, i2, STARTED)))"
    and "\<exists>ms. out s7 = out s @ ms @
      [(u_fd usr1, challenge_r_msg c ME_OK True), (u_fd usr2, challenge_r_msg c ME_OK False)]"
    and "keeps s s7"
proof -
  note inv = server_invD [OF assms(1)]
  note u1 = assms(4) and u2 = assms(5)
  note a1 = player_at [OF assms(1,2) u1] and a2 = player_at [OF assms(1,3) u2]
  have wf: "ch_wf ch" using inv(4) assms(6,7) by (simp add: ch_vals_ok_def)
  then have ne: "i1 \<noteq> i2" using assms(10,11) by (auto simp: ch_wf_def)
  with a1(2) a2(2) u1 u2 have np: "p2 \<noteq> p1" by auto
  let ?ch = "ch\<lparr>ch_state := STARTED\<rparr>"
  let ?s1 = "set_ch pch ?ch s"
  let ?u1 = "usr1\<lparr>u_state := UBATTLING, u_chid := ch_id ch\<rparr>"
  let ?u2 = "usr2\<lparr>u_state := UBATTLING, u_chid := ch_id ch\<rparr>"
  let ?s2 = "set_user p1 ?u1 ?s1"
  let ?s3 = "set_user p2 ?u2 ?s2"
  have i1: "server_inv ?s1"
    using assms(1,7) wf by (intro server_inv_set_ch) (simp_all add: ch_wf_def)
  have i2: "server_inv ?s2"
    by (rule keeps_set_user_inv [OF i1, of p1 usr1]) (simp_all add: u1 same_identity_def)
  have i3: "server_inv ?s3"
    by (rule keeps_set_user_inv [OF i2, of p2 usr2]) (simp_all add: u2 np same_identity_def)
  have l1: "lobby ?s1 = (players_of s, (duels_of s)(ch_id ch \<mapsto> (i1, i2, STARTED)))"
    using lobby_set_ch [OF inv(2) assms(6,7), of ?ch] assms(10,11) by simp
  have l2: "lobby ?s2 = ((players_of s)(i1 \<mapsto> (UBATTLING, ch_id ch)),
      (duels_of s)(ch_id ch \<mapsto> (i1, i2, STARTED)))"
    using lobby_set_user [OF server_invD(1) [OF i1], of p1 usr1 ?u1] l1 a1 u1
    by (simp add: lobby_def same_identity_def)
  have l3: "lobby ?s3 = ((players_of s)(i1 \<mapsto> (UBATTLING, ch_id ch), i2 \<mapsto> (UBATTLING, ch_id ch)),
      (duels_of s)(ch_id ch \<mapsto> (i1, i2, STARTED)))"
    using lobby_set_user [OF server_invD(1) [OF i2], of p2 usr2 ?u2] l2 a2 u2 np
    by (simp add: lobby_def same_identity_def)
  obtain s4 where s4: "broadcast_user_changes (Some p1) (Some p2) ?s3 = Inr s4"
    and e4: "eff (\<lambda>p x. x) ?s3 s4"
    using broadcast_eff [OF server_invD(1) [OF i3], of "Some p1" "Some p2"] by auto
  let ?s6 = "send_msg (u_fd usr2) (challenge_r_msg c ME_OK False)
      (send_msg (u_fd usr1) (challenge_r_msg c ME_OK True) s4)"
  have i6: "server_inv ?s6"
    by (intro server_inv_send_msg out_ok_challenge_r server_inv_same [OF i3 e4])
  have ch6: "cheap ?s6 pch = Some ?ch" "ch_by_id ?s6 = ch_by_id s"
    using effD(2,3) [OF e4] by simp_all
  have l6: "lobby ?s6 = lobby ?s3" using lobby_eff_same [OF server_invD(1) [OF i3] e4] by simp
  let ?ch7 = "ch\<lparr>ch_state := STARTED, turn_no := 0\<rparr>"
  let ?s7 = "set_ch pch ?ch7 ?s6"
  have i7: "server_inv ?s7"
    using wf by (intro server_inv_set_ch [OF i6 ch6(1)]) (simp_all add: ch_wf_def)
  have pch6: "pch \<in> set (ch_by_id ?s6)" using ch6(2) assms(6) by simp
  have l7: "lobby ?s7 = lobby ?s3"
    using lobby_set_ch [OF server_invD(2) [OF i6] pch6 ch6(1), of ?ch7] l6 l3 assms(10,11)
    by (simp add: lobby_def fun_upd_idem)
  have r: "challenge_accept fd c p1 p2 pch s = judge_turn pch (-1) ?s7"
    using assms(8,9) u1 u2 np assms(7) s4 ch6(1) by (simp add: challenge_accept_def Let_def)
  have k2: "keeps ?s1 ?s2" by (rule keeps_set_user [of _ _ usr1]) (simp_all add: u1 same_identity_def)
  have k3: "keeps ?s2 ?s3"
    by (rule keeps_set_user [of _ _ usr2]) (simp_all add: u2 np same_identity_def)
  have k6: "keeps s4 ?s7"
    by (rule keeps_trans [OF keeps_trans [OF keeps_send_msg keeps_send_msg] keeps_set_ch])
  have "keeps s ?s7"
    using keeps_trans [OF keeps_trans [OF keeps_trans [OF keeps_trans [OF keeps_set_ch k2] k3]
      effD(1) [OF e4]] k6] .
  moreover obtain ms where "out s4 = out s @ ms" using effD(5) [OF e4] by (auto simp: sends_def)
  ultimately show ?thesis using r i7 pch6 l7 l3 by (intro that [of ?s7]) simp_all
qed

lemma challenge_accept_sim:
  assumes "server_inv s" and "lobby_ok (lobby s)"
    and "find_id i1 s = Some p1" and "find_id i2 s = Some p2"
    and "pch \<in> set (ch_by_id s)" and "cheap s pch = Some ch" and "ch_state ch = ASKING"
    and "user1 ch = i1" and "user2 ch = i2"
  shows "simulated s (challenge_accept fd c p1 p2 pch s)"
proof -
  note inv = server_invD [OF assms(1)]
  obtain usr1 where u1: "uheap s p1 = Some usr1" using assms(3) by (rule find_id_SomeE)
  obtain usr2 where u2: "uheap s p2 = Some usr2" using assms(4) by (rule find_id_SomeE)
  note a1 = player_at [OF assms(1,3) u1] and a2 = player_at [OF assms(1,4) u2]
  have ne: "i1 \<noteq> i2" using inv(4) assms(5,6,8,9) by (auto simp: ch_vals_ok_def ch_wf_def)
  show ?thesis
  proof (cases "u_state usr1 = UONLINE \<and> u_state usr2 = UONLINE")
    case True
    obtain s7 where s7: "challenge_accept fd c p1 p2 pch s = judge_turn pch (-1) s7"
      "server_inv s7" "pch \<in> set (ch_by_id s7)"
      "cheap s7 pch = Some (ch\<lparr>ch_state := STARTED, turn_no := 0\<rparr>)"
      "lobby s7 = ((players_of s)(i1 \<mapsto> (UBATTLING, ch_id ch), i2 \<mapsto> (UBATTLING, ch_id ch)),
        (duels_of s)(ch_id ch \<mapsto> (i1, i2, STARTED)))"
      using challenge_accept_effect [OF assms(1,3,4) u1 u2 assms(5,6) _ _ assms(8,9), of fd c] True
      by blast
    have st: "lobby_step (lobby s) (lobby s7)"
      unfolding s7(5) unfolding lobby_def
      by (rule lobby_step.accept)
         (use a1(1) a2(1) True ne duels_of_eq [OF inv(2) assms(5,6)] assms(7-9) in auto)
    have "simulated s7 (judge_turn pch (-1) s7)"
      by (rule judge_turn_sim [OF s7(2) lobby_ok_step [OF st assms(2)] s7(3,4)]) simp
    then obtain s' where s': "judge_turn pch (-1) s7 = Inr s'" "lobby_step\<^sup>*\<^sup>* (lobby s7) (lobby s')"
      by (auto simp: simulated_def)
    with s7(1) st show ?thesis
      by (intro simulatedI [of _ s']) (simp_all add: converse_rtranclp_into_rtranclp)
  next
    case False
    with u1 u2 assms(6) show ?thesis by (auto simp: challenge_accept_def)
  qed
qed

lemma handle_challenge_sim:
  assumes "server_inv s" and "lobby_ok (lobby s)"
    and "c_action c = C_START \<Longrightarrow> fresh_draw 16 s"
    and "\<And>a b st. c_action c = C_ACCEPT \<Longrightarrow> duels_of s (c_chid c) = Some (a, b, st) \<Longrightarrow>
      a = c_id1 c \<and> b = c_id2 c"
  shows "simulated s (handle_challenge fd c s)"
proof (cases "find_id (c_id1 c) s = None \<or> find_id (c_id2 c) s = None")
  case True
  then show ?thesis by (auto simp: handle_challenge_def split: option.split)
next
  case False
  note inv = server_invD [OF assms(1)]
  from False obtain p1 p2 where p: "find_id (c_id1 c) s = Some p1" "find_id (c_id2 c) s = Some p2"
    by auto
  obtain usr1 where u1: "uheap s p1 = Some usr1" "p1 \<in> set (user_by_id s)"
    using p(1) by (rule find_id_SomeE)
  obtain usr2 where u2: "uheap s p2 = Some usr2" "p2 \<in> set (user_by_id s)"
    using p(2) by (rule find_id_SomeE)
  have "simulated s (case find_ch (c_chid c) s of
      None \<Rightarrow> Inr (send_msg fd (challenge_r_msg c NXCHID False) s)
    | Some pch \<Rightarrow> bind_r (deref_c pch s) (\<lambda>ch. if ch_state ch = STARTED then Inr s
        else if c_action c = C_ACCEPT then challenge_accept fd c p1 p2 pch s
        else challenge_reject c p1 p2 pch s))"
  proof (cases "find_ch (c_chid c) s")
    case None
    then show ?thesis by simp
  next
    case (Some pch)
    then obtain ch where ch: "pch \<in> set (ch_by_id s)" "cheap s pch = Some ch" "ch_id ch = c_chid c"
      by (rule find_ch_SomeE)
    have d: "duels_of s (c_chid c) = Some (user1 ch, user2 ch, ch_state ch)"
      using duels_of_eq [OF inv(2) ch(1,2)] ch(3) by simp
    have asking: "ch_state ch \<noteq> STARTED \<Longrightarrow> ch_state ch = ASKING" by (cases "ch_state ch") auto
    show ?thesis
      using challenge_reject_sim [OF assms(1) u1(2) u2(2) ch(1)]
        challenge_accept_sim [OF assms(1,2) p ch(1,2)] assms(4) [OF _ d] asking Some ch(2)
      by simp
  qed
  with p u1 u2 challenge_start_sim [OF assms(1) p assms(3)] challenge_cancel_sim [OF assms(1) p(1)]
  show ?thesis by (auto simp: handle_challenge_def split: option.split)
qed

section \<open>Turns and chat\<close>

lemma handle_turn_sim:
  assumes "server_inv s" and "lobby_ok (lobby s)"
    and "\<And>a b st. duels_of s (t_chid t) = Some (a, b, st) \<Longrightarrow> st = STARTED"
  shows "simulated s (handle_turn fd t s)"
proof (cases "find_ch (t_chid t) s")
  case None
  then show ?thesis by (simp add: handle_turn_def)
next
  case (Some pch)
  note inv = server_invD [OF assms(1)]
  from Some obtain ch where ch: "pch \<in> set (ch_by_id s)" "cheap s pch = Some ch" "ch_id ch = t_chid t"
    by (rule find_ch_SomeE)
  have wf: "ch_wf ch" using inv(4) ch(1,2) by (simp add: ch_vals_ok_def)
  have st: "ch_state ch = STARTED"
    using assms(3) duels_of_eq [OF inv(2) ch(1,2)] ch(3) by simp
  let ?ch = "record_action t ch" and ?s = "set_ch pch (record_action t ch) s"
  have i: "server_inv ?s"
    by (rule server_inv_set_ch [OF assms(1) ch(2)]) (simp_all add: ch_wf_record_action wf)
  have l: "lobby ?s = lobby s"
    using lobby_set_ch [OF inv(2) ch(1,2), of ?ch] duels_of_eq [OF inv(2) ch(1,2)]
    by (simp add: lobby_def fun_upd_idem)
  have "simulated ?s (judge_turn pch (-1) ?s)"
    by (rule judge_turn_sim [OF i, of pch ?ch]) (use l assms(2) ch(1) st in simp_all)
  then have j: "simulated s (judge_turn pch (-1) ?s)" using l by (simp add: simulated_def)
  show ?thesis
    using j Some ch(2) simulated_same [OF l]
    by (auto simp: handle_turn_def Let_def split: option.split elim!: find_id_SomeE)
qed

lemma handle_sendmsg_sim:
  assumes "server_inv s"
  shows "simulated s (handle_sendmsg sm msg s)"
proof (cases "find_id (sm_id sm) s")
  case None
  then show ?thesis by (simp add: handle_sendmsg_def)
next
  case (Some p)
  then obtain u where u: "uheap s p = Some u" by (rule find_id_SomeE)
  then show ?thesis
    using handle_sendmsg_eq [OF server_invD(1) [OF assms] Some u] Some
    by (cases "u_key u = sm_key sm") (simp_all add: handle_sendmsg_def simulated_same)
qed

section \<open>Every disciplined entry\<close>

lemma handle_entry_sim:
  assumes "server_inv s" and "lobby_ok (lobby s)" and "disciplined e s"
  shows "simulated s (handle_entry e s)"
proof (cases e)
  case (EDISCONN fd)
  show ?thesis
    using quit_user_sim [OF assms(1,2)] users_okD(4) [OF server_invD(1) [OF assms(1)]]
    by (auto simp: EDISCONN handle_entry_def handle_disconnect_def split: option.split
        elim!: find_fd_SomeE)
next
  case (EMSG fd m)
  show ?thesis
  proof (cases "m_body m")
    case (Join j)
    with EMSG assms handle_join_sim [OF assms(1), of fd j] show ?thesis
      by (simp add: handle_entry_def disciplined_def entry_ok_def)
  next
    case (Quit q)
    with EMSG quit_user_sim [OF assms(1,2)] show ?thesis
      by (auto simp: handle_entry_def handle_quit_def split: option.split elim!: find_id_SomeE)
  next
    case (Challenge c)
    have "simulated s (handle_challenge fd c s)"
      using assms(3) by (intro handle_challenge_sim [OF assms(1,2)])
        (auto simp: disciplined_def EMSG Challenge split: if_splits)
    with EMSG Challenge show ?thesis by (simp add: handle_entry_def)
  next
    case (Turn t)
    have "simulated s (handle_turn fd t s)"
      using assms(3) by (intro handle_turn_sim [OF assms(1,2)])
        (auto simp: disciplined_def EMSG Turn split: if_splits)
    with EMSG Turn show ?thesis by (simp add: handle_entry_def)
  next
    case (Sendmsg sm)
    with EMSG handle_sendmsg_sim [OF assms(1)] show ?thesis by (simp add: handle_entry_def)
  qed (simp_all add: handle_entry_def EMSG)
qed

text \<open>The invariant of a server whose clients respect the protocol.\<close>

definition play_inv :: "server_t \<Rightarrow> bool" where
  "play_inv s \<longleftrightarrow> server_inv s \<and> lobby_ok (lobby s)"

lemma handle_entry_play:
  assumes "play_inv s" and "disciplined e s"
  shows "\<exists>s'. handle_entry e s = Inr s' \<and> play_inv s'"
proof -
  have i: "server_inv s" "lobby_ok (lobby s)" using assms(1) by (simp_all add: play_inv_def)
  obtain s' where s': "handle_entry e s = Inr s'" "lobby_step\<^sup>*\<^sup>* (lobby s) (lobby s')"
    using handle_entry_sim [OF i assms(2)] by (auto simp: simulated_def)
  moreover have "server_inv s'"
    using handle_entry_safe [OF i(1), of e] assms(2) s'(1) by (simp add: disciplined_def)
  ultimately show ?thesis using lobby_ok_steps i(2) by (auto simp: play_inv_def)
qed

interpretation fair_play: invariant_step handle_entry disciplined play_inv "\<lambda>e. False"
  by unfold_locales (use handle_entry_play in fastforce)+

lemma play_inv_init:
  assumes "uheap s = Map.empty" and "cheap s = Map.empty" and "out s = []"
  shows "play_inv (model_init s)"
proof -
  have "players_of (model_init s) i = None" "duels_of (model_init s) i = None" for i
    by (simp_all add: players_of_def duels_of_def find_id_def find_ch_def model_init_def tfind_def)
  then have "lobby (model_init s) = (Map.empty, Map.empty)" by (auto simp: lobby_def)
  with server_inv_init [OF assms] lobby_ok_empty show ?thesis by (simp add: play_inv_def)
qed

end
