(* ===== verification/Scenarios.thy ===== *)
theory Scenarios imports ServerProgress begin

text \<open>
  Concrete server states: an empty server, and two users, alice and bob, with at most
  one challenge. The witnesses of the properties evaluate the handlers on them.
\<close>

definition blank :: server_t where
  "blank = \<lparr>uheap = Map.empty, cheap = Map.empty, brk = 0, junk_fd = (\<lambda>_. -1),
     rnd = (\<lambda>i. of_nat i), rpos = 0, user_by_id = [], user_by_fd = [], user_by_nick = [],
     ch_by_id = [], user_cnt = 0, out = []\<rparr>"

definition alice :: "u32 \<Rightarrow> u16 \<Rightarrow> server_user_t" where
  "alice st c = \<lparr>u_nickname = [97], u_id = 5, u_score = 0, u_state = st, u_fd = 5, u_key = 11,
     u_chid = c\<rparr>"

definition bob :: "u32 \<Rightarrow> u16 \<Rightarrow> server_user_t" where
  "bob st c = \<lparr>u_nickname = [98], u_id = 6, u_score = 0, u_state = st, u_fd = 6, u_key = 22,
     u_chid = c\<rparr>"

definition duel :: "u16 \<Rightarrow> u16 \<Rightarrow> challenge_state_t \<Rightarrow> challenge_t" where
  "duel a b st = \<lparr>ch_id = 9, user1 = a, user2 = b, turn_no = 1, acted1 = False, acted2 = False,
     act1 = 0, act2 = 0, hp1 = 10, hp2 = 10, maxhp1 = 10, maxhp2 = 10, ch_state = st\<rparr>"

definition scene :: "u32 \<Rightarrow> u16 \<Rightarrow> challenge_t option \<Rightarrow> server_t" where
  "scene st c d = \<lparr>uheap = [0 \<mapsto> alice st c, 1 \<mapsto> bob st c],
     cheap = (case d of None \<Rightarrow> Map.empty | Some x \<Rightarrow> [2 \<mapsto> x]), brk = 3, junk_fd = (\<lambda>_. -1),
     rnd = (\<lambda>i. of_nat i), rpos = 0, user_by_id = [0, 1], user_by_fd = [0, 1],
     user_by_nick = [0, 1], ch_by_id = (case d of None \<Rightarrow> [] | Some _ \<Rightarrow> [2]), user_cnt = 2,
     out = []\<rparr>"

lemma blank_fields [simp]:
  "uheap blank = Map.empty" "cheap blank = Map.empty" "out blank = []"
  by (simp_all add: blank_def)

lemma alice_fields [simp]:
  "u_nickname (alice st c) = [97]" "u_id (alice st c) = 5" "u_score (alice st c) = 0"
  "u_state (alice st c) = st" "u_fd (alice st c) = 5" "u_key (alice st c) = 11" "u_chid (alice st c) = c"
  by (simp_all add: alice_def)

lemma bob_fields [simp]:
  "u_nickname (bob st c) = [98]" "u_id (bob st c) = 6" "u_score (bob st c) = 0"
  "u_state (bob st c) = st" "u_fd (bob st c) = 6" "u_key (bob st c) = 22" "u_chid (bob st c) = c"
  by (simp_all add: bob_def)

lemma scene_fields [simp]:
  "uheap (scene st c d) = [0 \<mapsto> alice st c, 1 \<mapsto> bob st c]"
  "cheap (scene st c (Some x)) = [2 \<mapsto> x]" "cheap (scene st c None) = Map.empty"
  "user_by_id (scene st c d) = [0, 1]" "user_by_fd (scene st c d) = [0, 1]"
  "user_by_nick (scene st c d) = [0, 1]" "ch_by_id (scene st c (Some x)) = [2]"
  "ch_by_id (scene st c None) = []" "brk (scene st c d) = 3" "user_cnt (scene st c d) = 2"
  "out (scene st c d) = []" "rnd (scene st c d) = (\<lambda>i. of_nat i)" "rpos (scene st c d) = 0"
  "junk_fd (scene st c d) = (\<lambda>_. -1)"
  by (simp_all add: scene_def)

lemma duel_fields [simp]:
  "ch_id (duel a b st) = 9" "user1 (duel a b st) = a" "user2 (duel a b st) = b"
  "ch_state (duel a b st) = st" "turn_no (duel a b st) = 1"
  "\<not> acted1 (duel a b st)" "\<not> acted2 (duel a b st)" "hp1 (duel a b st) = 10" "hp2 (duel a b st) = 10"
  by (simp_all add: duel_def)

lemma ch_wf_duel: "a \<noteq> b \<Longrightarrow> ch_wf (duel a b st)"
  by (simp add: ch_wf_def duel_def MAXHP_def)

lemma scene_users_ok: "users_ok (scene st c d)"
proof -
  have "strncasecmp [97] [98] (Suc 31) = -1"
    unfolding strncasecmp.simps Let_def
    by (simp add: tolower_def isupper_def word_le_nat_alt)
  then have "cmp_by_nick (alice st c) (bob st c) < 0"
    by (simp add: cmp_by_nick_def nick_cmp_def NICKNAME_LEN_def)
  then show ?thesis
    by (auto simp: users_ok_def tree_ok_Cons less_at_def cmp_by_id_def cmp_by_fd_def c_compare_def
        user_wf_def NICKNAME_LEN_def MAX_USER_COUNT_def split: if_splits)
qed

lemma scene_inv:
  assumes "st = UONLINE \<or> st = UBATTLING" and "d = None \<or> (\<exists>x. d = Some x \<and> ch_wf x)"
  shows "server_inv (scene st c d)"
proof -
  have "chs_ok (scene st c d)" "ch_vals_ok (scene st c d)"
    using assms(2) by (auto simp: chs_ok_def ch_vals_ok_def tree_ok_Cons split: if_splits)
  moreover have "states_ok (scene st c d)" "outs_ok (scene st c d)"
    using assms(1) by (auto simp: states_ok_def outs_ok_def split: if_splits)
  ultimately show ?thesis using scene_users_ok by (simp add: server_inv_def)
qed

lemma scene_find [simp]:
  "find_id 5 (scene st c d) = Some 0" "find_id 6 (scene st c d) = Some 1"
  "i \<noteq> 5 \<Longrightarrow> i \<noteq> 6 \<Longrightarrow> find_id i (scene st c d) = None"
  "find_fd 5 (scene st c d) = Some 0" "find_fd 6 (scene st c d) = Some 1"
  "f \<noteq> 5 \<Longrightarrow> f \<noteq> 6 \<Longrightarrow> find_fd f (scene st c d) = None"
  "find_ch 9 (scene st c (Some (duel a b s))) = Some 2"
  "j \<noteq> 9 \<Longrightarrow> find_ch j (scene st c (Some (duel a b s))) = None"
  "find_ch j (scene st c None) = None"
  by (simp_all add: find_id_def find_fd_def find_ch_def tfind_def matches_def key_user_def
      zero_challenge_def)

text \<open>A single user, with a given id.\<close>

definition solo :: "u16 \<Rightarrow> server_t" where
  "solo i = blank\<lparr>uheap := [0 \<mapsto> (alice UONLINE 0)\<lparr>u_id := i\<rparr>], brk := 1, user_by_id := [0],
     user_by_fd := [0], user_by_nick := [0], user_cnt := 1\<rparr>"

lemma solo_inv: "server_inv (solo i)"
  by (auto simp: server_inv_def users_ok_def chs_ok_def states_ok_def ch_vals_ok_def outs_ok_def
      solo_def blank_def tree_ok_Cons user_wf_def NICKNAME_LEN_def MAX_USER_COUNT_def split: if_splits)

lemma solo_find [simp]: "find_id i (solo i) = Some 0"
  by (simp add: find_id_def solo_def tfind_def matches_def key_user_def)

lemma nick_cmp_iff: "nick_cmp s t = 0 \<longleftrightarrow> map tolower (take 32 (cstr s)) = map tolower (take 32 (cstr t))"
  by (simp add: nick_cmp_def NICKNAME_LEN_def strncasecmp_eq_0_iff)

end
