(* ===== verification/Battle.thy ===== *)
theory Battle imports ServerInv begin

text \<open>
  A battle as the server plays it: turn after turn both sides act, \<open>judge_turn\<close>'s
  arithmetic is applied, and the battle is over as soon as there is a winner.
\<close>

text \<open>Both actions of a turn, recorded as \<open>handle_turn\<close> does, and the random number.\<close>

type_synonym turn = "u32 \<times> u32 \<times> nat"

definition with_actions :: "turn \<Rightarrow> challenge_t \<Rightarrow> challenge_t" where
  "with_actions t ch =
     (case t of (a, b, r) \<Rightarrow> ch\<lparr>act1 := a, acted1 := True, act2 := b, acted2 := True\<rparr>)"

fun battle :: "turn list \<Rightarrow> challenge_t \<Rightarrow> challenge_t option" where
  "battle [] ch = Some ch"
| "battle ((a, b, r) # ts) ch =
     (let ch' = judged r (with_actions (a, b, r) ch)
      in case judge_winner (-1) ch' of None \<Rightarrow> battle ts ch' | Some w \<Rightarrow> None)"

fun decisive :: "turn \<Rightarrow> bool" where
  "decisive (a, b, r) = (get_turn_result a b \<noteq> TR_EVEN)"

lemma judged_turn_no: "turn_no ch \<noteq> 0 \<Longrightarrow> turn_no (judged r ch) = turn_no ch + 1"
  by (simp add: judged_def judge_advance_def judge_damage_def Let_def split: prod.split)

text \<open>
  The damage of a decisive turn: between 1 and 5 points for the loser and none for the
  winner. A turn with number 0, which happens again after 65535 turns, forgets the actions.
\<close>

lemma judged_acted_hp:
  assumes "turn_no ch \<noteq> 0"
  shows "hp1 (judged r (with_actions (a, b, r) ch)) =
      hp1 ch - (if get_turn_result a b = TR_LOSE then of_nat (r mod 5 + 1) else 0)"
    and "hp2 (judged r (with_actions (a, b, r) ch)) =
      hp2 ch - (if get_turn_result a b = TR_WIN then of_nat (r mod 5 + 1) else 0)"
  using assms
  by (simp_all add: with_actions_def judged_def judge_advance_def judge_damage_def Let_def
      split: turn_result_t.split)

lemma judged_decisive:
  assumes "ch_wf ch" and "turn_no ch \<noteq> 0" and "get_turn_result a b \<noteq> TR_EVEN"
  shows "sint (hp1 (judged r (with_actions (a, b, r) ch))) +
      sint (hp2 (judged r (with_actions (a, b, r) ch))) \<le> sint (hp1 ch) + sint (hp2 ch) - 1"
proof -
  have hp: "sint (hp1 ch) \<in> {1..10}" "sint (hp2 ch) \<in> {1..10}" using assms(1) by (simp_all add: ch_wf_def)
  have d: "r mod 5 + 1 \<le> 5" using mod_less_divisor [of 5 r] by linarith
  show ?thesis
    using sint_diff_small [OF hp(1) d] sint_diff_small [OF hp(2) d] assms(3)
    by (cases "get_turn_result a b") (simp_all add: judged_acted_hp [OF assms(2)])
qed

lemma ch_wf_with_actions: "ch_wf ch \<Longrightarrow> ch_wf (with_actions t ch)"
  by (cases t) (simp add: ch_wf_def with_actions_def)

lemma turn_no_with_actions [simp]: "turn_no (with_actions t ch) = turn_no ch"
  by (cases t) (simp add: with_actions_def)

lemma unat_turn_no_Suc: "unat (x :: u16) < 65535 \<Longrightarrow> unat (x + 1) = Suc (unat x)"
  by (simp add: unat_word_ariths)

lemma battle_hp:
  assumes "ch_wf ch" and "list_all decisive ts" and "turn_no ch \<noteq> 0"
    and "unat (turn_no ch) + length ts \<le> 65535" and "battle ts ch = Some ch'"
  shows "ch_wf ch' \<and>
    sint (hp1 ch') + sint (hp2 ch') + int (length ts) \<le> sint (hp1 ch) + sint (hp2 ch)"
  using assms
proof (induction ts arbitrary: ch)
  case Nil
  then show ?case by simp
next
  case (Cons t ts)
  obtain a b r where t: "t = (a, b, r)" by (cases t)
  let ?ch = "judged r (with_actions (a, b, r) ch)"
  have w: "judge_winner (-1) ?ch = None" and b: "battle ts ?ch = Some ch'"
    using Cons.prems(5) by (auto simp: t Let_def split: option.splits)
  have n: "turn_no ?ch = turn_no ch + 1" using Cons.prems(3) by (simp add: judged_turn_no)
  have "unat (turn_no ch) < 65535" using Cons.prems(4) by simp
  then have u: "unat (turn_no ?ch) = Suc (unat (turn_no ch))" using n by (simp add: unat_turn_no_Suc)
  have "ch_wf ?ch" by (rule ch_wf_judged [OF ch_wf_with_actions [OF Cons.prems(1)] w])
  moreover have "turn_no ?ch \<noteq> 0" using u by auto
  moreover have "unat (turn_no ?ch) + length ts \<le> 65535" using u Cons.prems(4) by simp
  ultimately have "ch_wf ch' \<and>
      sint (hp1 ch') + sint (hp2 ch') + int (length ts) \<le> sint (hp1 ?ch) + sint (hp2 ?ch)"
    using Cons.IH [OF _ _ _ _ b] Cons.prems(2) by simp
  with judged_decisive [OF Cons.prems(1,3), of a b r] Cons.prems(2) t show ?case by simp
qed


text \<open>A battle between users 5 and 6 before its first turn, 19 times paper against rock.\<close>

definition first_turn :: challenge_t where
  "first_turn = zero_challenge\<lparr>ch_id := 9, user1 := 5, user2 := 6, turn_no := 1, hp1 := 10,
     hp2 := 10, maxhp1 := 10, maxhp2 := 10\<rparr>"


end
