(* ===== verification/ServerProps.thy ===== *)
theory ServerProps imports Scenarios Battle begin

text \<open>
  What the server guarantees, and where it fails: the properties of \<open>server/server.c\<close>,
  each with a concrete instance.
\<close>

section \<open>Runs\<close>

definition hello :: message_t where "hello = make_join [97]"

definition hello_join :: msg_join_t where
  "hello_join = \<lparr>j_nickname = snprintf_s (zeros NICKNAME_LEN) NICKNAME_LEN [97]\<rparr>"

lemma hello_ok [simp]: "wf_message hello" "m_body hello = Join hello_join"
  by (simp_all add: hello_def wf_make_join) (simp add: make_join_def hello_join_def)

text \<open>
  C3: from the empty server, whatever clients send, no handler follows a dangling
  pointer, and every state that is reached satisfies the invariant: the three user
  trees hold the same users in order without duplicate ids, descriptors or nicknames,
  the count is right, every challenge has two different users and between 1 and 10
  hit points on both sides, and all messages sent are well-formed.
\<close>

theorem server_run_invariant:
  assumes "uheap s = Map.empty" and "cheap s = Map.empty" and "out s = []"
    and "list_all entry_ok es"
  shows "server_run es (model_init s) \<noteq> Inl UseAfterFree \<and>
    (\<forall>s'. server_run es (model_init s) = Inr s' \<longrightarrow> server_inv s')"
  using server_run_safe [OF server_inv_init [OF assms(1-3)] assms(4)]
  by (auto simp: safe_result_def)

theorem server_run_invariant_witness:
  "safe_result (server_run [EMSG 5 hello, EMSG 5 hello, EDISCONN 5] (model_init blank))"
  using server_run_invariant [of blank "[EMSG 5 hello, EMSG 5 hello, EDISCONN 5]"]
  by (auto simp: entry_ok_def safe_result_def split: sum.split)

text \<open>
  C4: if every entry respects the protocol in the state in which it is handled, the
  server never stops: no assertion fails and no null pointer is dereferenced. The
  lobby is consistent in the end: users in a battle and battles under way match.
\<close>

theorem disciplined_run_never_stops:
  assumes "uheap s = Map.empty" and "cheap s = Map.empty" and "out s = []"
    and "run_admitted handle_entry disciplined es (model_init s)"
  shows "\<exists>s'. server_run es (model_init s) = Inr s' \<and> server_inv s' \<and> lobby_ok (lobby s')"
  using fair_play.run_result [OF play_inv_init [OF assms(1-3)] assms(4)]
  by (auto simp: server_run_def play_inv_def split: sum.splits)

theorem disciplined_run_never_stops_witness:
  "\<exists>s'. server_run [EMSG 5 hello, EDISCONN 5] (model_init blank) = Inr s' \<and> server_inv s' \<and>
     lobby_ok (lobby s')"
proof (rule disciplined_run_never_stops)
  have "disciplined (EMSG 5 hello) (model_init blank)"
    by (simp add: disciplined_def entry_ok_def find_fd_def find_id_def tfind_def model_init_def)
  moreover have "disciplined (EDISCONN 5) s" for s by (simp add: disciplined_def entry_ok_def)
  ultimately show "run_admitted handle_entry disciplined [EMSG 5 hello, EDISCONN 5] (model_init blank)"
    by (simp split: sum.split)
qed simp_all

text \<open>
  C5: the handlers implement the lobby of \<open>Lobby\<close>: an entry that respects the protocol
  is handled without a fault, and what it does to the users' states and to the duels
  are steps of the abstract machine.
\<close>

theorem handle_entry_refines_lobby:
  assumes "server_inv s" and "lobby_ok (lobby s)" and "disciplined e s"
  shows "\<exists>s'. handle_entry e s = Inr s' \<and> server_inv s' \<and> lobby_step\<^sup>*\<^sup>* (lobby s) (lobby s')"
  using handle_entry_sim [OF assms] handle_entry_safe [OF assms(1), of e] assms(3)
  by (auto simp: simulated_def disciplined_def)

text \<open>The lobby of the scene in which alice and bob are in a battle.\<close>

lemma lobby_fight: "lobby (scene UBATTLING 9 (Some (duel 5 6 STARTED))) =
    ([5 \<mapsto> (UBATTLING, 9), 6 \<mapsto> (UBATTLING, 9)], [9 \<mapsto> (5, 6, STARTED)])"
proof -
  let ?s = "scene UBATTLING 9 (Some (duel 5 6 STARTED))"
  have "players_of ?s i = [5 \<mapsto> (UBATTLING, 9), 6 \<mapsto> (UBATTLING, 9)] i" for i
    by (cases "i = 5"; cases "i = 6") (simp_all add: players_of_def)
  moreover have "duels_of ?s i = [9 \<mapsto> (5, 6, STARTED)] i" for i
    by (cases "i = 9") (simp_all add: duels_of_def)
  ultimately show ?thesis by (simp add: lobby_def fun_eq_iff)
qed

lemma lobby_ok_fight: "lobby_ok (lobby (scene UBATTLING 9 (Some (duel 5 6 STARTED))))"
  unfolding lobby_fight by (rule lobby_okI) (auto split: if_splits)

theorem handle_entry_refines_lobby_witness:
  "\<exists>s'. handle_entry (EDISCONN 6) (scene UBATTLING 9 (Some (duel 5 6 STARTED))) = Inr s' \<and>
     server_inv s' \<and>
     lobby_step\<^sup>*\<^sup>* ([5 \<mapsto> (UBATTLING, 9), 6 \<mapsto> (UBATTLING, 9)], [9 \<mapsto> (5, 6, STARTED)]) (lobby s')"
  using handle_entry_refines_lobby [OF scene_inv lobby_ok_fight, of "EDISCONN 6"]
  by (simp add: ch_wf_duel lobby_fight disciplined_def entry_ok_def)

section \<open>How the server can be stopped\<close>

text \<open>
  C12: \<open>judge_turn\<close> stops the server exactly if one of the two users of the challenge has
  left; it then dereferences a null pointer.
\<close>

theorem judge_turn_fault_iff:
  assumes "server_inv s" and "pch \<in> set (ch_by_id s)" and "cheap s pch = Some ch"
  shows "judge_turn pch f s = Inl e \<longleftrightarrow>
    e = NullDeref \<and> (find_id (user1 ch) s = None \<or> find_id (user2 ch) s = None)"
  using judge_turn_result [OF assms, of f] by auto

theorem judge_turn_fault_iff_witness:
  "judge_turn 2 (-1) (scene UONLINE 9 (Some (duel 7 6 ASKING))) = Inl NullDeref"
  using judge_turn_fault_iff [of "scene UONLINE 9 (Some (duel 7 6 ASKING))" 2 "duel 7 6 ASKING" "-1"
      NullDeref]
  by (simp add: scene_inv ch_wf_duel)

text \<open>
  C13: \<open>C_ACCEPT\<close> does not compare the users it names with those of the challenge: with
  its own valid key an online user accepts, in the name of any online user, a challenge
  of which a user has left, and this stops the server.
\<close>

theorem stale_accept_stops_server:
  assumes "server_inv s"
    and "find_id (c_id1 c) s = Some p1" and "uheap s p1 = Some usr1" and "u_state usr1 = UONLINE"
    and "find_id (c_id2 c) s = Some p2" and "uheap s p2 = Some usr2" and "u_state usr2 = UONLINE"
    and "c_action c = C_ACCEPT" and "c_key c = u_key usr2"
    and "find_ch (c_chid c) s = Some pch" and "cheap s pch = Some ch" and "ch_state ch = ASKING"
    and "find_id (user1 ch) s = None \<or> find_id (user2 ch) s = None"
  shows "handle_challenge fd c s = Inl NullDeref"
proof -
  have "p1 \<in> set (user_by_id s)" "p2 \<in> set (user_by_id s)" "pch \<in> set (ch_by_id s)"
    using assms(2,5,10) by (auto elim: find_id_SomeE find_ch_SomeE)
  from challenge_accept_crash [OF assms(1) this(3) assms(11,3,6) this(1,2) assms(4,7,13)] assms
  show ?thesis by (simp add: handle_challenge_def challenge_signer_def)
qed

definition accept_req :: msg_challenge_t where
  "accept_req = \<lparr>c_id1 = 5, c_id2 = 6, c_key = 22, c_chid = 9, c_action = C_ACCEPT\<rparr>"

theorem stale_accept_stops_server_witness:
  "handle_challenge 6 accept_req (scene UONLINE 9 (Some (duel 7 6 ASKING))) = Inl NullDeref"
  by (rule stale_accept_stops_server [of _ _ 0 "alice UONLINE 9" 1 "bob UONLINE 9" 2 "duel 7 6 ASKING"])
     (simp_all add: scene_inv ch_wf_duel accept_req_def)

section \<open>Joining\<close>

text \<open>
  C14: \<open>JOIN\<close> stops the server exactly if it passes the tests of \<open>user_add\<close> and the
  descriptor, or the id made from it, is that of a user. The test that is meant to refuse
  a second \<open>JOIN\<close> on a connection reads the \<open>fd\<close> field of the new block before it is set.
\<close>

theorem handle_join_fault_iff:
  assumes "server_inv s" and "0 \<le> fd"
  shows "handle_join fd j s = Inl e \<longleftrightarrow> e = AssertFailed \<and> \<not> join_blocked fd (j_nickname j) s \<and>
    (find_id (join_id fd) s \<noteq> None \<or> find_fd fd s \<noteq> None)"
proof (cases "user_add fd (j_nickname j) s")
  case (Inl e')
  with user_add_fault_iff [OF server_invD(1) [OF assms(1)], of fd "j_nickname j"] show ?thesis
    by (auto simp: handle_join_def)
next
  case (Inr x)
  obtain s' where "handle_join fd j s = Inr s'"
    using handle_join_safe [OF assms, of j] Inr user_add_outcome [OF server_invD(1) [OF assms(1)], of fd "j_nickname j"]
      handle_join_ok [OF server_invD(1) [OF assms(1)] assms(2), of j]
      handle_join_err [of fd j s]
    by (cases x) (fastforce split: if_splits)
  with Inr user_add_fault_iff [OF server_invD(1) [OF assms(1)], of fd "j_nickname j" e] show ?thesis
    by auto
qed

text \<open>Alice sends \<open>JOIN\<close> again, with another nickname, on her connection.\<close>

theorem handle_join_fault_iff_witness:
  "handle_join 5 \<lparr>j_nickname = [120]\<rparr> (scene UONLINE 0 None) = Inl AssertFailed"
proof -
  have "\<not> join_blocked 5 [120] (scene UONLINE 0 None)"
    by (simp add: join_blocked_def nick_taken_def nick_cmp_iff MAX_USER_COUNT_def tolower_def
        isupper_def word_le_nat_alt)
  then show ?thesis
    using handle_join_fault_iff [of "scene UONLINE 0 None" 5 "\<lparr>j_nickname = [120]\<rparr>" AssertFailed]
    by (simp add: scene_inv)
qed



text \<open>
  C19: a \<open>JOIN\<close> that is not refused adds the user: they are found by id and by
  descriptor, with the nickname asked for, cut to 31 bytes. The new user gets the reply
  with id and key and then, in messages of at most 16 entries, the data of every user,
  in the order of their ids; every other user gets the data of the new one.
\<close>

theorem handle_join_announces:
  assumes "server_inv s" and "0 \<le> fd" and "\<not> join_blocked fd (j_nickname j) s"
    and "find_id (join_id fd) s = None" and "find_fd fd s = None"
  shows "\<exists>s' p u bs. handle_join fd j s = Inr s' \<and> uheap s' p = Some u \<and>
    find_id (join_id fd) s' = Some p \<and> find_fd fd s' = Some p \<and>
    u_nickname u = take 31 (cstr (j_nickname j)) \<and>
    set (user_by_id s') = insert p (set (user_by_id s)) \<and>
    out s' = out s @ [(fd, make_join_r (j_nickname j) ME_OK (join_id fd) (u_key u))]
      @ map (\<lambda>b. (fd, uchange_msg b)) bs @ to_all s' fd (uchange_msg [entry_of s' p]) \<and>
    list_all (\<lambda>b. length b \<le> 16) bs \<and> concat bs = map (entry_of s') (user_by_id s')"
proof -
  note ok = server_invD(1) [OF assms(1)]
  obtain s1 where a: "user_add fd (j_nickname j) s = Inr (Some (brk s), ME_OK, s1)"
    using user_add_outcome [OF ok, of fd "j_nickname j"] assms(3-5) by auto
  note c = user_add_cases [OF ok assms(2) a]
  then obtain u where u: "uheap s1 (brk s) = Some u" "u_fd u = fd" "u_id u = join_id fd"
    "u_nickname u = take 31 (cstr (j_nickname j))"
    and set: "set (user_by_id s1) = insert (brk s) (set (user_by_id s))" by auto
  have ok1: "users_ok s1" using c by simp
  have p: "brk s \<in> set (user_by_id s1)" using set by simp
  obtain bs d where b: "batch [] (map (entry_of s1) (user_by_id s1)) = (bs, d)" by fastforce
  let ?s' = "s1\<lparr>out := out s1 @ join_outs s1 fd (j_nickname j) (brk s)\<rparr>"
  have f: "find_id i ?s' = find_id i s1" "find_fd g ?s' = find_fd g s1" for i g
    by (simp_all add: find_id_def find_fd_def)
  show ?thesis
  proof (intro exI [of _ ?s'] exI [of _ "brk s"] exI [of _ u] exI [of _ "bs @ [d]"] conjI)
    show "handle_join fd j s = Inr ?s'" by (rule handle_join_ok [OF ok assms(2) a])
    show "find_id (join_id fd) ?s' = Some (brk s)" using f find_id_eq [OF ok1 p u(1)] u(3) by simp
    show "find_fd fd ?s' = Some (brk s)" using f find_fd_eq [OF ok1 p u(1)] u(2) by simp
    show "list_all (\<lambda>b. length b \<le> 16) (bs @ [d])"
      using batch_full [OF b] by (auto simp: list_all_iff)
    show "concat (bs @ [d]) = map (entry_of ?s') (user_by_id ?s')" using batch_concat [OF b] by simp
    show "out ?s' = out s @ [(fd, make_join_r (j_nickname j) ME_OK (join_id fd) (u_key u))]
        @ map (\<lambda>b. (fd, uchange_msg b)) (bs @ [d]) @ to_all ?s' fd (uchange_msg [entry_of ?s' (brk s)])"
      using c u b by (simp add: join_outs_def)
  qed (use u set in simp_all)
qed

theorem handle_join_announces_witness:
  "\<exists>s' p u bs. handle_join 7 \<lparr>j_nickname = [120]\<rparr> (scene UONLINE 0 None) = Inr s' \<and>
    uheap s' p = Some u \<and> find_id (join_id 7) s' = Some p \<and> find_fd 7 s' = Some p \<and>
    u_nickname u = [120] \<and> set (user_by_id s') = {p, 0, 1} \<and>
    out s' = [(7, make_join_r [120] ME_OK (join_id 7) (u_key u))]
      @ map (\<lambda>b. (7, uchange_msg b)) bs @ to_all s' 7 (uchange_msg [entry_of s' p]) \<and>
    list_all (\<lambda>b. length b \<le> 16) bs \<and> concat bs = map (entry_of s') (user_by_id s')"
proof -
  have "\<not> join_blocked 7 [120] (scene UONLINE 0 None)"
    by (simp add: join_blocked_def nick_taken_def nick_cmp_iff MAX_USER_COUNT_def tolower_def
        isupper_def word_le_nat_alt)
  moreover have "join_id 7 = 7" by (simp add: join_id_def c_rem_def UINT16_MAX_def)
  ultimately show ?thesis
    using handle_join_announces [of "scene UONLINE 0 None" 7 "\<lparr>j_nickname = [120]\<rparr>"]
    by (simp add: scene_inv)
qed

section \<open>Leaving\<close>

lemma to_all_everyone:
  assumes "users_ok s"
  shows "to_all s (-1) m = map (\<lambda>p. (fd_of s p, m)) (user_by_id s)"
proof -
  have "filter (\<lambda>p. fd_of s p \<noteq> -1) (user_by_id s) = user_by_id s"
    using users_ok_live [OF assms] users_okD(8) [OF assms]
    by (intro filter_True) (fastforce simp: fd_of_def user_wf_def)
  then show ?thesis by (simp add: to_all_def)
qed

lemma find_gone:
  assumes "users_ok s" and "users_ok s'" and "p \<in> set (user_by_id s)" and "uheap s p = Some u"
    and "set (user_by_id s') = set (user_by_id s) - {p}" and "uheap s' = (uheap t)(p := None)"
    and "keeps s t"
  shows "find_id (u_id u) s' = None" and "find_fd (u_fd u) s' = None"
proof -
  have stays: "\<exists>v. uheap s q = Some v \<and> same_identity v w \<and> q \<in> set (user_by_id s) \<and> q \<noteq> p"
    if "q \<in> set (user_by_id s')" "uheap s' q = Some w" for q w
    using that assms(5,6) keeps_heap_back [OF assms(7), of q w] by auto
  show "find_id (u_id u) s' = None"
  proof (rule ccontr)
    assume "find_id (u_id u) s' \<noteq> None"
    then obtain q where "find_id (u_id u) s' = Some q" by auto
    then obtain w where w: "q \<in> set (user_by_id s')" "uheap s' q = Some w" "u_id w = u_id u"
      by (rule find_id_SomeE)
    from stays [OF w(1,2)] w(3) user_ids_unique [OF assms(1) _ assms(3) _ assms(4)]
    show False by (auto simp: same_identity_def)
  qed
  show "find_fd (u_fd u) s' = None"
  proof (rule ccontr)
    assume "find_fd (u_fd u) s' \<noteq> None"
    then obtain q where "find_fd (u_fd u) s' = Some q" by auto
    then obtain w where w: "q \<in> set (user_by_fd s')" "uheap s' q = Some w" "u_fd w = u_fd u"
      by (rule find_fd_SomeE)
    then have "q \<in> set (user_by_id s')" using users_okD(4) [OF assms(2)] by simp
    from stays [OF this w(2)] w(3) obtain v where v: "uheap s q = Some v" "u_fd v = u_fd u"
      "q \<in> set (user_by_id s)" "q \<noteq> p" by (auto simp: same_identity_def)
    with find_fd_eq [OF assms(1) v(3,1)] find_fd_eq [OF assms(1,3,4)] show False by simp
  qed
qed

text \<open>
  When the connection of a user who is not in a battle closes, everybody, the
  leaving user included, is told that they are offline, and they are taken out of the
  tables.
\<close>

theorem disconnect_online:
  assumes "server_inv s" and "find_fd fd s = Some p" and "uheap s p = Some u"
    and "u_state u = UONLINE"
  shows "\<exists>s'. handle_disconnect fd s = Inr s' \<and>
    user_by_id s' = remove1 p (user_by_id s) \<and> user_cnt s' = user_cnt s - 1 \<and>
    find_id (u_id u) s' = None \<and> find_fd fd s' = None \<and>
    out s' = out s @ map (\<lambda>q. (fd_of s q,
      uchange_msg [uchange_entry (u_nickname u) (u_id u) UOFFLINE (u_score u)])) (user_by_id s)"
proof -
  note ok = server_invD(1) [OF assms(1)]
  have p: "p \<in> set (user_by_id s)" "u_fd u = fd"
    using assms(2,3) users_okD(4) [OF ok] by (auto elim!: find_fd_SomeE)
  let ?s1 = "set_user p (u\<lparr>u_state := UOFFLINE\<rparr>) s"
  let ?m = "uchange_msg [uchange_entry (u_nickname u) (u_id u) UOFFLINE (u_score u)]"
  have k: "keeps s ?s1" by (rule keeps_set_user [OF assms(3)]) (simp add: same_identity_def)
  have ok1: "users_ok ?s1" by (rule users_ok_keeps [OF ok k])
  have fd: "fd_of ?s1 = fd_of s" using assms(3) by (simp add: fd_of_def fun_eq_iff)
  have cm: "change_msg ?s1 (Some p) None = ?m"
    by (simp add: change_msg_def opt_entries_def entry_of_def)
  let ?s2 = "?s1\<lparr>out := out ?s1 @ map (\<lambda>q. (fd_of ?s1 q, ?m)) (user_by_id ?s1)\<rparr>"
  have b: "broadcast_user_changes (Some p) None ?s1 = Inr ?s2"
    using broadcast_eq [OF ok1, of "Some p" None] by (simp add: to_all_everyone [OF ok1] cm)
  obtain s' where s': "user_del_and_destroy p ?s2 = Inr s'" "users_ok s'"
    "user_by_id s' = remove1 p (user_by_id ?s2)"
    "set (user_by_id s') = set (user_by_id ?s2) - {p}" "uheap s' = (uheap ?s2)(p := None)"
    "out s' = out ?s2"
    using user_del_eq [of ?s2 p] ok1 p(1) by auto
  have "handle_disconnect fd s = Inr s'"
    using quit_user_eq [OF ok p(1) assms(3)] assms(2-4) b s'(1)
    by (simp add: handle_disconnect_def quit_tail_def)
  moreover have "find_id (u_id u) s' = None" "find_fd fd s' = None"
    using find_gone [OF ok s'(2) p(1) assms(3), of ?s2] s'(4,5) p(2) keeps_trans [OF k keeps_only_heap [of ?s2 ?s1]]
    by simp_all
  moreover have "user_cnt s' = user_cnt s - 1"
    using users_okD(6) [OF s'(2)] users_okD(6) [OF ok] s'(3) p(1) by (simp add: length_remove1)
  ultimately show ?thesis using s'(3,6) fd by auto
qed

theorem disconnect_online_witness:
  "\<exists>s'. handle_disconnect 5 (scene UONLINE 0 None) = Inr s' \<and> user_by_id s' = [1] \<and> user_cnt s' = 1 \<and>
    find_id 5 s' = None \<and> find_fd 5 s' = None \<and>
    out s' = [(5, uchange_msg [uchange_entry [97] 5 UOFFLINE 0]),
      (6, uchange_msg [uchange_entry [97] 5 UOFFLINE 0])]"
  using disconnect_online [of "scene UONLINE 0 None" 5 0 "alice UONLINE 0"]
  by (simp add: scene_inv fd_of_def)



section \<open>Telling the users\<close>

text \<open>
  \<open>broadcast_user_changes\<close> sends one message, with the current data of its users, to
  every user exactly once, in the order of their ids, and changes nothing else.
\<close>

theorem broadcast_reaches_everyone:
  assumes "server_inv s" and "p \<in> set (user_by_id s)" and "q \<in> set (user_by_id s)"
  shows "broadcast_user_changes (Some p) (Some q) s =
    Inr (s\<lparr>out := out s @
      map (\<lambda>r. (fd_of s r, uchange_msg [entry_of s p, entry_of s q])) (user_by_id s)\<rparr>) \<and>
    distinct (map (fd_of s) (user_by_id s))"
proof
  note ok = server_invD(1) [OF assms(1)]
  have "p \<in> dom (uheap s)" "q \<in> dom (uheap s)" using users_ok_live [OF ok] assms(2,3) by auto
  then show "broadcast_user_changes (Some p) (Some q) s =
    Inr (s\<lparr>out := out s @
      map (\<lambda>r. (fd_of s r, uchange_msg [entry_of s p, entry_of s q])) (user_by_id s)\<rparr>)"
    using broadcast_eq [OF ok, of "Some p" "Some q"]
    by (simp add: to_all_everyone [OF ok] change_msg_def opt_entries_def)
  have "inj_on (fd_of s) (set (user_by_id s))"
  proof (rule inj_onI)
    fix a b assume ab: "a \<in> set (user_by_id s)" "b \<in> set (user_by_id s)" "fd_of s a = fd_of s b"
    then obtain u v where "uheap s a = Some u" "uheap s b = Some v"
      using users_ok_live [OF ok] by blast
    with ab find_fd_eq [OF ok ab(1)] find_fd_eq [OF ok ab(2)] show "a = b"
      by (auto simp: fd_of_def)
  qed
  then show "distinct (map (fd_of s) (user_by_id s))"
    using by_id.tree_ok_distinct [OF users_okD(1) [OF ok]] by (simp add: distinct_map)
qed

theorem broadcast_reaches_everyone_witness:
  "broadcast_user_changes (Some 0) (Some 1) (scene UONLINE 0 None) =
    Inr ((scene UONLINE 0 None)\<lparr>out :=
      [(5, uchange_msg [uchange_entry [97] 5 1 0, uchange_entry [98] 6 1 0]),
       (6, uchange_msg [uchange_entry [97] 5 1 0, uchange_entry [98] 6 1 0])]\<rparr>)"
  using broadcast_reaches_everyone [of "scene UONLINE 0 None" 0 1]
  by (simp add: scene_inv fd_of_def entry_of_def)

section \<open>Who is believed\<close>

text \<open>The id and the key that a message claims to come from.\<close>

definition claimed :: "msg_body_t \<Rightarrow> (u16 \<times> u32) option" where
  "claimed b = (case b of Quit q \<Rightarrow> Some (qt_id q, qt_key q) | Turn t \<Rightarrow> Some (t_user t, t_key t)
     | Sendmsg sm \<Rightarrow> Some (sm_id sm, sm_key sm) | _ \<Rightarrow> None)"

definition authentic :: "server_t \<Rightarrow> u16 \<times> u32 \<Rightarrow> bool" where
  "authentic s x = (case find_id (fst x) s of None \<Rightarrow> False
     | Some p \<Rightarrow> (case uheap s p of None \<Rightarrow> False | Some u \<Rightarrow> u_key u = snd x))"

text \<open>
  C21: \<open>QUIT\<close>, \<open>TURN\<close> and \<open>SENDMSG\<close> with an unknown id or with a key that is not the one
  the server gave to that user have no effect at all.
\<close>

theorem unauthentic_ignored:
  assumes "claimed (m_body m) = Some x" and "\<not> authentic s x"
  shows "handle_entry (EMSG fd m) s = Inr s"
proof -
  consider "find_id (fst x) s = None" |
    p u where "find_id (fst x) s = Some p" "uheap s p = Some u" "u_key u \<noteq> snd x"
    using assms(2) by (cases "find_id (fst x) s") (auto simp: authentic_def elim: find_id_SomeE)
  then show ?thesis
    using assms(1)
    by cases (auto simp: claimed_def handle_entry_def handle_quit_def handle_turn_def
        handle_sendmsg_def split: option.splits msg_body_t.splits)
qed

theorem unauthentic_ignored_witness:
  "handle_entry (EMSG 6 \<lparr>m_kind = QUIT, m_len = 6, m_body = Quit \<lparr>qt_key = 22, qt_id = 5\<rparr>\<rparr>)
     (scene UONLINE 0 None) = Inr (scene UONLINE 0 None)"
  by (rule unauthentic_ignored [of _ "(5, 22)"]) (simp_all add: claimed_def authentic_def)

text \<open>
  A chat message with the right key goes to every user, its author included, as it
  came but for the key, which is zeroed.
\<close>

theorem sendmsg_relayed_without_key:
  assumes "server_inv s" and "m_body m = Sendmsg sm" and "authentic s (sm_id sm, sm_key sm)"
  shows "handle_entry (EMSG fd m) s = Inr (s\<lparr>out := out s @
    map (\<lambda>p. (fd_of s p, m\<lparr>m_body := Sendmsg (sm\<lparr>sm_key := 0\<rparr>)\<rparr>)) (user_by_id s)\<rparr>)"
proof -
  obtain p u where "find_id (sm_id sm) s = Some p" "uheap s p = Some u" "u_key u = sm_key sm"
    using assms(3) by (auto simp: authentic_def split: option.splits)
  from handle_sendmsg_eq [OF server_invD(1) [OF assms(1)] this] assms(2)
  show ?thesis by (simp add: handle_entry_def to_all_everyone [OF server_invD(1) [OF assms(1)]])
qed

theorem sendmsg_relayed_without_key_witness:
  "handle_entry (EMSG 5 \<lparr>m_kind = SENDMSG, m_len = 134,
      m_body = Sendmsg \<lparr>sm_id = 5, sm_key = 11, sm_text = zeros 128\<rparr>\<rparr>) (scene UONLINE 0 None) =
    Inr ((scene UONLINE 0 None)\<lparr>out :=
     [(5, \<lparr>m_kind = SENDMSG, m_len = 134, m_body = Sendmsg \<lparr>sm_id = 5, sm_key = 0, sm_text = zeros 128\<rparr>\<rparr>),
      (6, \<lparr>m_kind = SENDMSG, m_len = 134, m_body = Sendmsg \<lparr>sm_id = 5, sm_key = 0, sm_text = zeros 128\<rparr>\<rparr>)]\<rparr>)"
  using sendmsg_relayed_without_key [of "scene UONLINE 0 None" "\<lparr>m_kind = SENDMSG, m_len = 134,
      m_body = Sendmsg \<lparr>sm_id = 5, sm_key = 11, sm_text = zeros 128\<rparr>\<rparr>"
      "\<lparr>sm_id = 5, sm_key = 11, sm_text = zeros 128\<rparr>" 5]
  by (simp add: scene_inv authentic_def fd_of_def)

section \<open>Challenges\<close>

text \<open>
  The error a challenge request is refused with, in the order of the tests of
  \<open>handle_challenge\<close>; \<open>None\<close> if it is not refused.
\<close>

definition busy :: "server_user_t \<Rightarrow> bool" where
  "busy u \<longleftrightarrow> u_state u \<noteq> UONLINE"

definition user_at :: "u16 \<Rightarrow> server_t \<Rightarrow> server_user_t option" where
  "user_at i s = (case find_id i s of None \<Rightarrow> None | Some p \<Rightarrow> uheap s p)"

definition challenge_error :: "msg_challenge_t \<Rightarrow> server_t \<Rightarrow> u16 option" where
  "challenge_error c s = (case (user_at (c_id1 c) s, user_at (c_id2 c) s) of
     (Some u1, Some u2) \<Rightarrow>
       if c_action c \<notin> {C_START, C_REJECT, C_ACCEPT, C_CANCEL} then Some INVARG
       else if c_key c \<noteq> u_key (if c_action c \<in> {C_START, C_CANCEL} then u1 else u2) then Some ICKEY
       else if c_action c = C_START then
         (if busy u1 \<or> busy u2 then Some ENGAGED else if c_id1 c = c_id2 c then Some CHLSELF else None)
       else if c_action c = C_CANCEL then None
       else (case duels_of s (c_chid c) of
           None \<Rightarrow> Some NXCHID
         | Some (a, b, st) \<Rightarrow>
             if st = ASKING \<and> c_action c = C_ACCEPT \<and> (busy u1 \<or> busy u2) then Some ENGAGED
             else None)
   | _ \<Rightarrow> Some NXID)"

lemma user_at_find:
  "find_id i s = Some p \<Longrightarrow> uheap s p = Some u \<Longrightarrow> user_at i s = Some u"
  "find_id i s = None \<Longrightarrow> user_at i s = None"
  by (simp_all add: user_at_def)

lemma user_at_Some: "user_at i s = Some u \<Longrightarrow> \<exists>p. find_id i s = Some p \<and> uheap s p = Some u \<and> u_id u = i"
  by (auto simp: user_at_def split: option.splits elim!: find_id_SomeE)

text \<open>What \<open>handle_challenge\<close> does when both users exist; the second part is for \<open>C_ACCEPT\<close> and \<open>C_REJECT\<close>.\<close>

definition challenge_decide :: "int \<Rightarrow> msg_challenge_t \<Rightarrow> nat \<Rightarrow> nat \<Rightarrow> server_t \<Rightarrow> fault + server_t" where
  "challenge_decide fd c p1 p2 s = (case find_ch (c_chid c) s of
     None \<Rightarrow> Inr (send_msg fd (challenge_r_msg c NXCHID False) s)
   | Some pch \<Rightarrow> bind_r (deref_c pch s) (\<lambda>ch. if ch_state ch = STARTED then Inr s
       else if c_action c = C_ACCEPT then challenge_accept fd c p1 p2 pch s
       else challenge_reject c p1 p2 pch s))"

lemma handle_challenge_known:
  assumes "find_id (c_id1 c) s = Some p1" and "find_id (c_id2 c) s = Some p2"
    and "uheap s p1 = Some u1" and "uheap s p2 = Some u2"
  shows "handle_challenge fd c s = (case challenge_signer (c_action c) u1 u2 of
      None \<Rightarrow> Inr (send_msg fd (challenge_r_msg c INVARG False) s)
    | Some signer \<Rightarrow>
        if u_key signer \<noteq> c_key c then Inr (send_msg fd (challenge_r_msg c ICKEY False) s)
        else if c_action c = C_START then challenge_start fd c p1 p2 s
        else if c_action c = C_CANCEL then challenge_cancel fd c p1 s
        else challenge_decide fd c p1 p2 s)"
  unfolding challenge_decide_def using assms by (simp add: handle_challenge_def)

lemma challenge_decide_refused:
  assumes "c_action c = C_ACCEPT \<or> c_action c = C_REJECT" and "c_key c = u_key u2"
    and "user_at (c_id1 c) s = Some u1" and "user_at (c_id2 c) s = Some u2"
    and "uheap s p1 = Some u1" and "uheap s p2 = Some u2" and "challenge_error c s = Some e"
  shows "challenge_decide fd c p1 p2 s = Inr (send_msg fd (challenge_r_msg c e False) s)"
proof (cases "find_ch (c_chid c) s")
  case None
  then have "duels_of s (c_chid c) = None" by (simp add: duels_of_def)
  with None assms show ?thesis by (auto simp: challenge_decide_def challenge_error_def split: if_splits)
next
  case (Some q)
  then obtain ch where ch: "cheap s q = Some ch" by (rule find_ch_SomeE)
  then have "duels_of s (c_chid c) = Some (user1 ch, user2 ch, ch_state ch)"
    using Some by (simp add: duels_of_def)
  with assms have "ch_state ch = ASKING" "c_action c = C_ACCEPT" "busy u1 \<or> busy u2" "e = ENGAGED"
    by (auto simp: challenge_error_def split: if_splits)
  with Some ch challenge_accept_engaged [OF assms(5,6) ch, of fd c] show ?thesis
    by (simp add: challenge_decide_def busy_def)
qed

text \<open>
  C23: a challenge request that is refused is answered to its sender with that error,
  in one message that repeats the ids of the request; nothing else happens.
\<close>

theorem challenge_refused:
  assumes "server_inv s" and "challenge_error c s = Some e"
  shows "handle_challenge fd c s = Inr (send_msg fd (challenge_r_msg c e False) s)"
proof (cases "user_at (c_id1 c) s = None \<or> user_at (c_id2 c) s = None")
  case True
  then have "find_id (c_id1 c) s = None \<or> find_id (c_id2 c) s = None"
    using user_at_find(1) by (metis find_id_SomeE not_Some_eq)
  moreover have "e = NXID" using True assms(2) by (auto simp: challenge_error_def split: option.splits)
  ultimately show ?thesis by (auto simp: handle_challenge_def split: option.split)
next
  case False
  then obtain u1 u2 where ua: "user_at (c_id1 c) s = Some u1" "user_at (c_id2 c) s = Some u2" by auto
  obtain p1 p2 where p: "find_id (c_id1 c) s = Some p1" "find_id (c_id2 c) s = Some p2"
    and u: "uheap s p1 = Some u1" "uheap s p2 = Some u2" and id: "u_id u1 = c_id1 c" "u_id u2 = c_id2 c"
    using user_at_Some [OF ua(1)] user_at_Some [OF ua(2)] by blast
  note err = assms(2) [unfolded challenge_error_def ua prod.case option.case]
  show ?thesis
  proof (cases "c_key c = u_key u2 \<and> (c_action c = C_ACCEPT \<or> c_action c = C_REJECT)")
    case True
    then have "challenge_signer (c_action c) u1 u2 = Some u2" "c_action c \<noteq> C_START" "c_action c \<noteq> C_CANCEL"
      by (auto simp: challenge_signer_def)
    with challenge_decide_refused [OF _ _ ua u assms(2), of fd] True show ?thesis
      by (simp add: handle_challenge_known [OF p u])
  next
    case False
    with err u id show ?thesis unfolding handle_challenge_known [OF p u]
      by (auto simp: challenge_signer_def challenge_start_def busy_def split: if_splits)
  qed
qed

theorem challenge_refused_witness:
  "handle_challenge 6 (accept_req\<lparr>c_chid := 3\<rparr>) (scene UONLINE 9 (Some (duel 5 6 ASKING))) =
   Inr (send_msg 6 (challenge_r_msg (accept_req\<lparr>c_chid := 3\<rparr>) NXCHID False)
     (scene UONLINE 9 (Some (duel 5 6 ASKING))))"
  by (rule challenge_refused)
     (simp_all add: scene_inv ch_wf_duel accept_req_def challenge_error_def user_at_def duels_of_def)


definition start_req :: msg_challenge_t where
  "start_req = \<lparr>c_id1 = 5, c_id2 = 6, c_key = 11, c_chid = 0, c_action = C_START\<rparr>"

lemma scene_fresh_draw: "fresh_draw 16 (scene st c None)"
proof -
  have "fresh_draw (Suc 15) (scene st c None)" by (simp only: fresh_draw_Suc) simp
  then show ?thesis by simp
qed


lemma judged_zero: "turn_no ch = 0 \<Longrightarrow> judged r ch = ch\<lparr>acted1 := False, acted2 := False, turn_no := 1\<rparr>"
  by (simp add: judged_def judge_advance_def)

lemma ch_wf_no_winner: "ch_wf ch \<Longrightarrow> judge_winner (-1) ch = None"
proof -
  assume wf: "ch_wf ch"
  have "(-1 :: int) \<noteq> uint i" for i :: u16 using uint_ge_0 [of i] by linarith
  with wf show ?thesis by (simp add: judge_winner_def ch_wf_def)
qed

text \<open>
  \<open>C_ACCEPT\<close> of an open challenge, naming its two users, with the key of the one
  who was asked and both online, starts the battle: both are in it, both get the reply
  and then the first turn, with all hit points and no winner.
\<close>

lemma accept_starts:
  assumes "server_inv s" and "user_at (c_id1 c) s = Some u1" and "user_at (c_id2 c) s = Some u2"
    and "u_state u1 = UONLINE" and "u_state u2 = UONLINE"
    and "c_action c = C_ACCEPT" and "c_key c = u_key u2"
    and "find_ch (c_chid c) s = Some pch" and "cheap s pch = Some ch" and "ch_state ch = ASKING"
    and "user1 ch = c_id1 c" and "user2 ch = c_id2 c"
  shows "\<exists>s' ms m. handle_challenge fd c s = Inr s' \<and>
    lobby s' = ((players_of s)(c_id1 c \<mapsto> (UBATTLING, c_chid c), c_id2 c \<mapsto> (UBATTLING, c_chid c)),
      (duels_of s)(c_chid c \<mapsto> (c_id1 c, c_id2 c, STARTED))) \<and>
    m = turn_r_msg (ch\<lparr>ch_state := STARTED, acted1 := False, acted2 := False, turn_no := 1\<rparr>) None \<and>
    out s' = out s @ ms @ [(u_fd u1, challenge_r_msg c ME_OK True),
      (u_fd u2, challenge_r_msg c ME_OK False), (u_fd u1, m), (u_fd u2, m)]"
proof -
  obtain p1 p2 where p: "find_id (c_id1 c) s = Some p1" "find_id (c_id2 c) s = Some p2"
    "uheap s p1 = Some u1" "uheap s p2 = Some u2"
    using user_at_Some [OF assms(2)] user_at_Some [OF assms(3)] by blast
  have pch: "pch \<in> set (ch_by_id s)" "ch_id ch = c_chid c"
    using assms(8,9) by (auto elim!: find_ch_SomeE)
  have wf: "ch_wf ch" using server_invD(4) [OF assms(1)] pch(1) assms(9) by (simp add: ch_vals_ok_def)
  let ?ch0 = "ch\<lparr>ch_state := STARTED, turn_no := 0\<rparr>"
  let ?ch1 = "ch\<lparr>ch_state := STARTED, acted1 := False, acted2 := False, turn_no := 1\<rparr>"
  obtain s7 where s7: "challenge_accept fd c p1 p2 pch s = judge_turn pch (-1) s7" "server_inv s7"
    "pch \<in> set (ch_by_id s7)" "cheap s7 pch = Some ?ch0"
    "lobby s7 = ((players_of s)(c_id1 c \<mapsto> (UBATTLING, ch_id ch), c_id2 c \<mapsto> (UBATTLING, ch_id ch)),
      (duels_of s)(ch_id ch \<mapsto> (c_id1 c, c_id2 c, STARTED)))"
    "\<exists>ms. out s7 = out s @ ms @
      [(u_fd u1, challenge_r_msg c ME_OK True), (u_fd u2, challenge_r_msg c ME_OK False)]"
    "keeps s s7"
    by (rule challenge_accept_effect [OF assms(1) p pch(1) assms(9,4,5,11,12), of fd c])
  have j: "judged r ?ch0 = ?ch1" for r by (simp add: judged_zero)
  have w: "judge_winner (-1) ?ch1 = None" by (rule ch_wf_no_winner) (use wf in \<open>simp add: ch_wf_def\<close>)
  have f: "find_id (user1 ?ch0) s7 = Some p1" "find_id (user2 ?ch0) s7 = Some p2"
    using p(1,2) assms(11,12) find_id_keeps [OF s7(7)] by simp_all
  have fd: "fd_of s7 p1 = u_fd u1" "fd_of s7 p2 = u_fd u2"
    using keeps_heap [OF s7(7) p(3)] keeps_heap [OF s7(7) p(4)]
    by (auto simp: fd_of_def same_identity_def)
  obtain s' where s': "judge_turn pch (-1) s7 = Inr s'"
    "lobby s' = (if judge_winner (-1) (judged (unat (rnd s7 (rpos s7))) ?ch0) = None then lobby s7
      else (relieve {user1 ?ch0, user2 ?ch0} (players_of s7), (duels_of s7)(ch_id ?ch0 := None)))"
    by (rule judge_turn_lobby [OF s7(2-4) f, of "-1"])
  obtain ms where "out s' = out s7 @ [(u_fd u1, turn_r_msg ?ch1 None), (u_fd u2, turn_r_msg ?ch1 None)] @ ms"
    "ms = []"
    using judge_turn_out [OF server_invD(1) [OF s7(2)] s7(4) f s'(1)] unfolding j w fd by blast
  moreover have "handle_challenge fd c s = Inr s'"
    using p assms(6-10) s7(1) s'(1) by (simp add: handle_challenge_def challenge_signer_def)
  moreover have "lobby s' = lobby s7" using s'(2) unfolding j w by simp
  ultimately show ?thesis using s7(5,6) pch(2) by auto
qed

text \<open>
  \<open>C_REJECT\<close> by the user who was asked, with their key, closes the duel and frees the
  challenge. The notice goes to the user the message names as \<open>id1\<close>, whoever that is.
\<close>

theorem reject_closes_duel:
  assumes "server_inv s" and "user_at (c_id1 c) s = Some u1" and "user_at (c_id2 c) s = Some u2"
    and "c_action c = C_REJECT" and "c_key c = u_key u2"
    and "find_ch (c_chid c) s = Some pch" and "cheap s pch = Some ch" and "ch_state ch = ASKING"
    and "user2 ch = c_id2 c"
  shows "\<exists>s'. handle_challenge fd c s = Inr s' \<and>
    lobby s' = (players_of s, (duels_of s)(c_chid c := None)) \<and>
    out s' = out s @ [(u_fd u1, challenge_r_msg c REJECTED False)]"
proof -
  obtain p1 p2 where p: "find_id (c_id1 c) s = Some p1" "find_id (c_id2 c) s = Some p2"
    "uheap s p1 = Some u1" "uheap s p2 = Some u2" "u_id u2 = c_id2 c"
    using user_at_Some [OF assms(2)] user_at_Some [OF assms(3)] by blast
  have pch: "pch \<in> set (ch_by_id s)" "ch_id ch = c_chid c"
    using assms(6,7) by (auto elim!: find_ch_SomeE)
  obtain s' where s': "challenge_reject c p1 p2 pch s = Inr s'"
    "lobby s' = (players_of s, (duels_of s)(ch_id ch := None))"
    "out s' = out s @ [(u_fd u1, challenge_r_msg c REJECTED False)]"
    by (rule challenge_reject_effect [OF assms(1) p(3,4) pch(1) assms(7,8), of c])
      (use assms(9) p(5) in simp_all)
  have "handle_challenge fd c s = Inr s'"
    using p assms(4-8) s'(1) by (simp add: handle_challenge_def challenge_signer_def)
  with s' pch(2) show ?thesis by simp
qed

theorem reject_closes_duel_witness:
  "\<exists>s'. handle_challenge 6 (accept_req\<lparr>c_action := C_REJECT\<rparr>)
      (scene UONLINE 9 (Some (duel 7 6 ASKING))) = Inr s' \<and>
    duels_of s' 9 = None \<and>
    out s' = [(5, challenge_r_msg (accept_req\<lparr>c_action := C_REJECT\<rparr>) REJECTED False)]"
proof -
  obtain s' where "handle_challenge 6 (accept_req\<lparr>c_action := C_REJECT\<rparr>)
      (scene UONLINE 9 (Some (duel 7 6 ASKING))) = Inr s'"
    "lobby s' = (players_of (scene UONLINE 9 (Some (duel 7 6 ASKING))),
      (duels_of (scene UONLINE 9 (Some (duel 7 6 ASKING))))(9 := None))"
    "out s' = [(5, challenge_r_msg (accept_req\<lparr>c_action := C_REJECT\<rparr>) REJECTED False)]"
    using reject_closes_duel [of "scene UONLINE 9 (Some (duel 7 6 ASKING))"
        "accept_req\<lparr>c_action := C_REJECT\<rparr>" "alice UONLINE 9" "bob UONLINE 9" 2 "duel 7 6 ASKING" 6]
    by (auto simp: scene_inv ch_wf_duel accept_req_def user_at_def)
  then show ?thesis by (auto simp: lobby_def)
qed

section \<open>Turns\<close>

lemma handle_turn_eq:
  assumes "find_ch (t_chid t) s = Some pch" and "cheap s pch = Some ch"
    and "user_at (t_user t) s = Some u" and "u_key u = t_key t"
  shows "handle_turn fd t s =
    (let ch' = record_action t ch; s1 = set_ch pch ch' s
     in if acted1 ch' \<and> acted2 ch' then judge_turn pch (-1) s1 else Inr s1)"
  using assms user_at_Some [OF assms(3)] by (auto simp: handle_turn_def)

text \<open>
  A user who has acted in this turn cannot change their mind: another \<open>TURN\<close> from
  them has no effect until the opponent has acted.
\<close>

theorem turn_acts_once:
  assumes "find_ch (t_chid t) s = Some pch" and "cheap s pch = Some ch"
    and "user_at (t_user t) s = Some u" and "u_key u = t_key t" and "user1 ch \<noteq> user2 ch"
    and "t_user t = user1 ch \<and> acted1 ch \<and> \<not> acted2 ch \<or>
      t_user t = user2 ch \<and> acted2 ch \<and> \<not> acted1 ch"
  shows "handle_turn fd t s = Inr s"
proof -
  have "record_action t ch = ch" using assms(5,6) by (auto simp: record_action_def)
  moreover have "set_ch pch ch s = s"
    using assms(2) by (simp add: set_ch_def fun_upd_idem)
  moreover have "\<not> (acted1 ch \<and> acted2 ch)" using assms(6) by blast
  ultimately show ?thesis by (auto simp: handle_turn_eq [OF assms(1-4)] Let_def)
qed

theorem turn_acts_once_witness:
  "handle_turn 5 \<lparr>t_user = 5, t_chid = 9, t_key = 11, t_turn_no = 1, t_action = 2\<rparr>
     ((scene UBATTLING 9 (Some (duel 5 6 STARTED)))\<lparr>cheap := [2 \<mapsto> (duel 5 6 STARTED)\<lparr>acted1 := True\<rparr>]\<rparr>) =
   Inr ((scene UBATTLING 9 (Some (duel 5 6 STARTED)))\<lparr>cheap := [2 \<mapsto> (duel 5 6 STARTED)\<lparr>acted1 := True\<rparr>]\<rparr>)"
  by (rule turn_acts_once [of _ _ 2 "(duel 5 6 STARTED)\<lparr>acted1 := True\<rparr>" "alice UBATTLING 9"])
     (simp_all add: user_at_def find_ch_def find_id_def tfind_def matches_def zero_challenge_def
        key_user_def)

lemma record_action_keeps:
  assumes "server_inv s" and "pch \<in> set (ch_by_id s)" and "cheap s pch = Some ch"
  shows "server_inv (set_ch pch (record_action t ch) s)" and "lobby (set_ch pch (record_action t ch) s) = lobby s"
proof -
  note inv = server_invD [OF assms(1)]
  have "ch_wf ch" using inv(4) assms(2,3) by (simp add: ch_vals_ok_def)
  then show "server_inv (set_ch pch (record_action t ch) s)"
    by (intro server_inv_set_ch [OF assms(1,3)]) (simp_all add: ch_wf_record_action)
  show "lobby (set_ch pch (record_action t ch) s) = lobby s"
    using lobby_set_ch [OF inv(2) assms(2,3), of "record_action t ch"] duels_of_eq [OF inv(2) assms(2,3)]
    by (simp add: lobby_def fun_upd_idem)
qed

text \<open>
  C25: the second action of a turn ends it. In a consistent lobby both users are then
  sent the same \<open>TURN_R\<close> message, which tells the hit points after the turn and, if the
  battle is over, the winner; the battle goes on, or it is taken out of the lobby and
  both users are online again.
\<close>

theorem turn_judged:
  assumes "server_inv s" and "lobby_ok (lobby s)"
    and "find_ch (t_chid t) s = Some pch" and "cheap s pch = Some ch" and "ch_state ch = STARTED"
    and "user_at (t_user t) s = Some u" and "u_key u = t_key t"
    and "acted1 (record_action t ch)" and "acted2 (record_action t ch)"
  defines "ch' \<equiv> judged (unat (rnd s (rpos s))) (record_action t ch)"
  defines "w \<equiv> judge_winner (-1) ch'"
  shows "\<exists>s' ms u1 u2. handle_turn fd t s = Inr s' \<and> cheap s' pch = Some ch' \<and>
    user_at (user1 ch) s = Some u1 \<and> user_at (user2 ch) s = Some u2 \<and>
    out s' = out s @ [(u_fd u1, turn_r_msg ch' w), (u_fd u2, turn_r_msg ch' w)] @ ms \<and>
    lobby s' = (if w = None then lobby s
      else (relieve {user1 ch, user2 ch} (players_of s), (duels_of s)(t_chid t := None)))"
proof -
  have pch: "pch \<in> set (ch_by_id s)" "ch_id ch = t_chid t"
    using assms(3,4) by (auto elim!: find_ch_SomeE)
  let ?ch = "record_action t ch" and ?s1 = "set_ch pch (record_action t ch) s"
  note i = record_action_keeps(1) [OF assms(1) pch(1) assms(4), of t]
    and l = record_action_keeps(2) [OF assms(1) pch(1) assms(4), of t]
  obtain p1 p2 where p: "find_id (user1 ch) s = Some p1" "find_id (user2 ch) s = Some p2"
    by (rule started_duel [OF assms(1,2) pch(1) assms(4,5)])
  obtain u1 where us1: "uheap s p1 = Some u1" using p(1) by (rule find_id_SomeE)
  obtain u2 where us2: "uheap s p2 = Some u2" using p(2) by (rule find_id_SomeE)
  note us = us1 us2
  have tab: "pch \<in> set (ch_by_id ?s1)" "cheap ?s1 pch = Some ?ch" using pch(1) by simp_all
  have f: "find_id i ?s1 = find_id i s" for i by (rule find_id_cong) simp_all
  have f1: "find_id (user1 ?ch) ?s1 = Some p1" "find_id (user2 ?ch) ?s1 = Some p2"
    using p f by simp_all
  have rn: "rnd ?s1 (rpos ?s1) = rnd s (rpos s)" by (simp add: set_ch_def)
  have ch': "judged (unat (rnd ?s1 (rpos ?s1))) ?ch = ch'" by (simp add: rn ch'_def)
  obtain s' where j: "judge_turn pch (-1) ?s1 = Inr s'"
    and lj: "lobby s' = (if judge_winner (-1) (judged (unat (rnd ?s1 (rpos ?s1))) ?ch) = None
      then lobby ?s1
      else (relieve {user1 ?ch, user2 ?ch} (players_of ?s1), (duels_of ?s1)(ch_id ?ch := None)))"
    by (rule judge_turn_lobby [OF i tab f1, of "-1"])
  have s'2: "lobby s' = (if w = None then lobby s
      else (relieve {user1 ch, user2 ch} (players_of s), (duels_of s)(t_chid t := None)))"
    using lj l pch(2) unfolding ch' by (simp add: w_def lobby_def)
  note s' = j s'2
  obtain ms where ms: "out s' = out s @ [(u_fd u1, turn_r_msg ch' w), (u_fd u2, turn_r_msg ch' w)] @ ms"
    "cheap s' pch = Some ch'"
  proof (rule judge_turn_out [OF server_invD(1) [OF i] tab(2) f1 j])
    fix ms
    assume "out s' = out ?s1 @
        [(fd_of ?s1 p1, turn_r_msg (judged (unat (rnd ?s1 (rpos ?s1))) ?ch)
            (judge_winner (-1) (judged (unat (rnd ?s1 (rpos ?s1))) ?ch))),
         (fd_of ?s1 p2, turn_r_msg (judged (unat (rnd ?s1 (rpos ?s1))) ?ch)
            (judge_winner (-1) (judged (unat (rnd ?s1 (rpos ?s1))) ?ch)))] @ ms"
      "cheap s' pch = Some (judged (unat (rnd ?s1 (rpos ?s1))) ?ch)"
    then show thesis using us unfolding ch' by (intro that [of ms]) (simp_all add: w_def fd_of_def)
  qed
  have h: "handle_turn fd t s = Inr s'"
    using handle_turn_eq [OF assms(3,4,6,7), of fd] assms(8,9) s'(1) by (simp add: Let_def)
  show ?thesis
    using h ms s'(2) user_at_find(1) [OF p(1) us(1)] user_at_find(1) [OF p(2) us(2)] by blast
qed

text \<open>Alice has chosen paper; now bob chooses rock.\<close>

theorem turn_judged_witness:
  "\<exists>s' ms m. handle_turn 6 \<lparr>t_user = 6, t_chid = 9, t_key = 22, t_turn_no = 1, t_action = 0\<rparr>
     (scene UBATTLING 9 (Some ((duel 5 6 STARTED)\<lparr>act1 := B_PAPER, acted1 := True\<rparr>))) = Inr s' \<and>
    out s' = [(5, m), (6, m)] @ ms"
proof -
  let ?ch = "(duel 5 6 STARTED)\<lparr>act1 := B_PAPER, acted1 := True\<rparr>"
  let ?s = "scene UBATTLING 9 (Some ?ch)"
  let ?t = "\<lparr>t_user = 6, t_chid = 9, t_key = 22, t_turn_no = 1, t_action = 0\<rparr>"
  have wf: "ch_wf ?ch" using ch_wf_duel [of 5 6 STARTED] by (simp add: ch_wf_def)
  have fc: "find_ch 9 ?s = Some 2" "find_ch j ?s = None" if "j \<noteq> 9" for j
    using that by (simp_all add: find_ch_def tfind_def matches_def zero_challenge_def)
  have "players_of ?s i = [5 \<mapsto> (UBATTLING, 9), 6 \<mapsto> (UBATTLING, 9)] i" for i
    by (cases "i = 5"; cases "i = 6") (simp_all add: players_of_def)
  moreover have "duels_of ?s i = [9 \<mapsto> (5, 6, STARTED)] i" for i
    using fc(1) [of 0] fc(2) [of i] by (cases "i = 9") (simp_all add: duels_of_def)
  ultimately have "lobby ?s = lobby (scene UBATTLING 9 (Some (duel 5 6 STARTED)))"
    unfolding lobby_fight by (simp add: lobby_def fun_eq_iff)
  with lobby_ok_fight have lo: "lobby_ok (lobby ?s)" by simp
  have si: "server_inv ?s" by (rule scene_inv) (use wf in auto)
  show ?thesis
    using turn_judged [OF si lo, of ?t 2 ?ch "bob UBATTLING 9" 6] fc(1) [of 0]
    by (auto simp: user_at_def record_action_def)
qed

text \<open>
  C26: the rules of a turn in which both have acted: the loser, if there is one, loses
  between 1 and 5 hit points, the winner none; whoever has none left loses the battle.
\<close>

theorem turn_rules:
  fixes a b :: u32 and r :: nat
  assumes "ch_wf ch" and "turn_no ch \<noteq> 0"
  defines "ch' \<equiv> judged r (with_actions (a, b, r) ch)"
  shows "sint (hp1 ch') =
      sint (hp1 ch) - (if get_turn_result a b = TR_LOSE then int (r mod 5 + 1) else 0) \<and>
    sint (hp2 ch') =
      sint (hp2 ch) - (if get_turn_result a b = TR_WIN then int (r mod 5 + 1) else 0) \<and>
    judge_winner (-1) ch' =
      (if sint (hp1 ch') \<le> 0 then Some (user2 ch) else if sint (hp2 ch') \<le> 0 then Some (user1 ch)
       else None) \<and>
    \<not> acted1 ch' \<and> \<not> acted2 ch' \<and> turn_no ch' = turn_no ch + 1"
proof -
  have hp: "sint (hp1 ch) \<in> {1..10}" "sint (hp2 ch) \<in> {1..10}" using assms(1) by (simp_all add: ch_wf_def)
  have d: "r mod 5 + 1 \<le> 5" using mod_less_divisor [of 5 r] by linarith
  have ne: "(-1 :: int) \<noteq> uint i" for i :: u16 using uint_ge_0 [of i] by linarith
  have u: "user1 ch' = user1 ch" "user2 ch' = user2 ch"
    by (simp_all add: ch'_def with_actions_def)
  have "sint (hp1 ch') =
      sint (hp1 ch) - (if get_turn_result a b = TR_LOSE then int (r mod 5 + 1) else 0)"
    using sint_diff_small [OF hp(1) d] unfolding ch'_def judged_acted_hp [OF assms(2)] by simp
  moreover have "sint (hp2 ch') =
      sint (hp2 ch) - (if get_turn_result a b = TR_WIN then int (r mod 5 + 1) else 0)"
    using sint_diff_small [OF hp(2) d] unfolding ch'_def judged_acted_hp [OF assms(2)] by simp
  moreover have "turn_no ch' = turn_no ch + 1"
    using judged_turn_no [of "with_actions (a, b, r) ch" r] assms(2) by (simp add: ch'_def)
  moreover have "\<not> acted1 ch'" "\<not> acted2 ch'" by (simp_all add: ch'_def)
  ultimately show ?thesis by (simp add: judge_winner_def ne u)
qed

theorem turn_rules_witness:
  "sint (hp1 (judged 3 (with_actions (B_ROCK, B_PAPER, 3) first_turn))) = 6 \<and>
   judge_winner (-1) (judged 3 (with_actions (B_ROCK, B_PAPER, 3) first_turn)) = None"
proof -
  have "ch_wf first_turn" "turn_no first_turn \<noteq> 0"
    by (simp_all add: ch_wf_def first_turn_def MAXHP_def)
  from turn_rules [OF this, of 3 B_ROCK B_PAPER] show ?thesis
    by (simp add: first_turn_def get_turn_result_def)
qed

text \<open>
  C27: the turn number has 16 bits. After turn 65535 it is 0, which \<open>judge_turn\<close> takes for
  a battle that has not begun: what both users chose is dropped, and the next turn is
  number 1 again with the same hit points.
\<close>

theorem turn_number_wraps:
  fixes r :: nat
  assumes "turn_no ch = 65535"
  defines "ch1 \<equiv> judged r ch"
  shows "turn_no ch1 = 0 \<and>
    judged r' (with_actions x ch1) = (with_actions x ch1)\<lparr>acted1 := False, acted2 := False, turn_no := 1\<rparr>"
proof -
  have "turn_no ch1 = turn_no ch + 1" unfolding ch1_def by (rule judged_turn_no) (simp add: assms(1))
  then have "turn_no ch1 = 0" using assms(1) by simp
  then show ?thesis by (simp add: judged_zero)
qed

theorem turn_number_wraps_witness:
  "hp2 (judged 3 (with_actions (B_PAPER, B_ROCK, 3) (judged 0 (first_turn\<lparr>turn_no := 65535\<rparr>)))) = 10 \<and>
   hp2 (judged 3 (with_actions (B_PAPER, B_ROCK, 3) first_turn)) = 6"
proof -
  have "hp2 (judged 0 (first_turn\<lparr>turn_no := 65535\<rparr>)) = 10"
    by (simp add: judged_def judge_advance_def first_turn_def zero_challenge_def Let_def)
  moreover have "hp2 (judged 3 (with_actions (B_PAPER, B_ROCK, 3) first_turn)) = 6"
    by (subst judged_acted_hp(2)) (simp_all add: first_turn_def get_turn_result_def)
  ultimately show ?thesis
    using turn_number_wraps [of "first_turn\<lparr>turn_no := 65535\<rparr>" 0 3 "(B_PAPER, B_ROCK, 3)"]
    by (simp add: with_actions_def)
qed

section \<open>The receiving threads\<close>

text \<open>
  A connection's thread puts on the queue, in their order, the messages received
  before the first failure that is not a mere absence of data, and then, if there was
  such a failure, exactly one notice that the connection is gone.
\<close>

definition hard_fail :: "recv_result \<Rightarrow> bool" where
  "hard_fail r \<longleftrightarrow> r = RecvFail False"

definition received :: "recv_result list \<Rightarrow> message_t list" where
  "received rs = concat (map (\<lambda>r. case r of RecvMsg m \<Rightarrow> [m] | RecvFail _ \<Rightarrow> [])
     (takeWhile (\<lambda>r. \<not> hard_fail r) rs))"

theorem serve_in_order:
  "serve fd rs = map (EMSG fd) (received rs) @ (if list_ex hard_fail rs then [EDISCONN fd] else [])"
  by (induction fd rs rule: serve.induct) (auto simp: received_def hard_fail_def)

end
