(* ===== verification/LibProps.thy ===== *)
theory LibProps imports MessageProps Queue begin

text \<open>
  What the library \<open>src/lib\<close> guarantees, and where it fails: the properties of
  \<open>common.c\<close>, \<open>common.h\<close>, \<open>messages.c\<close> and \<open>queue.c\<close>, each with a concrete instance.
\<close>

section \<open>Messages\<close>


lemma send_bytes_exist: "wf_message m \<Longrightarrow> \<exists>bs. msg_send_bytes e m = Some bs"
  by (simp add: msg_send_bytes_wf)


text \<open>
  A message that is no \<open>UCHANGE\<close> arrives as it was on a host of any byte order.
\<close>

theorem message_crosses_hosts:
  assumes "wf_message m" and "m_kind m \<noteq> UCHANGE" and "648 \<le> length junk"
    and "msg_send_bytes e m = Some bs"
  shows "msg_recv e' junk b [Data (bs @ rest)] = (Some m, if rest = [] then [] else [Data rest])"
  using assms by (rule msg_recv_send_cross)

theorem message_crosses_hosts_witness:
  "\<exists>bs. msg_send_bytes LittleEndian (make_join_r [97] 0 5 258) = Some bs \<and>
     msg_recv BigEndian (zeros 648) True [Data (bs @ [])] = (Some (make_join_r [97] 0 5 258), [])"
proof -
  obtain bs where bs: "msg_send_bytes LittleEndian (make_join_r [97] 0 5 258) = Some bs"
    using send_bytes_exist [OF wf_make_join_r] by blast
  have "m_kind (make_join_r [97] 0 5 258) \<noteq> UCHANGE"
    by (simp add: make_join_r_def make_msg_buf_def init_msg_buf_def)
  from message_crosses_hosts [OF wf_make_join_r this _ bs, of "zeros 648" BigEndian True "[]"] bs
  show ?thesis by simp
qed

text \<open>
  C34: a \<open>UCHANGE\<close> message between hosts of different byte order arrives with the bytes of
  every score reversed, because \<open>msg_body_conv\<close> leaves the scores out; the rest is right.
\<close>

theorem uchange_scores_reversed:
  assumes "wf_message m" and "m_body m = Uchange u" and "tail_zero (m_body m)"
    and "648 \<le> length junk" and "e' \<noteq> e" and "msg_send_bytes e m = Some bs"
  shows "msg_recv e' junk b [Data (bs @ rest)] =
    (Some (m\<lparr>m_body := Uchange (swap_scores u)\<rparr>), if rest = [] then [] else [Data rest])"
  using assms by (rule msg_recv_send_scores)

theorem uchange_scores_reversed_witness:
  "\<exists>bs. msg_send_bytes LittleEndian (uchange_msg [uchange_entry [97] 5 1 1]) = Some bs \<and>
     fst (msg_recv BigEndian (zeros 648) True [Data (bs @ [])]) =
       Some (uchange_msg [uchange_entry [97] 5 1 16777216])"
proof -
  let ?m = "uchange_msg [uchange_entry [97] 5 1 1]"
  have wf: "wf_message ?m" by (rule wf_uchange_msg) simp_all
  obtain bs where bs: "msg_send_bytes LittleEndian ?m = Some bs"
    using send_bytes_exist [OF wf] by blast
  define u where "u = uchange_of ?m"
  have u: "m_body ?m = Uchange u" by (simp add: u_def uchange_msg_def uchange_of_def)
  have "swap32 0 = 0" "swap32 1 = 16777216"
    by (simp_all add: swap32_def swap16_def mk32_def mk16_def hi8_def lo8_def lo16_def hi16_def)
  then have "?m\<lparr>m_body := Uchange (swap_scores u)\<rparr> = uchange_msg [uchange_entry [97] 5 1 16777216]"
    by (simp add: u_def uchange_msg_def uchange_of_def swap_scores_def uchange_entry_def zero_user_def)
  with uchange_scores_reversed [OF wf u _ _ _ bs, of "zeros 648" BigEndian True "[]"] bs
  show ?thesis by (simp add: tail_zero_uchange_msg)
qed

text \<open>
  C35: whatever arrives on the socket, a message that \<open>msg_recv\<close> accepts is well-formed:
  its kind is one of the nine, its length that of the kind, its strings end in their
  buffers, and a \<open>UCHANGE\<close> message has at most 16 entries.
\<close>

theorem received_message_wf:
  assumes "msg_recv e junk b s = (Some m, s')" and "648 \<le> length junk"
  shows "wf_message m"
  using assms by (rule msg_recv_wf)

theorem received_message_wf_witness:
  "\<exists>bs m. fst (msg_recv LittleEndian (zeros 648) True [Data bs]) = Some m \<and> wf_message m"
proof -
  obtain bs where bs: "msg_send_bytes LittleEndian (make_join [97]) = Some bs"
    using send_bytes_exist [OF wf_make_join] by blast
  have "tail_zero (m_body (make_join [97]))" by (simp add: make_join_def tail_zero_def)
  from msg_recv_send_same [OF wf_make_join this _ bs, of "zeros 648" True "[]"]
  have r: "msg_recv LittleEndian (zeros 648) True [Data bs] = (Some (make_join [97]), [])" by simp
  have "wf_message (make_join [97])" by (rule received_message_wf [OF r]) simp
  with r show ?thesis by (intro exI [of _ bs] exI [of _ "make_join [97]"]) simp
qed

text \<open>
  \<open>uchange_add_or_create\<close> appends an entry while there are fewer than 16; on a full
  message it leaves it alone, answers false and, if asked to, makes a new message with
  the entry.
\<close>

theorem uchange_appends:
  assumes "length es \<le> 16"
  shows "uchange_add_or_create (uchange_msg es) want nick i st sc =
    (if length es < 16 then (True, uchange_msg (es @ [uchange_entry nick i st sc]), None)
     else (False, uchange_msg es,
       if want then Some (uchange_msg [uchange_entry nick i st sc]) else None))"
  using uchange_add_or_create_msg [OF assms] by auto

theorem uchange_appends_witness:
  "fst (uchange_add_or_create (uchange_msg (replicate 16 zero_user)) True [97] 5 1 0) = False \<and>
   fst (uchange_add_or_create (uchange_msg (replicate 15 zero_user)) True [97] 5 1 0) = True"
  using uchange_appends [of "replicate 16 zero_user"] uchange_appends [of "replicate 15 zero_user"]
  by simp

text \<open>
  \<open>msg_strerror\<close> has a text of its own for each of the 15 codes and gives the last one
  for every other value.
\<close>

theorem strerror_distinct:
  "msg_strerror a = msg_strerror b \<longleftrightarrow> a = b \<or> (ME_OTHER \<le> a \<and> ME_OTHER \<le> b)"
proof -
  have d: "distinct msg_err_desc" and l: "length msg_err_desc = 15"
    by (simp_all add: msg_err_desc_def)
  have s: "msg_strerror x = msg_err_desc ! min 14 (unat x)" for x
    by (auto simp: msg_strerror_def word_le_nat_alt min_def)
  have "msg_strerror a = msg_strerror b \<longleftrightarrow> min 14 (unat a) = min 14 (unat b)"
    unfolding s by (rule nth_eq_iff_index_eq [OF d]) (simp_all add: l)
  also have "\<dots> \<longleftrightarrow> a = b \<or> (14 \<le> unat a \<and> 14 \<le> unat b)"
    by (auto simp: min_def word_unat_eq_iff split: if_splits)
  finally show ?thesis by (simp add: word_le_nat_alt)
qed

section \<open>Reading from the socket\<close>

text \<open>
  \<open>recv_count\<close> delivers the bytes it was asked for, in order, when they have arrived
  together.
\<close>

theorem recv_count_in_one_piece:
  assumes "length buf = len" and "len \<le> length d" and "0 < len"
  shows "recv_count buf len wait (Data d # r) =
    (True, take len d, if len < length d then Data (drop len d) # r else r)"
  using assms by (rule recv_count_whole)

theorem recv_count_in_one_piece_witness:
  "recv_count (zeros 2) 2 True [Data [7, 8, 9]] = (True, [7, 8], [Data [9]])"
  using recv_count_in_one_piece [of "zeros 2" 2 "[7, 8, 9]"] by simp

text \<open>
  C36: when they arrive in two pieces, \<open>recv_count\<close> reports success, but the second piece
  has been written over the first: the pointer into the buffer is never advanced.
\<close>

theorem recv_count_in_two_pieces:
  assumes "length buf = length d1 + length d2" and "d1 \<noteq> []" and "d2 \<noteq> []"
  shows "recv_count buf (length buf) wait (Data d1 # Data d2 # r) =
    (True, overlay d2 (overlay d1 buf), r)"
  using assms by (rule recv_count_split)

theorem recv_count_in_two_pieces_witness:
  "recv_count (zeros 4) 4 True [Data [1, 2], Data [3, 4]] = (True, [3, 4, 0, 0], [])"
proof -
  have "overlay [3, 4] (overlay [1, 2] (zeros 4)) = [3, 4, 0, 0]"
    by (simp add: overlay_def zeros_def numeral_eq_Suc)
  then show ?thesis using recv_count_in_two_pieces [of "zeros 4" "[1, 2]" "[3, 4]"] by simp
qed

section \<open>Nicknames\<close>

text \<open>
  Two nicknames are the same for \<open>nick_cmp\<close> exactly if their first 32 bytes agree up
  to the case of letters.
\<close>

theorem nick_cmp_ignores_case:
  "nick_cmp s t = 0 \<longleftrightarrow> map tolower (take 32 (cstr s)) = map tolower (take 32 (cstr t))"
  by (simp add: nick_cmp_def NICKNAME_LEN_def strncasecmp_eq_0_iff)


section \<open>The search trees\<close>

text \<open>
  Inserting a user into the tree of nicknames finds the user that already has this
  nickname, up to case, and changes nothing, or adds the new user; the tree stays ordered.
\<close>

theorem nick_tree_insert:
  assumes "tree_ok cmp_by_nick h t" and "h p = Some u" and "p \<notin> set t"
    and "tsearch cmp_by_nick h p u t = (t', q)"
  shows "tree_ok cmp_by_nick h t' \<and> tfind cmp_by_nick h u t' = Some q \<and>
    (case tfind cmp_by_nick h u t of Some r \<Rightarrow> q = r \<and> t' = t
     | None \<Rightarrow> q = p \<and> set t' = insert p (set t))"
proof (cases "tfind cmp_by_nick h u t")
  case None
  with by_nick.tsearch_new [OF assms(1,2)] assms(4)
  have t: "tree_ok cmp_by_nick h t'" "q = p" "set t' = insert p (set t)" by auto
  have "tfind cmp_by_nick h u t' = Some p"
    by (rule by_nick.tfind_eq [OF t(1) _ assms(2)]) (simp_all add: t by_nick.cmp_refl)
  with t None show ?thesis by simp
next
  case (Some r)
  with by_nick.tsearch_old [OF assms(1) Some, of p] assms(1,4) show ?thesis by simp
qed

definition two_names :: "ptr \<rightharpoonup> user_info_t" where
  "two_names = [0 \<mapsto> \<lparr>u_nickname = [97], u_id = 1, u_score = 0, u_state = 1\<rparr>,
     1 \<mapsto> \<lparr>u_nickname = [65], u_id = 2, u_score = 0, u_state = 1\<rparr>]"

theorem nick_tree_insert_witness:
  "tsearch cmp_by_nick two_names 1 \<lparr>u_nickname = [65], u_id = 2, u_score = 0, u_state = 1\<rparr> [0] = ([0], 0)"
proof -
  let ?u = "\<lparr>u_nickname = [65], u_id = 2, u_score = 0, u_state = 1\<rparr> :: user_info_t"
  have ok: "tree_ok cmp_by_nick two_names [0]" "two_names 1 = Some ?u"
    by (simp_all add: tree_ok_Cons two_names_def)
  have "nick_cmp [65] [97] = 0"
    by (simp add: nick_cmp_def NICKNAME_LEN_def strncasecmp_eq_0_iff tolower_def isupper_def
        word_le_nat_alt)
  then have f: "tfind cmp_by_nick two_names ?u [0] = Some 0"
    by (simp add: tfind_def matches_def two_names_def cmp_by_nick_def)
  obtain t' q where r: "tsearch cmp_by_nick two_names 1 ?u [0] = (t', q)" by fastforce
  from nick_tree_insert [OF ok _ r] f r show ?thesis by simp
qed

section \<open>The game\<close>

text \<open>
  The result of a turn seen from the other side is the opposite, and a turn is even
  exactly if both do the same or one of the two actions is no action of the game. So a
  client that sends an unknown action, which the server does not refuse, never loses a
  turn.
\<close>

theorem turn_result_rules:
  "get_turn_result b a = flip_result (get_turn_result a b) \<and>
   (get_turn_result a b = TR_EVEN \<longleftrightarrow> \<not> (valid_act a \<and> valid_act b \<and> a \<noteq> b))"
  using get_turn_result_flip get_turn_result_even_iff by blast

section \<open>The queue\<close>

text \<open>
  The ring buffer is a bounded queue: an addition appends to the queue unless it is
  full, a removal takes the oldest entry unless it is empty; without room or without an
  entry the call fails or, if it may block, does not return.
\<close>

theorem ring_buffer_is_queue:
  assumes "queue_ok q"
  shows "(if length (queue_list q) = q_cap q
      then queue_add q e b = (if b then Blocks else Returns (QFULL, q))
      else \<exists>q'. queue_add q e b = Returns (QOK, q') \<and> queue_ok q' \<and> q_cap q' = q_cap q \<and>
        queue_list q' = queue_list q @ [e]) \<and>
    (case queue_list q of
      [] \<Rightarrow> queue_take q b = (if b then Blocks else Returns (QEMPTY, None, q))
    | x # xs \<Rightarrow> \<exists>q'. queue_take q b = Returns (QOK, Some x, q') \<and> queue_ok q' \<and>
        q_cap q' = q_cap q \<and> queue_list q' = xs)"
proof -
  have "length (queue_list q) < q_cap q" if "length (queue_list q) \<noteq> q_cap q"
    using ring.len [OF assms] that by simp
  then show ?thesis
    using ring.add_full [OF assms, of e b] ring.add_room [OF assms, of e b]
      ring.take_empty [OF assms, of b] ring.take_some [OF assms, of _ _ b]
    by (auto split: list.split)
qed

theorem ring_buffer_is_queue_witness:
  "\<exists>q'. queue_add (queue_create 2 (0 :: nat)) 7 True = Returns (QOK, q') \<and> queue_list q' = [7]"
  using ring_buffer_is_queue [OF queue_create_ok, of 2 "0 :: nat" 7 True]
  by (auto simp: queue_create_list queue_create_cap)

text \<open>
  What is added to an empty queue without exceeding its capacity comes out in the
  same order; one entry more and some addition fails.
\<close>

theorem queue_keeps_order:
  assumes "queue_ok q" and "queue_list q = []"
  shows "if length xs \<le> q_cap q
    then \<exists>q'. ring.add_all q xs = Some q' \<and> ring.drain (length xs) q' = xs
    else ring.add_all q xs = None"
  using ring.fifo_order [OF assms] ring.add_all_overflow [OF assms(1)] assms(2) by simp

theorem queue_keeps_order_witness:
  "\<exists>q'. ring.add_all (queue_create 2 (0 :: nat)) [7, 8] = Some q' \<and> ring.drain 2 q' = [7, 8]"
proof -
  have n: "length [7, 8 :: nat] = 2" by simp
  from queue_keeps_order [OF queue_create_ok [of 2 "0 :: nat"] queue_create_list, where xs = "[7, 8]"]
  show ?thesis unfolding n queue_create_cap by (simp only: order_refl if_True)
qed

end
