(* ===== verification/Pipeline.thy ===== *)
theory Pipeline imports ServerProps LibProps begin

text \<open>
  The parts together: bytes on sockets, the threads of the connections, the queue and
  the handlers.
\<close>

section \<open>From bytes on the sockets to the state of the server\<close>

text \<open>
  The loop of a connection's thread: each round calls \<open>msg_recv\<close> on a buffer with
  whatever the stack holds (\<open>junk\<close>); \<open>again\<close> is whether \<open>errno\<close> is \<open>EWOULDBLOCK\<close> or
  \<open>EAGAIN\<close> after a failure.
\<close>

fun recv_rounds :: "endian \<Rightarrow> (byte list \<times> bool) list \<Rightarrow> socket \<Rightarrow> recv_result list" where
  "recv_rounds e [] s = []"
| "recv_rounds e ((junk, again) # r) s =
     (case msg_recv e junk True s of
        (Some m, s') \<Rightarrow> RecvMsg m # recv_rounds e r s'
      | (None, s') \<Rightarrow> RecvFail again # recv_rounds e r s')"

text \<open>A connection: its descriptor, its rounds and the bytes that arrive on it.\<close>

type_synonym connection = "int \<times> (byte list \<times> bool) list \<times> socket"

fun connection_ok :: "connection \<Rightarrow> bool" where
  "connection_ok (fd, rounds, s) = (0 \<le> fd \<and> list_all (\<lambda>(junk, again). 648 \<le> length junk) rounds)"

fun thread :: "endian \<Rightarrow> connection \<Rightarrow> queue_entry_t list" where
  "thread e (fd, rounds, s) = serve fd (recv_rounds e rounds s)"

lemma recv_rounds_wf:
  "list_all (\<lambda>(junk, again). 648 \<le> length junk) rounds \<Longrightarrow> RecvMsg m \<in> set (recv_rounds e rounds s) \<Longrightarrow>
    wf_message m"
proof (induction e rounds s rule: recv_rounds.induct)
  case (2 e junk again r s)
  obtain o' s' where o: "msg_recv e junk True s = (o', s')" by fastforce
  show ?case
  proof (cases o')
    case None
    with 2 o show ?thesis by simp
  next
    case (Some m')
    with 2 o msg_recv_wf [of e junk True s m' s'] show ?thesis by auto
  qed
qed simp

lemma serve_entries: "en \<in> set (serve fd rs) \<Longrightarrow>
  en = EDISCONN fd \<or> (\<exists>m. en = EMSG fd m \<and> RecvMsg m \<in> set rs)"
  by (induction fd rs rule: serve.induct) (auto split: if_splits)

lemma thread_entries_ok:
  assumes "connection_ok c" and "en \<in> set (thread e c)"
  shows "entry_ok en"
proof -
  obtain fd rounds s where c: "c = (fd, rounds, s)" by (cases c)
  from serve_entries [of en fd "recv_rounds e rounds s"] assms recv_rounds_wf [of rounds _ e s] c
  show ?thesis by (auto simp: entry_ok_def)
qed

text \<open>
  Whatever bytes arrive on whatever connections, and however the queue interleaves
  what their threads put on it, the server that handles the entries never follows a
  dangling pointer, and every state it reaches satisfies the invariant.
\<close>

theorem bytes_safe:
  assumes "uheap s = Map.empty" and "cheap s = Map.empty" and "out s = []"
    and "list_all connection_ok cs" and "set es \<subseteq> (\<Union>c \<in> set cs. set (thread e c))"
  shows "server_run es (model_init s) \<noteq> Inl UseAfterFree \<and>
    (\<forall>s'. server_run es (model_init s) = Inr s' \<longrightarrow> server_inv s')"
proof -
  have ok: "list_all entry_ok es"
    unfolding list_all_iff
  proof
    fix en assume "en \<in> set es"
    with assms(5) obtain c where c: "c \<in> set cs" "en \<in> set (thread e c)" by blast
    from c(1) assms(4) have "connection_ok c" by (simp add: list_all_iff)
    then show "entry_ok en" using c(2) by (rule thread_entries_ok)
  qed
  show ?thesis using server_run_safe [OF server_inv_init [OF assms(1-3)] ok]
    by (auto simp: safe_result_def)
qed

end
