(* ===== verification/QueueThreads.thy ===== *)
theory QueueThreads imports Queue begin

text \<open>
  \<open>lib/queue.c\<close> with its threads: any number of threads call \<open>queue_add\<close> and
  \<open>queue_take\<close>, and their statements interleave. The mutex, the two condition variables
  and every statement of the critical sections are steps of their own, so that the
  atomic operations of \<open>Queue\<close> are what has to be proved of them.

  A thread sleeps in \<open>pthread_cond_wait\<close> until it is signalled; POSIX also lets it wake
  up by itself, which is the step \<open>Spurious\<close>. A signal wakes one of the threads that
  wait, whichever; it is lost when none does.
\<close>

section \<open>Calls and their statements\<close>

datatype 'a queue_op = Op_add 'a bool | Op_take bool

type_synonym 'a answer = "queue_err_t \<times> 'a option"

fun blocking :: "'a queue_op \<Rightarrow> bool" where
  "blocking (Op_add e block) = block"
| "blocking (Op_take block) = block"

fun is_add :: "'a queue_op \<Rightarrow> bool" where
  "is_add (Op_add e block) = True"
| "is_add (Op_take block) = False"

text \<open>The loop conditions \<open>q->cap == q->sz\<close> and \<open>q->sz == 0\<close>, and what a failed call returns.\<close>

fun stuck :: "'a queue_op \<Rightarrow> 'a queue_t \<Rightarrow> bool" where
  "stuck (Op_add e block) q \<longleftrightarrow> q_cap q = q_sz q"
| "stuck (Op_take block) q \<longleftrightarrow> q_sz q = 0"

fun failure :: "'a queue_op \<Rightarrow> queue_err_t" where
  "failure (Op_add e block) = QFULL"
| "failure (Op_take block) = QEMPTY"

text \<open>The three statements behind the loop: on the data, on the index and on the size.\<close>

fun store :: "'a queue_op \<Rightarrow> 'a queue_t \<Rightarrow> 'a queue_t" where
  "store (Op_add e block) q = q\<lparr>q_data := (q_data q)[q_hi q := e]\<rparr>"
| "store (Op_take block) q = q"

fun fetched :: "'a queue_op \<Rightarrow> 'a queue_t \<Rightarrow> 'a option" where
  "fetched (Op_add e block) q = None"
| "fetched (Op_take block) q = Some (q_data q ! q_lo q)"

fun advance :: "'a queue_op \<Rightarrow> 'a queue_t \<Rightarrow> 'a queue_t" where
  "advance (Op_add e block) q = q\<lparr>q_hi := (q_hi q + 1) mod q_cap q\<rparr>"
| "advance (Op_take block) q = q\<lparr>q_lo := (q_lo q + 1) mod q_cap q\<rparr>"

fun recount :: "'a queue_op \<Rightarrow> 'a queue_t \<Rightarrow> 'a queue_t" where
  "recount (Op_add e block) q = q\<lparr>q_sz := q_sz q + 1\<rparr>"
| "recount (Op_take block) q = q\<lparr>q_sz := q_sz q - 1\<rparr>"

section \<open>Threads\<close>

text \<open>
  Where a thread is: outside of the queue, waiting for the mutex (at the beginning of a
  call or on the way out of \<open>pthread_cond_wait\<close>), at the loop condition, asleep on the
  condition variable (\<open>conde\<close> for \<open>queue_add\<close>, \<open>condf\<close> for \<open>queue_take\<close>), at one of the
  three statements with the value of \<open>*p\<close>, at the unlocking, and at the signal.
\<close>

datatype 'a place =
    Outside
  | Locking "'a queue_op"
  | Testing "'a queue_op"
  | Waiting "'a queue_op"
  | Storing "'a queue_op"
  | Advancing "'a queue_op" "'a option"
  | Counting "'a queue_op" "'a option"
  | Unlocking "'a queue_op" "'a answer"
  | Signalling "'a queue_op" "'a answer"

record 'a shared =
  sh_queue :: "'a queue_t"
  sh_mutex :: "nat option"
  sh_places :: "'a place list"

text \<open>
  What is seen of a step: a call, the moment at which it takes effect, its return, a
  spurious wakeup, or nothing.
\<close>

datatype 'a event =
    Call nat "'a queue_op"
  | Effect nat "'a queue_op" "'a answer"
  | Return nat "'a queue_op" "'a answer"
  | Spurious nat
  | Silent nat

definition thread_at :: "'a shared \<Rightarrow> nat \<Rightarrow> 'a place \<Rightarrow> bool" where
  "thread_at s i p \<longleftrightarrow> i < length (sh_places s) \<and> sh_places s ! i = p"

definition goto :: "nat \<Rightarrow> 'a place \<Rightarrow> 'a shared \<Rightarrow> 'a shared" where
  "goto i p s = s\<lparr>sh_places := (sh_places s)[i := p]\<rparr>"

inductive queue_step :: "'a shared \<Rightarrow> 'a event \<Rightarrow> 'a shared \<Rightarrow> bool" where
  call: "thread_at s i Outside \<Longrightarrow> queue_step s (Call i c) (goto i (Locking c) s)"
| lock: "thread_at s i (Locking c) \<Longrightarrow> sh_mutex s = None \<Longrightarrow>
    queue_step s (Silent i) (goto i (Testing c) (s\<lparr>sh_mutex := Some i\<rparr>))"
| sleep: "thread_at s i (Testing c) \<Longrightarrow> stuck c (sh_queue s) \<Longrightarrow> blocking c \<Longrightarrow>
    queue_step s (Silent i) (goto i (Waiting c) (s\<lparr>sh_mutex := None\<rparr>))"
| give_up: "thread_at s i (Testing c) \<Longrightarrow> stuck c (sh_queue s) \<Longrightarrow> \<not> blocking c \<Longrightarrow>
    queue_step s (Effect i c (failure c, None)) (goto i (Unlocking c (failure c, None)) s)"
| go_on: "thread_at s i (Testing c) \<Longrightarrow> \<not> stuck c (sh_queue s) \<Longrightarrow>
    queue_step s (Silent i) (goto i (Storing c) s)"
| store: "thread_at s i (Storing c) \<Longrightarrow> queue_step s (Silent i)
    (goto i (Advancing c (fetched c (sh_queue s))) (s\<lparr>sh_queue := store c (sh_queue s)\<rparr>))"
| advance: "thread_at s i (Advancing c p) \<Longrightarrow> queue_step s (Silent i)
    (goto i (Counting c p) (s\<lparr>sh_queue := advance c (sh_queue s)\<rparr>))"
| recount: "thread_at s i (Counting c p) \<Longrightarrow> queue_step s (Effect i c (QOK, p))
    (goto i (Unlocking c (QOK, p)) (s\<lparr>sh_queue := recount c (sh_queue s)\<rparr>))"
| unlock: "thread_at s i (Unlocking c r) \<Longrightarrow>
    queue_step s (Silent i) (goto i (Signalling c r) (s\<lparr>sh_mutex := None\<rparr>))"
| signal: "thread_at s i (Signalling c r) \<Longrightarrow> thread_at s j (Waiting d) \<Longrightarrow> is_add d \<noteq> is_add c \<Longrightarrow>
    queue_step s (Return i c r) (goto i Outside (goto j (Locking d) s))"
| signal_lost: "thread_at s i (Signalling c r) \<Longrightarrow>
    list_all (\<lambda>p. case p of Waiting d \<Rightarrow> is_add d = is_add c | _ \<Rightarrow> True) (sh_places s) \<Longrightarrow>
    queue_step s (Return i c r) (goto i Outside s)"
| spurious: "thread_at s i (Waiting c) \<Longrightarrow> queue_step s (Spurious i) (goto i (Locking c) s)"

text \<open>A run, with what was seen of it.\<close>

inductive queue_run :: "'a shared \<Rightarrow> 'a event list \<Rightarrow> 'a shared \<Rightarrow> bool" for s0 where
  start: "queue_run s0 [] s0"
| step: "queue_run s0 evs s \<Longrightarrow> queue_step s ev s' \<Longrightarrow> queue_run s0 (evs @ [ev]) s'"

text \<open>\<open>n\<close> threads around a new queue.\<close>

definition threads_start :: "nat \<Rightarrow> 'a \<Rightarrow> nat \<Rightarrow> 'a shared" where
  "threads_start cap junk n =
     \<lparr>sh_queue = queue_create cap junk, sh_mutex = None, sh_places = replicate n Outside\<rparr>"

text \<open>
  \<open>queue_destroy\<close> frees the queue (\<open>None\<close>). It is undefined while a thread is still in a
  call, which would go on to use the mutex or a condition variable.
\<close>

definition queue_destroy :: "'a shared \<Rightarrow> fault + 'a shared option" where
  "queue_destroy s = (if list_all ((=) Outside) (sh_places s) then Inr None else Inl Undefined)"

section \<open>What the atomic operations make of it\<close>

fun queue_call :: "'a queue_op \<Rightarrow> 'a queue_t \<Rightarrow> ('a answer \<times> 'a queue_t) call" where
  "queue_call (Op_add e block) q =
     (case queue_add q e block of Blocks \<Rightarrow> Blocks | Returns (err, q') \<Rightarrow> Returns ((err, None), q'))"
| "queue_call (Op_take block) q =
     (case queue_take q block of Blocks \<Rightarrow> Blocks | Returns (err, p, q') \<Rightarrow> Returns ((err, p), q'))"

text \<open>The effects of a run one after the other on the atomic operations.\<close>

fun replay :: "'a event list \<Rightarrow> 'a queue_t \<Rightarrow> 'a queue_t option" where
  "replay [] q = Some q"
| "replay (Effect i c r # evs) q =
     (case queue_call c q of
        Returns (r', q') \<Rightarrow> (if r = r' then replay evs q' else None)
      | Blocks \<Rightarrow> None)"
| "replay (_ # evs) q = replay evs q"

text \<open>
  What a thread may do: one call at a time, with one effect between the call and its
  return, which returns what the effect gave.
\<close>

datatype 'a phase = Ready | Called "'a queue_op" | Answered "'a queue_op" "'a answer"

fun follow :: "nat \<Rightarrow> 'a event \<Rightarrow> 'a phase \<Rightarrow> 'a phase option" where
  "follow i (Call j c) ph = (if j \<noteq> i then Some ph else if ph = Ready then Some (Called c) else None)"
| "follow i (Effect j c r) ph =
     (if j \<noteq> i then Some ph else if ph = Called c then Some (Answered c r) else None)"
| "follow i (Return j c r) ph =
     (if j \<noteq> i then Some ph else if ph = Answered c r then Some Ready else None)"
| "follow i _ ph = Some ph"

fun follow_all :: "nat \<Rightarrow> 'a event list \<Rightarrow> 'a phase \<Rightarrow> 'a phase option" where
  "follow_all i [] ph = Some ph"
| "follow_all i (ev # evs) ph =
     (case follow i ev ph of None \<Rightarrow> None | Some ph' \<Rightarrow> follow_all i evs ph')"

end
