(* ===== verification/QueueSync.thy ===== *)
theory QueueSync imports QueueThreads begin

text \<open>
  The critical sections of \<open>lib/queue.c\<close> exclude one another, and every run of the
  threads has the effects of the atomic operations, one after the other.
\<close>

section \<open>One call at a time\<close>

lemma queue_call_stuck:
  "stuck c q \<Longrightarrow> queue_call c q = (if blocking c then Blocks else Returns ((failure c, None), q))"
  by (cases c) (auto simp: queue_add_def queue_take_def)

lemma queue_call_free:
  "\<not> stuck c q \<Longrightarrow>
    queue_call c q = Returns ((QOK, fetched c q), recount c (advance c (store c q)))"
  by (cases c) (auto simp: queue_add_def queue_take_def)

lemma queue_call_list:
  assumes "queue_ok q" and "queue_call c q = Returns (r, q')"
  shows "queue_ok q' \<and> q_cap q' = q_cap q \<and>
    (case c of Op_add e block \<Rightarrow> (fst r = QOK \<and> queue_list q' = queue_list q @ [e]) \<or> (fst r = QFULL \<and> q' = q)
     | Op_take block \<Rightarrow> (\<exists>x. r = (QOK, Some x) \<and> queue_list q = x # queue_list q') \<or>
         (r = (QEMPTY, None) \<and> q' = q))"
proof (cases "stuck c q")
  case True
  with queue_call_stuck [OF True] assms show ?thesis
    by (cases c) (auto split: if_splits)
next
  case False
  show ?thesis
  proof (cases c)
    case (Op_add e b)
    with False assms(1) have "q_sz q < q_cap q" by (auto simp: queue_ok_def)
    from queue_add_list [OF assms(1) this, of e b] assms(2) Op_add show ?thesis by auto
  next
    case (Op_take b)
    with False have "queue_list q \<noteq> []" by (auto simp flip: length_0_conv)
    then obtain x xs where "queue_list q = x # xs" by (cases "queue_list q") auto
    from queue_take_list [OF assms(1) this, of b] this assms(2) Op_take show ?thesis by auto
  qed
qed

section \<open>The invariant\<close>

fun holding :: "'a place \<Rightarrow> bool" where
  "holding (Testing c) = True"
| "holding (Storing c) = True"
| "holding (Advancing c p) = True"
| "holding (Counting c p) = True"
| "holding (Unlocking c r) = True"
| "holding _ = False"

text \<open>
  How far the thread that holds the mutex has changed the queue \<open>q0\<close>, on which the
  effects so far have been replayed.
\<close>

fun underway :: "'a place \<Rightarrow> 'a queue_t \<Rightarrow> 'a queue_t \<Rightarrow> bool" where
  "underway (Storing c) q0 q \<longleftrightarrow> \<not> stuck c q0 \<and> q = q0"
| "underway (Advancing c p) q0 q \<longleftrightarrow> \<not> stuck c q0 \<and> p = fetched c q0 \<and> q = store c q0"
| "underway (Counting c p) q0 q \<longleftrightarrow> \<not> stuck c q0 \<and> p = fetched c q0 \<and> q = advance c (store c q0)"
| "underway _ q0 q \<longleftrightarrow> q = q0"

definition sync_inv :: "'a queue_t \<Rightarrow> 'a shared \<Rightarrow> bool" where
  "sync_inv q0 s \<longleftrightarrow> queue_ok q0 \<and>
     (\<forall>i p. thread_at s i p \<longrightarrow> (holding p \<longleftrightarrow> sh_mutex s = Some i)) \<and>
     (case sh_mutex s of None \<Rightarrow> sh_queue s = q0
      | Some i \<Rightarrow> (\<exists>p. thread_at s i p \<and> underway p q0 (sh_queue s)))"

lemma thread_at_goto:
  "thread_at (goto i p s) j p' \<longleftrightarrow> (if i = j then j < length (sh_places s) \<and> p' = p else thread_at s j p')"
  by (auto simp: thread_at_def goto_def)

lemma goto_fields [simp]:
  "sh_queue (goto i p s) = sh_queue s" "sh_mutex (goto i p s) = sh_mutex s"
  "length (sh_places (goto i p s)) = length (sh_places s)"
  by (simp_all add: goto_def)

lemma thread_at_cong [simp]:
  "thread_at (s\<lparr>sh_mutex := m\<rparr>) i p = thread_at s i p"
  "thread_at (s\<lparr>sh_queue := q\<rparr>) i p = thread_at s i p"
  by (simp_all add: thread_at_def)

lemma thread_at_unique: "thread_at s i p \<Longrightarrow> thread_at s i p' \<Longrightarrow> p = p'"
  by (simp add: thread_at_def)

lemma thread_at_length: "thread_at s i p \<Longrightarrow> i < length (sh_places s)"
  by (simp add: thread_at_def)

lemma threads_start_at: "i < n \<Longrightarrow> thread_at (threads_start cap junk n) i Outside"
  by (simp add: thread_at_def threads_start_def)

lemma sync_inv_start: "sync_inv (queue_create cap junk) (threads_start cap junk n)"
  by (auto simp: sync_inv_def threads_start_def queue_create_ok thread_at_def)

text \<open>Mutual exclusion.\<close>

lemma sync_inv_exclusive:
  "sync_inv q0 s \<Longrightarrow> thread_at s i p \<Longrightarrow> holding p \<Longrightarrow> thread_at s j p' \<Longrightarrow> holding p' \<Longrightarrow> i = j"
  by (force simp: sync_inv_def)

lemma sync_inv_holder:
  "sync_inv q0 s \<Longrightarrow> thread_at s i p \<Longrightarrow> holding p \<Longrightarrow>
    sh_mutex s = Some i \<and> underway p q0 (sh_queue s) \<and> queue_ok q0"
  by (auto simp: sync_inv_def dest: thread_at_unique)

text \<open>A step of the thread that holds the mutex and keeps it.\<close>

lemma sync_inv_holds_on:
  assumes "sync_inv q0 s" and "thread_at s i p" and "holding p" and "holding p'"
    and "queue_ok q1" and "underway p' q1 q"
  shows "sync_inv q1 (goto i p' (s\<lparr>sh_queue := q\<rparr>))"
  using assms sync_inv_holder [OF assms(1-3)]
  by (auto simp: sync_inv_def thread_at_goto dest: thread_at_length)

text \<open>A step of a thread that does not hold the mutex, before and after.\<close>

lemma sync_inv_elsewhere:
  assumes "sync_inv q0 s" and "thread_at s i p" and "\<not> holding p" and "\<not> holding p'"
  shows "sync_inv q0 (goto i p' s)"
proof -
  have "sh_mutex s \<noteq> Some i" using assms by (force simp: sync_inv_def)
  with assms show ?thesis
    by (auto simp: sync_inv_def thread_at_goto split: option.splits dest: thread_at_length)
qed

lemma sync_inv_release:
  assumes "sync_inv q0 s" and "thread_at s i p" and "holding p" and "\<not> holding p'"
    and "sh_queue s = q0"
  shows "sync_inv q0 (goto i p' (s\<lparr>sh_mutex := None\<rparr>))"
  using assms sync_inv_holder [OF assms(1-3)]
  by (auto simp: sync_inv_def thread_at_goto dest: thread_at_length)

lemma sync_inv_acquire:
  assumes "sync_inv q0 s" and "thread_at s i p" and "sh_mutex s = None" and "holding p'"
    and "underway p' q0 (sh_queue s)"
  shows "sync_inv q0 (goto i p' (s\<lparr>sh_mutex := Some i\<rparr>))"
  using assms by (auto simp: sync_inv_def thread_at_goto dest: thread_at_length)

section \<open>Every step\<close>

lemma sync_inv_step:
  "queue_step s ev s' \<Longrightarrow> sync_inv q0 s \<Longrightarrow> \<exists>q1. replay [ev] q0 = Some q1 \<and> sync_inv q1 s'"
proof (induction rule: queue_step.induct)
  case (call s i c)
  then show ?case using sync_inv_elsewhere [of q0 s i Outside "Locking c"] by simp
next
  case (lock s i c)
  then have "sh_queue s = q0" by (simp add: sync_inv_def)
  with lock sync_inv_acquire [of q0 s i "Locking c" "Testing c"] show ?case by simp
next
  case (sleep s i c)
  with sync_inv_holder [of q0 s i "Testing c"] sync_inv_release [of q0 s i "Testing c" "Waiting c"]
  show ?case by simp
next
  case (give_up s i c)
  note h = sync_inv_holder [OF give_up.prems give_up.hyps(1)]
  from h have q: "sh_queue s = q0" by simp
  have s: "s\<lparr>sh_queue := q0\<rparr> = s" using q by simp
  from sync_inv_holds_on [OF give_up.prems give_up.hyps(1), of "Unlocking c (failure c, None)" q0 q0] h s
  show ?case using queue_call_stuck [OF give_up.hyps(2)] give_up.hyps(3) q by simp
next
  case (go_on s i c)
  note h = sync_inv_holder [OF go_on.prems go_on.hyps(1)]
  from h have q: "sh_queue s = q0" by simp
  have s: "s\<lparr>sh_queue := q0\<rparr> = s" using q by simp
  from sync_inv_holds_on [OF go_on.prems go_on.hyps(1), of "Storing c" q0 q0] h s go_on.hyps(2) q
  show ?case by simp
next
  case (store s i c)
  with sync_inv_holder [OF store.prems store.hyps] show ?case
    using sync_inv_holds_on [OF store.prems store.hyps] by simp
next
  case (advance s i c p)
  with sync_inv_holder [OF advance.prems advance.hyps] show ?case
    using sync_inv_holds_on [OF advance.prems advance.hyps] by simp
next
  case (recount s i c p)
  note h = sync_inv_holder [OF recount.prems recount.hyps]
  let ?q1 = "recount c (advance c (store c q0))"
  from h have q: "\<not> stuck c q0" "p = fetched c q0" "sh_queue s = advance c (store c q0)" "queue_ok q0"
    by simp_all
  have r: "queue_call c q0 = Returns ((QOK, p), ?q1)" using queue_call_free [OF q(1)] q(2) by simp
  with queue_call_list [OF q(4)] have "queue_ok ?q1" by blast
  with sync_inv_holds_on [OF recount.prems recount.hyps, of "Unlocking c (QOK, p)" ?q1 ?q1] q r
  show ?case by simp
next
  case (unlock s i c r)
  with sync_inv_holder [of q0 s i "Unlocking c r"]
    sync_inv_release [of q0 s i "Unlocking c r" "Signalling c r"]
  show ?case by simp
next
  case (signal s i c r j d)
  from sync_inv_elsewhere [OF signal.prems signal.hyps(2), of "Locking d"]
  have "sync_inv q0 (goto j (Locking d) s)" by simp
  moreover have "thread_at (goto j (Locking d) s) i (Signalling c r)"
    using signal.hyps by (auto simp: thread_at_goto dest: thread_at_unique)
  ultimately show ?case
    using sync_inv_elsewhere [of q0 "goto j (Locking d) s" i "Signalling c r" Outside] by simp
next
  case (signal_lost s i c r)
  then show ?case using sync_inv_elsewhere [of q0 s i "Signalling c r" Outside] by simp
next
  case (spurious s i c)
  then show ?case using sync_inv_elsewhere [of q0 s i "Waiting c" "Locking c"] by simp
qed

lemma replay_append:
  "replay (evs @ evs') q = (case replay evs q of None \<Rightarrow> None | Some q' \<Rightarrow> replay evs' q')"
  by (induction evs q rule: replay.induct) (auto split: call.splits)

lemma sync_inv_run:
  "queue_run s0 evs s \<Longrightarrow> sync_inv q0 s0 \<Longrightarrow> \<exists>q1. replay evs q0 = Some q1 \<and> sync_inv q1 s"
proof (induction rule: queue_run.induct)
  case start
  then show ?case by simp
next
  case (step evs s ev s')
  then obtain q1 where "replay evs q0 = Some q1" "sync_inv q1 s" by blast
  with sync_inv_step [OF step.hyps(2)] show ?case by (auto simp: replay_append)
qed

section \<open>Calls and returns\<close>

fun phase_of :: "'a place \<Rightarrow> 'a phase" where
  "phase_of Outside = Ready"
| "phase_of (Unlocking c r) = Answered c r"
| "phase_of (Signalling c r) = Answered c r"
| "phase_of (Locking c) = Called c"
| "phase_of (Testing c) = Called c"
| "phase_of (Waiting c) = Called c"
| "phase_of (Storing c) = Called c"
| "phase_of (Advancing c p) = Called c"
| "phase_of (Counting c p) = Called c"

lemma follow_step:
  "queue_step s ev s' \<Longrightarrow> thread_at s k p \<Longrightarrow>
    \<exists>p'. thread_at s' k p' \<and> follow k ev (phase_of p) = Some (phase_of p')"
  by (induction rule: queue_step.induct) (auto simp: thread_at_def goto_def nth_list_update)

lemma follow_all_append:
  "follow_all i (evs @ evs') ph =
    (case follow_all i evs ph of None \<Rightarrow> None | Some ph' \<Rightarrow> follow_all i evs' ph')"
  by (induction i evs ph rule: follow_all.induct) (auto split: option.splits)

lemma follow_run:
  "queue_run s0 evs s \<Longrightarrow> thread_at s0 k p \<Longrightarrow>
    \<exists>p'. thread_at s k p' \<and> follow_all k evs (phase_of p) = Some (phase_of p')"
proof (induction rule: queue_run.induct)
  case start
  then show ?case by auto
next
  case (step evs s ev s')
  then obtain p1 where p1: "thread_at s k p1" "follow_all k evs (phase_of p) = Some (phase_of p1)" by blast
  from follow_step [OF step.hyps(2) p1(1)] p1(2) show ?case by (auto simp: follow_all_append)
qed

end
