(* ===== verification/QueueWake.thy ===== *)
theory QueueWake imports QueueSync begin

text \<open>
  The condition variables of \<open>lib/queue.c\<close>: no wakeup is lost although the signals are
  sent after the mutex was released, no thread is stuck for ever, and threads that make
  no further calls come to rest.
\<close>

section \<open>Counting places\<close>

lemma sum_list_list_update:
  fixes w :: "'p \<Rightarrow> nat"
  assumes "i < length xs"
  shows "sum_list (map w (xs[i := y])) + w (xs ! i) = sum_list (map w xs) + w y"
  using assms by (induction xs arbitrary: i) (auto split: nat.split simp: less_Suc_eq_0_disj)

definition total :: "('a place \<Rightarrow> nat) \<Rightarrow> 'a shared \<Rightarrow> nat" where
  "total w s = sum_list (map w (sh_places s))"

lemma total_goto:
  assumes "thread_at s i p"
  shows "total w (goto i p' s) + w p = total w s + w p'"
  using assms sum_list_list_update [of i "sh_places s" w p']
  by (simp add: total_def goto_def thread_at_def)

lemma total_fields [simp]:
  "total w (s\<lparr>sh_queue := q\<rparr>) = total w s" "total w (s\<lparr>sh_mutex := m\<rparr>) = total w s"
  by (simp_all add: total_def)

section \<open>No wakeup is lost\<close>

text \<open>
  For each side (\<open>a\<close>: the side of \<open>queue_add\<close>): how many of its calls could take effect,
  the threads that sleep, and those that will look at the queue again or are about to
  signal to the side.
\<close>

definition stock :: "bool \<Rightarrow> 'a queue_t \<Rightarrow> nat" where
  "stock a q = (if a then q_cap q - q_sz q else q_sz q)"

fun waits :: "bool \<Rightarrow> 'a place \<Rightarrow> bool" where
  "waits a (Waiting c) = (is_add c = a)"
| "waits a _ = False"

fun_cases waitsE: "waits a p"

fun hope :: "bool \<Rightarrow> 'a place \<Rightarrow> bool" where
  "hope a (Locking c) = (is_add c = a)"
| "hope a (Testing c) = (is_add c = a)"
| "hope a (Storing c) = (is_add c = a)"
| "hope a (Advancing c p) = (is_add c = a)"
| "hope a (Counting c p) = (is_add c = a)"
| "hope a (Unlocking c r) = (is_add c \<noteq> a \<and> fst r = QOK)"
| "hope a (Signalling c r) = (is_add c \<noteq> a \<and> fst r = QOK)"
| "hope a _ = False"

definition waiter :: "bool \<Rightarrow> 'a shared \<Rightarrow> bool" where
  "waiter a s \<longleftrightarrow> (\<exists>p \<in> set (sh_places s). waits a p)"

definition hopes :: "bool \<Rightarrow> 'a shared \<Rightarrow> nat" where
  "hopes a s = total (\<lambda>p. of_bool (hope a p)) s"

definition wake_inv :: "'a shared \<Rightarrow> bool" where
  "wake_inv s \<longleftrightarrow> (\<forall>a. waiter a s \<longrightarrow> stock a (sh_queue s) \<le> hopes a s)"

lemma waiter_iff: "waiter a s \<longleftrightarrow> (\<exists>i p. thread_at s i p \<and> waits a p)"
  unfolding waiter_def thread_at_def by (metis in_set_conv_nth)

lemma waiter_goto: "waiter a (goto i p s) \<Longrightarrow> \<not> waits a p \<Longrightarrow> waiter a s"
  by (auto simp: waiter_iff thread_at_goto split: if_splits)

lemma waiter_fields [simp]:
  "waiter a (s\<lparr>sh_queue := q\<rparr>) = waiter a s" "waiter a (s\<lparr>sh_mutex := m\<rparr>) = waiter a s"
  by (simp_all add: waiter_def)

lemma hopes_goto:
  assumes "thread_at s i p"
  shows "hopes a (goto i p' s) + of_bool (hope a p) = hopes a s + of_bool (hope a p')"
  using total_goto [OF assms, of "\<lambda>p. of_bool (hope a p)"] by (simp add: hopes_def)

lemma hopes_fields [simp]:
  "hopes a (s\<lparr>sh_queue := q\<rparr>) = hopes a s" "hopes a (s\<lparr>sh_mutex := m\<rparr>) = hopes a s"
  by (simp_all add: hopes_def)

text \<open>A step that leaves the size alone and does not put the thread to sleep.\<close>

lemma wake_inv_goto:
  assumes "wake_inv s" and "thread_at s i p"
    and "\<And>a. \<not> waits a p'" and "\<And>a. waiter a s \<Longrightarrow> hope a p \<Longrightarrow> hope a p' \<or> stock a (sh_queue s) = 0"
  shows "wake_inv (goto i p' s)"
  unfolding wake_inv_def
proof (intro allI impI)
  fix a
  assume "waiter a (goto i p' s)"
  with assms(3) have w: "waiter a s" by (blast dest: waiter_goto)
  then have "stock a (sh_queue s) \<le> hopes a s" using assms(1) by (simp add: wake_inv_def)
  with hopes_goto [OF assms(2), of a p'] assms(4) [OF w]
  show "stock a (sh_queue (goto i p' s)) \<le> hopes a (goto i p' s)"
    by (cases "hope a p"; cases "hope a p'") auto
qed

lemma wake_inv_fields:
  "wake_inv s \<Longrightarrow> q_sz q = q_sz (sh_queue s) \<Longrightarrow> q_cap q = q_cap (sh_queue s) \<Longrightarrow>
    wake_inv (s\<lparr>sh_queue := q\<rparr>)"
  "wake_inv (s\<lparr>sh_mutex := m\<rparr>) = wake_inv s"
  by (auto simp: wake_inv_def stock_def split: if_splits)

lemma size_fixed:
  "q_sz (store c q) = q_sz q" "q_cap (store c q) = q_cap q"
  "q_sz (advance c q) = q_sz q" "q_cap (advance c q) = q_cap q"
  by (cases c; simp)+

lemma stuck_stock: "stuck c q \<longleftrightarrow> (if is_add c then q_cap q = q_sz q else stock False q = 0)"
  by (cases c) (auto simp: stock_def)

lemma wake_inv_step:
  "queue_step s ev s' \<Longrightarrow> sync_inv q0 s \<Longrightarrow> wake_inv s \<Longrightarrow> wake_inv s'"
proof (induction rule: queue_step.induct)
  case (sleep s i c)
  let ?s = "goto i (Waiting c) (s\<lparr>sh_mutex := None\<rparr>)"
  have "stock a (sh_queue s) \<le> hopes a ?s" if "waiter a ?s" for a
  proof (cases "a = is_add c")
    case True
    with sleep.hyps(2) show ?thesis by (auto simp: stuck_stock stock_def split: if_splits)
  next
    case False
    then have "waiter a s" using that waiter_goto [of a i "Waiting c" "s\<lparr>sh_mutex := None\<rparr>"] by auto
    then have "stock a (sh_queue s) \<le> hopes a s" using sleep.prems(2) by (simp add: wake_inv_def)
    with hopes_goto [of "s\<lparr>sh_mutex := None\<rparr>" i "Testing c" a "Waiting c"] sleep.hyps(1) False
    show ?thesis by auto
  qed
  then show ?case by (simp add: wake_inv_def)
next
  case (give_up s i c)
  then show ?case
    by (intro wake_inv_goto [OF _ give_up.hyps(1)])
      (auto simp: stuck_stock stock_def split: if_splits)
next
  case (recount s i c p)
  let ?q = "sh_queue s" and ?s = "goto i (Unlocking c (QOK, p)) (s\<lparr>sh_queue := recount c (sh_queue s)\<rparr>)"
  from sync_inv_holder [OF recount.prems(1) recount.hyps]
  have q: "\<not> stuck c q0" "q_sz ?q = q_sz q0" "q_cap ?q = q_cap q0" "queue_ok q0"
    by (simp_all add: size_fixed)
  have sup: "stock a (recount c ?q) + of_bool (a = is_add c) = stock a ?q + of_bool (a \<noteq> is_add c)" for a
    using q by (cases c; cases a) (auto simp: stock_def queue_ok_def)
  have "stock a (recount c ?q) \<le> hopes a ?s" if "waiter a ?s" for a
  proof -
    have "waiter a s" using that waiter_goto [of a i _ "s\<lparr>sh_queue := recount c ?q\<rparr>"] by auto
    then have "stock a ?q \<le> hopes a s" using recount.prems(2) by (simp add: wake_inv_def)
    with hopes_goto [of "s\<lparr>sh_queue := recount c ?q\<rparr>" i "Counting c p" a "Unlocking c (QOK, p)"] sup [of a]
      recount.hyps show ?thesis by (cases "is_add c"; cases a) auto
  qed
  then show ?case by (simp add: wake_inv_def)
next
  case (signal s i c r j d)
  let ?s = "goto j (Locking d) s" and ?t = "goto i Outside (goto j (Locking d) s)"
  have at: "thread_at ?s i (Signalling c r)"
    using signal.hyps by (auto simp: thread_at_goto dest: thread_at_unique)
  have "stock a (sh_queue s) \<le> hopes a ?t" if "waiter a ?t" for a
  proof -
    have "waiter a s" using that by (auto dest!: waiter_goto)
    then have "stock a (sh_queue s) \<le> hopes a s" using signal.prems(2) by (simp add: wake_inv_def)
    with hopes_goto [OF signal.hyps(2), of a "Locking d"] hopes_goto [OF at, of a Outside] signal.hyps(3)
    show ?thesis by (auto simp: of_bool_def split: if_splits)
  qed
  then show ?case by (simp add: wake_inv_def)
next
  case (signal_lost s i c r)
  have "\<not> waiter a s" if "is_add c \<noteq> a" for a
  proof
    assume "waiter a s"
    then obtain p where p: "p \<in> set (sh_places s)" "waits a p" by (auto simp: waiter_def)
    from p(2) obtain d where "p = Waiting d" "is_add d = a" by (rule waitsE)
    with signal_lost.hyps(2) p(1) that show False by (auto simp: list_all_iff)
  qed
  with signal_lost show ?case by (intro wake_inv_goto [OF _ signal_lost.hyps(1)]) auto
qed (auto intro!: wake_inv_goto wake_inv_fields simp: wake_inv_fields size_fixed)

lemma wake_inv_start: "wake_inv (threads_start cap junk n)"
  by (auto simp: wake_inv_def waiter_def threads_start_def)

lemma wake_inv_run:
  "queue_run s0 evs s \<Longrightarrow> sync_inv q0 s0 \<Longrightarrow> wake_inv s0 \<Longrightarrow> wake_inv s"
proof (induction rule: queue_run.induct)
  case start
  then show ?case by simp
next
  case (step evs s ev s')
  with sync_inv_run [OF step.hyps(1)] obtain q1 where "sync_inv q1 s" by blast
  with step show ?case by (blast intro: wake_inv_step)
qed

section \<open>Coming to rest\<close>

text \<open>The steps that a thread makes by itself: neither a new call nor a spurious wakeup.\<close>

fun own :: "'a event \<Rightarrow> bool" where
  "own (Call i c) = False"
| "own (Spurious i) = False"
| "own _ = True"

fun resting :: "'a place \<Rightarrow> bool" where
  "resting Outside = True"
| "resting (Waiting c) = True"
| "resting _ = False"

definition at_rest :: "'a shared \<Rightarrow> bool" where
  "at_rest s \<longleftrightarrow> list_all resting (sh_places s)"

lemma not_at_rest: "\<not> at_rest s \<Longrightarrow> \<exists>i p. thread_at s i p \<and> \<not> resting p"
  by (auto simp: at_rest_def list_all_iff thread_at_def in_set_conv_nth)

lemma movesI: "queue_step s ev s' \<Longrightarrow> own ev \<Longrightarrow> \<exists>ev s'. own ev \<and> queue_step s ev s'"
  by blast

lemma holder_moves:
  assumes "thread_at s i p" and "holding p"
  shows "\<exists>ev s'. own ev \<and> queue_step s ev s'"
proof (cases p)
  case (Testing c)
  show ?thesis
  proof (cases "stuck c (sh_queue s)")
    case True
    with queue_step.sleep [of s i c, THEN movesI] queue_step.give_up [of s i c, THEN movesI] assms(1) Testing
    show ?thesis by (cases "blocking c") simp_all
  next
    case False
    with queue_step.go_on [of s i c] assms(1) Testing show ?thesis by (force intro: movesI)
  qed
next
  case (Storing c)
  with queue_step.store [of s i c] assms(1) show ?thesis by (force intro: movesI)
next
  case (Advancing c q)
  with queue_step.advance [of s i c q] assms(1) show ?thesis by (force intro: movesI)
next
  case (Counting c q)
  with queue_step.recount [of s i c q] assms(1) show ?thesis by (force intro: movesI)
next
  case (Unlocking c r)
  with queue_step.unlock [of s i c r] assms(1) show ?thesis by (force intro: movesI)
qed (use assms(2) in simp_all)

text \<open>Some thread can move unless all are at rest.\<close>

lemma some_thread_moves:
  assumes "sync_inv q0 s" and "\<not> at_rest s"
  shows "\<exists>ev s'. own ev \<and> queue_step s ev s'"
proof -
  from not_at_rest [OF assms(2)] obtain i p where p: "thread_at s i p" "\<not> resting p" by blast
  show ?thesis
  proof (cases "holding p")
    case True
    with holder_moves [OF p(1)] show ?thesis by blast
  next
    case False
    show ?thesis
    proof (cases p)
      case (Locking c)
      show ?thesis
      proof (cases "sh_mutex s")
        case None
        with queue_step.lock [of s i c] p(1) Locking show ?thesis by (force intro: movesI)
      next
        case (Some j)
        with assms(1) obtain p' where "thread_at s j p'" "holding p'" by (force simp: sync_inv_def)
        then show ?thesis by (rule holder_moves)
      qed
    next
      case (Signalling c r)
      show ?thesis
      proof (cases "waiter (\<not> is_add c) s")
        case True
        then obtain j q where j: "thread_at s j q" "waits (\<not> is_add c) q" by (auto simp: waiter_iff)
        from j(2) obtain d where "q = Waiting d" "is_add d \<noteq> is_add c" by (rule waitsE) simp
        with queue_step.signal [of s i c r j d] p(1) j(1) Signalling show ?thesis by (force intro: movesI)
      next
        case False
        have "list_all (\<lambda>p. case p of Waiting d \<Rightarrow> is_add d = is_add c | _ \<Rightarrow> True) (sh_places s)"
          unfolding list_all_iff
        proof
          fix q assume "q \<in> set (sh_places s)"
          with False show "case q of Waiting d \<Rightarrow> is_add d = is_add c | _ \<Rightarrow> True"
            by (cases q) (auto simp: waiter_def)
        qed
        with queue_step.signal_lost [of s i c r] p(1) Signalling show ?thesis by (force intro: movesI)
      qed
    qed (use False p(2) in simp_all)
  qed
qed

text \<open>A return pays for the thread that it wakes.\<close>

fun effort :: "'a place \<Rightarrow> nat" where
  "effort Outside = 0"
| "effort (Locking c) = 16"
| "effort (Testing c) = 15"
| "effort (Storing c) = 14"
| "effort (Advancing c p) = 13"
| "effort (Counting c p) = 12"
| "effort (Unlocking c r) = 11"
| "effort (Signalling c r) = 10"
| "effort (Waiting c) = 10"

lemma effort_goto:
  "thread_at s i p \<Longrightarrow> effort p' < effort p \<Longrightarrow> total effort (goto i p' s) < total effort s"
  using total_goto [of s i p effort p'] by linarith

lemma effort_goto_fields:
  "thread_at s i p \<Longrightarrow> effort p' < effort p \<Longrightarrow>
    total effort (goto i p' (s\<lparr>sh_queue := q\<rparr>)) < total effort s"
  "thread_at s i p \<Longrightarrow> effort p' < effort p \<Longrightarrow>
    total effort (goto i p' (s\<lparr>sh_mutex := m\<rparr>)) < total effort s"
  using effort_goto [of "s\<lparr>sh_queue := q\<rparr>" i p p'] effort_goto [of "s\<lparr>sh_mutex := m\<rparr>" i p p'] by simp_all

lemma effort_step: "queue_step s ev s' \<Longrightarrow> own ev \<Longrightarrow> total effort s' < total effort s"
proof (induction rule: queue_step.induct)
  case (signal s i c r j d)
  have "thread_at (goto j (Locking d) s) i (Signalling c r)"
    using signal.hyps by (auto simp: thread_at_goto dest: thread_at_unique)
  with total_goto [OF signal.hyps(2), of effort "Locking d"]
    total_goto [of "goto j (Locking d) s" i "Signalling c r" effort Outside] show ?case by simp
qed (auto elim: effort_goto effort_goto_fields)

lemma own_run_effort:
  "queue_run s evs s' \<Longrightarrow> list_all own evs \<Longrightarrow> length evs + total effort s' \<le> total effort s"
proof (induction rule: queue_run.induct)
  case start
  then show ?case by simp
next
  case (step evs s ev s')
  with effort_step [OF step.hyps(2)] show ?case by simp
qed

lemma places_fixed: "queue_step s ev s' \<Longrightarrow> length (sh_places s') = length (sh_places s)"
  by (induction rule: queue_step.induct) simp_all

lemma run_places_fixed: "queue_run s0 evs s \<Longrightarrow> length (sh_places s) = length (sh_places s0)"
  by (induction rule: queue_run.induct) (simp_all add: places_fixed)

lemma total_effort_le: "total effort s \<le> 16 * length (sh_places s)"
proof -
  have "effort p \<le> 16" for p :: "'a place" by (cases p) simp_all
  then have "sum_list (map effort ps) \<le> 16 * length ps" for ps :: "'a place list"
    by (induction ps) (auto simp: add_mono)
  then show ?thesis by (simp add: total_def)
qed

lemma at_rest_waiters:
  assumes "wake_inv s" and "at_rest s" and "thread_at s i (Waiting c)"
  shows "stock (is_add c) (sh_queue s) = 0"
proof -
  have "\<not> hope a p" if "p \<in> set (sh_places s)" for a p
    using assms(2) that by (cases p) (auto simp: at_rest_def list_all_iff)
  then have "hopes (is_add c) s = 0" by (simp add: hopes_def total_def sum_list_eq_0_iff)
  moreover have "waiter (is_add c) s" using assms(3) by (force simp: waiter_iff)
  ultimately show ?thesis using assms(1) by (auto simp: wake_inv_def)
qed

end
