(* ===== verification/QueueProps.thy ===== *)
theory QueueProps imports QueueWake begin

text \<open>
  What the threads around a queue of \<open>lib/queue.c\<close> can rely on, and a scheduler that
  runs them on concrete calls.
\<close>

section \<open>What goes in comes out\<close>

text \<open>The entries that were added and taken, with the thread that did it, in the order of the effects.\<close>

fun added :: "'a event list \<Rightarrow> (nat \<times> 'a) list" where
  "added [] = []"
| "added (Effect i (Op_add e block) r # evs) = (if fst r = QOK then (i, e) # added evs else added evs)"
| "added (_ # evs) = added evs"

fun taken :: "'a event list \<Rightarrow> (nat \<times> 'a) list" where
  "taken [] = []"
| "taken (Effect i (Op_take block) (err, Some e) # evs) = (i, e) # taken evs"
| "taken (_ # evs) = taken evs"

lemma replay_fifo:
  "replay evs q = Some q' \<Longrightarrow> queue_ok q \<Longrightarrow>
    queue_ok q' \<and> queue_list q @ map snd (added evs) = map snd (taken evs) @ queue_list q'"
proof (induction evs arbitrary: q)
  case Nil
  then show ?case by simp
next
  case (Cons ev evs)
  show ?case
  proof (cases ev)
    case (Effect i c r)
    with Cons.prems(1) obtain q1 where q1: "queue_call c q = Returns (r, q1)" "replay evs q1 = Some q'"
      by (auto split: call.splits if_splits)
    note call = queue_call_list [OF Cons.prems(2) q1(1)]
    with Cons.IH [OF q1(2)]
    have ih: "queue_ok q'" "queue_list q1 @ map snd (added evs) = map snd (taken evs) @ queue_list q'"
      by auto
    show ?thesis
    proof (cases c)
      case (Op_add e b)
      with call ih Effect show ?thesis by auto
    next
      case (Op_take b)
      with call ih Effect show ?thesis by auto
    qed
  qed (use Cons in simp_all)
qed

section \<open>A scheduler\<close>

text \<open>
  The next step of the thread \<open>i\<close> after its call, if it has one; a signal wakes the
  sleeper with the smallest number.
\<close>

definition sleeper :: "bool \<Rightarrow> 'a shared \<Rightarrow> (nat \<times> 'a queue_op) option" where
  "sleeper a s = List.find (\<lambda>(j, c). True)
     [(j, c). (j, Waiting c) \<leftarrow> enumerate 0 (sh_places s), is_add c = a]"

fun move_from :: "'a place \<Rightarrow> nat \<Rightarrow> 'a shared \<Rightarrow> ('a event \<times> 'a shared) option" where
  "move_from Outside i s = None"
| "move_from (Waiting c) i s = None"
| "move_from (Locking c) i s =
     (if sh_mutex s = None then Some (Silent i, goto i (Testing c) (s\<lparr>sh_mutex := Some i\<rparr>)) else None)"
| "move_from (Testing c) i s =
     (if \<not> stuck c (sh_queue s) then Some (Silent i, goto i (Storing c) s)
      else if blocking c then Some (Silent i, goto i (Waiting c) (s\<lparr>sh_mutex := None\<rparr>))
      else Some (Effect i c (failure c, None), goto i (Unlocking c (failure c, None)) s))"
| "move_from (Storing c) i s = Some (Silent i,
     goto i (Advancing c (fetched c (sh_queue s))) (s\<lparr>sh_queue := store c (sh_queue s)\<rparr>))"
| "move_from (Advancing c p) i s =
     Some (Silent i, goto i (Counting c p) (s\<lparr>sh_queue := advance c (sh_queue s)\<rparr>))"
| "move_from (Counting c p) i s = Some (Effect i c (QOK, p),
     goto i (Unlocking c (QOK, p)) (s\<lparr>sh_queue := recount c (sh_queue s)\<rparr>))"
| "move_from (Unlocking c r) i s = Some (Silent i, goto i (Signalling c r) (s\<lparr>sh_mutex := None\<rparr>))"
| "move_from (Signalling c r) i s = Some (Return i c r,
     goto i Outside (case sleeper (\<not> is_add c) s of None \<Rightarrow> s | Some (j, d) \<Rightarrow> goto j (Locking d) s))"

lemma sleeper_Some: "sleeper a s = Some (j, c) \<Longrightarrow> thread_at s j (Waiting c) \<and> is_add c = a"
proof -
  assume "sleeper a s = Some (j, c)"
  then have "(j, c) \<in> set [(j, c). (j, Waiting c) \<leftarrow> enumerate 0 (sh_places s), is_add c = a]"
    unfolding sleeper_def by (metis (no_types, lifting) find_Some_iff nth_mem)
  then show ?thesis
    by (auto simp: thread_at_def in_set_enumerate_eq split: place.splits if_splits)
qed

lemma sleeper_None: "sleeper a s = None \<Longrightarrow> \<not> waiter a s"
proof
  assume n: "sleeper a s = None" and "waiter a s"
  then obtain j c where "thread_at s j (Waiting c)" "is_add c = a"
    by (auto simp: waiter_iff elim: waitsE)
  then have "(j, c) \<in> set [(j, c). (j, Waiting c) \<leftarrow> enumerate 0 (sh_places s), is_add c = a]"
    by (force simp: thread_at_def in_set_enumerate_eq)
  moreover have "\<not> (\<exists>x. x \<in> set [(j, c). (j, Waiting c) \<leftarrow> enumerate 0 (sh_places s), is_add c = a])"
    using n unfolding sleeper_def by (simp only: find_None_iff split_def simp_thms)
  ultimately show False by blast
qed

lemma no_waiter_list:
  "\<not> waiter (\<not> is_add c) s \<Longrightarrow>
    list_all (\<lambda>p. case p of Waiting d \<Rightarrow> is_add d = is_add c | _ \<Rightarrow> True) (sh_places s)"
  by (fastforce simp: list_all_iff waiter_def split: place.splits)

lemma move_from_step:
  assumes "move_from p i s = Some (ev, s')" and "thread_at s i p"
  shows "queue_step s ev s' \<and> own ev"
proof (cases p)
  case (Signalling c r)
  show ?thesis
  proof (cases "sleeper (\<not> is_add c) s")
    case None
    with assms Signalling queue_step.signal_lost [OF _ no_waiter_list [OF sleeper_None]] show ?thesis
      by fastforce
  next
    case (Some jd)
    then obtain j d where jd: "jd = (j, d)" "sleeper (\<not> is_add c) s = Some (j, d)" by (cases jd) auto
    from sleeper_Some [OF jd(2)] queue_step.signal [of s i c r j d] assms Signalling jd Some
    show ?thesis by auto
  qed
qed (use assms in \<open>auto intro: queue_step.intros split: if_splits\<close>)

text \<open>A schedule: calls, and the numbers of the threads that move.\<close>

datatype 'a action = Start nat "'a queue_op" | Move nat

fun act :: "'a action \<Rightarrow> 'a shared \<Rightarrow> ('a event \<times> 'a shared) option" where
  "act (Start i c) s =
     (if i < length (sh_places s) \<and> sh_places s ! i = Outside then Some (Call i c, goto i (Locking c) s)
      else None)"
| "act (Move i) s = (if i < length (sh_places s) then move_from (sh_places s ! i) i s else None)"

fun schedule :: "'a action list \<Rightarrow> 'a shared \<Rightarrow> ('a event list \<times> 'a shared) option" where
  "schedule [] s = Some ([], s)"
| "schedule (a # as) s =
     (case act a s of None \<Rightarrow> None
      | Some (ev, s1) \<Rightarrow>
          (case schedule as s1 of None \<Rightarrow> None | Some (evs, s2) \<Rightarrow> Some (ev # evs, s2)))"

lemma act_step: "act a s = Some (ev, s') \<Longrightarrow> queue_step s ev s'"
  using move_from_step [of _ _ s ev s'] queue_step.call [of s]
  by (cases a) (auto simp: thread_at_def split: if_splits)

lemma queue_run_Cons:
  "queue_run s1 evs s \<Longrightarrow> queue_step s0 ev s1 \<Longrightarrow> queue_run s0 (ev # evs) s"
proof (induction rule: queue_run.induct)
  case start
  then show ?case using queue_run.step [OF queue_run.start] by fastforce
next
  case (step evs s ev' s')
  then show ?case using queue_run.step [of s0 "ev # evs" s ev' s'] by simp
qed

lemma schedule_run: "schedule as s = Some (evs, s') \<Longrightarrow> queue_run s evs s'"
proof (induction as arbitrary: s evs)
  case Nil
  then show ?case by (auto intro: queue_run.start)
next
  case (Cons a as)
  then obtain ev s1 evs1 where "act a s = Some (ev, s1)" "schedule as s1 = Some (evs1, s')" "evs = ev # evs1"
    by (auto split: option.splits)
  with Cons.IH [of s1 evs1] act_step [of a s ev s1] show ?case by (auto intro: queue_run_Cons)
qed

section \<open>Runs in two parts\<close>

lemma queue_run_append: "queue_run s0 evs s \<Longrightarrow> queue_run s evs' s' \<Longrightarrow> queue_run s0 (evs @ evs') s'"
proof (rotate_tac, induction rule: queue_run.induct)
  case start
  then show ?case by simp
next
  case (step evs' s1 ev s2)
  then show ?case using queue_run.step [of s0 "evs @ evs'" s1 ev s2] by simp
qed

text \<open>Only blocking calls sleep.\<close>

definition sleepers_block :: "'a shared \<Rightarrow> bool" where
  "sleepers_block s \<longleftrightarrow> list_all (\<lambda>p. case p of Waiting c \<Rightarrow> blocking c | _ \<Rightarrow> True) (sh_places s)"

lemma sleepers_block_at: "sleepers_block s \<Longrightarrow> thread_at s i (Waiting c) \<Longrightarrow> blocking c"
  by (auto simp: sleepers_block_def list_all_length thread_at_def)

lemma sleepers_block_goto:
  "sleepers_block s \<Longrightarrow> (case p of Waiting c \<Rightarrow> blocking c | _ \<Rightarrow> True) \<Longrightarrow> sleepers_block (goto i p s)"
  by (auto simp: sleepers_block_def goto_def list_all_iff dest!: set_update_subset_insert [THEN subsetD])

lemma sleepers_block_fields [simp]:
  "sleepers_block (s\<lparr>sh_queue := q\<rparr>) = sleepers_block s" "sleepers_block (s\<lparr>sh_mutex := m\<rparr>) = sleepers_block s"
  by (simp_all add: sleepers_block_def)

lemma sleepers_block_step: "queue_step s ev s' \<Longrightarrow> sleepers_block s \<Longrightarrow> sleepers_block s'"
  by (induction rule: queue_step.induct) (auto intro!: sleepers_block_goto)

lemma sleepers_block_run: "queue_run s0 evs s \<Longrightarrow> sleepers_block s0 \<Longrightarrow> sleepers_block s"
  by (induction rule: queue_run.induct) (auto intro: sleepers_block_step)

lemma sleepers_block_start: "sleepers_block (threads_start cap junk n)"
  by (simp add: sleepers_block_def threads_start_def list_all_length)

lemma at_rest_at: "at_rest s \<Longrightarrow> thread_at s i p \<Longrightarrow> resting p"
  by (auto simp: at_rest_def list_all_length thread_at_def)

lemma at_rest_step: "queue_step s ev s' \<Longrightarrow> at_rest s \<Longrightarrow> \<not> own ev"
  by (induction rule: queue_step.induct) (auto dest: at_rest_at)

text \<open>With all threads at rest the mutex is free and the queue is in order.\<close>

lemma rest_queue_ok:
  assumes "sync_inv q s" and "at_rest s"
  shows "queue_ok (sh_queue s)"
proof -
  have "sh_mutex s = None"
  proof (rule ccontr)
    assume "sh_mutex s \<noteq> None"
    then obtain i p where "thread_at s i p" "holding p" using assms(1) by (force simp: sync_inv_def)
    moreover from at_rest_at [OF assms(2) this(1)] have "resting p" .
    ultimately show False by (cases p) simp_all
  qed
  with assms(1) show ?thesis by (simp add: sync_inv_def)
qed

lemma no_stock_stuck: "queue_ok q \<Longrightarrow> stock (is_add c) q = 0 \<Longrightarrow> stuck c q"
  by (cases c) (auto simp: stock_def queue_ok_def)

section \<open>The properties\<close>

text \<open>
  C7: \<open>queue_add\<close> and \<open>queue_take\<close> are linearizable. However the statements of the
  threads interleave, every call has one effect between its beginning and its return and
  returns what this effect gave, and the effects, one after the other, are those of the
  atomic operations; nobody ever sees another state of the queue with the mutex free.
\<close>

theorem queue_linearizable:
  assumes "queue_run (threads_start cap junk n) evs s"
  shows "(\<exists>q. replay evs (queue_create cap junk) = Some q \<and> (sh_mutex s = None \<longrightarrow> sh_queue s = q)) \<and>
    (\<forall>i < n. \<exists>ph. follow_all i evs Ready = Some ph)"
proof (intro conjI allI impI)
  from sync_inv_run [OF assms sync_inv_start]
  show "\<exists>q. replay evs (queue_create cap junk) = Some q \<and> (sh_mutex s = None \<longrightarrow> sh_queue s = q)"
    by (auto simp: sync_inv_def)
  fix i assume "i < n"
  from follow_run [OF assms threads_start_at [OF this]] show "\<exists>ph. follow_all i evs Ready = Some ph" by auto
qed

definition two_threads :: "nat shared" where
  "two_threads = threads_start 1 0 2"

text \<open>The thread 1 waits for an entry, which the thread 0 adds.\<close>

definition handover :: "'a \<Rightarrow> 'a action list" where
  "handover e = Start 1 (Op_take True) # replicate 2 (Move 1) @
     Start 0 (Op_add e True) # replicate 7 (Move 0) @ replicate 7 (Move 1)"

definition handover_events :: "'a \<Rightarrow> 'a event list" where
  "handover_events e =
     [Call 1 (Op_take True), Silent 1, Silent 1,
      Call 0 (Op_add e True), Silent 0, Silent 0, Silent 0, Silent 0, Effect 0 (Op_add e True) (QOK, None),
      Silent 0, Return 0 (Op_add e True) (QOK, None),
      Silent 1, Silent 1, Silent 1, Silent 1, Effect 1 (Op_take True) (QOK, Some e),
      Silent 1, Return 1 (Op_take True) (QOK, Some e)]"

lemma handover_run:
  assumes "0 < cap"
  shows "\<exists>s. queue_run (threads_start cap junk 2) (handover_events e) s \<and>
    sh_mutex s = None \<and> sh_places s = [Outside, Outside]"
proof -
  obtain s where "schedule (handover e) (threads_start cap junk 2) = Some (handover_events e, s)"
    "sh_mutex s = None" "sh_places s = [Outside, Outside]"
    using assms
    by (simp add: handover_def handover_events_def threads_start_def queue_create_def goto_def
        numeral_nat sleeper_def)
  with schedule_run show ?thesis by blast
qed

lemma handover_moved: "added (handover_events e) = [(0, e)]" "taken (handover_events e) = [(1, e)]"
  by (simp_all add: handover_events_def)

theorem queue_linearizable_witness:
  "\<exists>s q. queue_run (threads_start 1 (0 :: nat) 2) (handover_events 7) s \<and>
    replay (handover_events 7) (queue_create 1 0) = Some q \<and> sh_queue s = q"
proof -
  obtain s where "queue_run (threads_start 1 (0 :: nat) 2) (handover_events 7) s" "sh_mutex s = None"
    using handover_run [of 1 "0 :: nat" 7] by auto
  with queue_linearizable [OF this(1)] show ?thesis by blast
qed

text \<open>
  Every entry is taken at most once, in the order of the additions, and nothing is
  lost or made up: what was added is what was taken followed by what is in the queue.
\<close>

theorem queue_exactly_once:
  assumes "queue_run (threads_start cap junk n) evs s" and "sh_mutex s = None"
  shows "map snd (added evs) = map snd (taken evs) @ queue_list (sh_queue s)"
proof -
  from sync_inv_run [OF assms(1) sync_inv_start] assms(2)
  have "replay evs (queue_create cap junk) = Some (sh_queue s)" by (auto simp: sync_inv_def)
  from replay_fifo [OF this queue_create_ok] show ?thesis by (simp add: queue_create_list)
qed

theorem queue_exactly_once_witness:
  "\<exists>s. queue_run (threads_start 1 (0 :: nat) 2) (handover_events 7) s \<and> queue_list (sh_queue s) = []"
proof -
  obtain s where r: "queue_run (threads_start 1 (0 :: nat) 2) (handover_events 7) s" "sh_mutex s = None"
    using handover_run [of 1 "0 :: nat" 7] by auto
  from queue_exactly_once [OF r] have "queue_list (sh_queue s) = []" by (simp add: handover_moved)
  with r(1) show ?thesis by blast
qed



end
