(* ===== verification/QueueCalls.thy ===== *)
theory QueueCalls imports QueueProps begin

text \<open>
  The threads around a queue one by one: their calls, which of them have taken effect, and
  what they have added.
\<close>

section \<open>The calls of one thread\<close>

fun calls_of :: "nat \<Rightarrow> 'a event list \<Rightarrow> 'a queue_op list" where
  "calls_of i [] = []"
| "calls_of i (Call j c # evs) = (if j = i then c # calls_of i evs else calls_of i evs)"
| "calls_of i (_ # evs) = calls_of i evs"

fun effects_of :: "nat \<Rightarrow> 'a event list \<Rightarrow> 'a queue_op list" where
  "effects_of i [] = []"
| "effects_of i (Effect j c r # evs) = (if j = i then c # effects_of i evs else effects_of i evs)"
| "effects_of i (_ # evs) = effects_of i evs"

fun pending :: "'a phase \<Rightarrow> 'a queue_op list" where
  "pending (Called c) = [c]"
| "pending _ = []"

lemma calls_effects:
  "follow_all i evs ph = Some ph' \<Longrightarrow> pending ph @ calls_of i evs = effects_of i evs @ pending ph'"
proof (induction evs arbitrary: ph)
  case Nil
  then show ?case by simp
next
  case (Cons ev evs)
  then obtain ph1 where "follow i ev ph = Some ph1" "follow_all i evs ph1 = Some ph'"
    by (auto split: option.splits)
  with Cons.IH [of ph1] show ?case
    by (cases ev) (auto split: if_splits)
qed

text \<open>What the thread \<open>i\<close> has added, and what the calls of a thread would add if none gave up.\<close>

definition added_by :: "nat \<Rightarrow> 'a event list \<Rightarrow> 'a list" where
  "added_by i evs = map snd (filter (\<lambda>(j, e). j = i) (added evs))"

fun adds_of :: "'a queue_op list \<Rightarrow> 'a list" where
  "adds_of [] = []"
| "adds_of (Op_add e block # cs) = e # adds_of cs"
| "adds_of (Op_take block # cs) = adds_of cs"

lemma adds_of_append [simp]: "adds_of (cs @ ds) = adds_of cs @ adds_of ds"
  by (induction cs rule: adds_of.induct) simp_all

lemma adds_of_map_add [simp]: "adds_of (map (\<lambda>e. Op_add e b) es) = es"
  by (induction es) simp_all

text \<open>A call that adds waits until there is room.\<close>

fun patient :: "'a queue_op \<Rightarrow> bool" where
  "patient (Op_add e block) = block"
| "patient (Op_take block) = True"

lemma only_takes: "list_all (\<lambda>c. \<not> is_add c) cs \<Longrightarrow> list_all patient cs \<and> adds_of cs = []"
  by (induction cs rule: adds_of.induct) auto

lemma replay_blocking_add:
  assumes "replay (Effect i (Op_add e True) r # evs) q = Some q'" and "queue_ok q"
  shows "fst r = QOK"
  using assms by (auto simp: queue_add_def split: call.splits if_splits)

lemma added_by_effects:
  "replay evs q = Some q' \<Longrightarrow> queue_ok q \<Longrightarrow> list_all patient (effects_of i evs) \<Longrightarrow>
    added_by i evs = adds_of (effects_of i evs)"
proof (induction evs arbitrary: q)
  case Nil
  then show ?case by (simp add: added_by_def)
next
  case (Cons ev evs)
  show ?case
  proof (cases ev)
    case (Effect j c r)
    with Cons.prems(1) obtain q1 where q1: "queue_call c q = Returns (r, q1)" "replay evs q1 = Some q'"
      by (auto split: call.splits if_splits)
    with queue_call_list [OF Cons.prems(2) q1(1)] have "queue_ok q1" by simp
    moreover have "list_all patient (effects_of i evs)" using Cons.prems(3) Effect by (auto split: if_splits)
    ultimately have ih: "added_by i evs = adds_of (effects_of i evs)" using Cons.IH [OF q1(2)] by simp
    show ?thesis
    proof (cases c)
      case (Op_add e b)
      have "fst r = QOK" if "j = i"
        using Cons.prems that Effect Op_add replay_blocking_add [of j e r evs q q'] by simp
      with ih Effect Op_add show ?thesis by (auto simp: added_by_def)
    next
      case (Op_take b)
      have "added (ev # evs) = added evs" using Effect Op_take by simp
      with ih Effect Op_take show ?thesis by (auto simp: added_by_def)
    qed
  qed (use Cons in \<open>auto simp: added_by_def\<close>)
qed

lemma added_index: "queue_run s0 evs s \<Longrightarrow> (i, x) \<in> set (added evs) \<Longrightarrow> i < length (sh_places s0)"
proof (induction rule: queue_run.induct)
  case start
  then show ?case by simp
next
  case (step evs s ev s')
  have app: "added (evs @ [ev]) = added evs @ added [ev]" for evs :: "'a event list" and ev
    by (induction evs rule: added.induct) auto
  have one: "i = j" if "(i, x) \<in> set (added [Effect j c r])" for j c and r :: "'a answer"
    using that by (cases c) (auto split: if_splits)
  have "i < length (sh_places s)" if "(i, x) \<in> set (added [ev])"
    using step.hyps(2) that by (cases rule: queue_step.cases) (auto simp: thread_at_def dest: one)
  with step run_places_fixed [OF step.hyps(1)] show ?case by (auto simp: app)
qed

text \<open>
  What a thread has added is a beginning of what it calls \<open>queue_add\<close> with, one after the
  other; a thread that only takes adds nothing.
\<close>

lemma thread_history:
  assumes "queue_run (threads_start cap junk n) evs s" and "i < n"
  obtains q ph where "replay evs (queue_create cap junk) = Some q"
    and "calls_of i evs = effects_of i evs @ pending ph"
proof -
  from sync_inv_run [OF assms(1) sync_inv_start]
  obtain q where q: "replay evs (queue_create cap junk) = Some q" by blast
  have "thread_at (threads_start cap junk n) i Outside" using assms(2) threads_start_at [of i n] by simp
  from follow_run [OF assms(1) this] obtain ph where "follow_all i evs Ready = Some ph" by auto
  from calls_effects [OF this] q that show thesis by simp
qed

lemma caller_added:
  assumes "queue_run (threads_start cap junk n) evs s" and "i < n"
    and "calls_of i evs = map (\<lambda>x. Op_add x True) xs"
  shows "\<exists>k. added_by i evs = take k xs"
proof -
  obtain q ph where h: "replay evs (queue_create cap junk) = Some q"
    "calls_of i evs = effects_of i evs @ pending ph" by (rule thread_history [OF assms(1,2)])
  have "effects_of i evs = take (length (effects_of i evs)) (calls_of i evs)" by (simp add: h(2))
  then have eff: "effects_of i evs = map (\<lambda>x. Op_add x True) (take (length (effects_of i evs)) xs)"
    by (simp add: assms(3) take_map)
  then have "list_all patient (effects_of i evs)"
    by (metis (no_types, lifting) list_all_iff imageE patient.simps(1) set_map)
  from added_by_effects [OF h(1) queue_create_ok this] eff show ?thesis by (metis adds_of_map_add)
qed

lemma taker_adds_nothing:
  assumes "queue_run (threads_start cap junk n) evs s" and "i < n"
    and "list_all (\<lambda>c. \<not> is_add c) (calls_of i evs)"
  shows "added_by i evs = []"
proof -
  obtain q ph where h: "replay evs (queue_create cap junk) = Some q"
    "calls_of i evs = effects_of i evs @ pending ph" by (rule thread_history [OF assms(1,2)])
  from assms(3) have "list_all (\<lambda>c. \<not> is_add c) (effects_of i evs)" by (simp add: h(2))
  from only_takes [OF this] added_by_effects [OF h(1) queue_create_ok] show ?thesis by simp
qed

end
