(* ===== verification/Format.thy ===== *)
theory Format imports CLib begin

text \<open>
  Literals and numbers as C strings: the conversions \<open>%d\<close>, \<open>%u\<close> and \<open>%4d\<close> of the \<open>printf\<close>
  family and \<open>strtol\<close> in base 10, as the programs use them.
\<close>

definition bytes :: "string \<Rightarrow> cstring" where
  "bytes s = map of_char s"

section \<open>Decimal numbers\<close>

fun dec_nat :: "nat \<Rightarrow> cstring" where
  "dec_nat n = (if n < 10 then [48 + of_nat n] else dec_nat (n div 10) @ [48 + of_nat (n mod 10)])"

declare dec_nat.simps [simp del]

definition dec_int :: "int \<Rightarrow> cstring" where
  "dec_int i = (if i < 0 then 45 # dec_nat (nat (- i)) else dec_nat (nat i))"

definition pad_left :: "nat \<Rightarrow> cstring \<Rightarrow> cstring" where
  "pad_left n s = replicate (n - length s) 32 @ s"

section \<open>strtol\<close>

definition LONG_MAX :: int where "LONG_MAX = 9223372036854775807"
definition LONG_MIN :: int where "LONG_MIN = -9223372036854775808"

text \<open>The digits at the beginning of a string: their value, how many, and the rest.\<close>

fun scan_digits :: "cstring \<Rightarrow> nat \<Rightarrow> nat \<Rightarrow> nat \<times> nat \<times> cstring" where
  "scan_digits [] v n = (v, n, [])"
| "scan_digits (c # s) v n =
     (if isdigit c then scan_digits s (10 * v + unat (c - 48)) (Suc n) else (v, n, c # s))"

text \<open>
  The value, clamped to the range of \<open>long\<close>, and the string at \<open>endptr\<close>, which is the
  whole string when there is no number.
\<close>

definition strtol :: "cstring \<Rightarrow> int \<times> cstring" where
  "strtol str =
     (let s = dropWhile isspace str; neg = (chr_at s = 45);
          s' = (if chr_at s = 45 \<or> chr_at s = 43 then tl s else s)
      in case scan_digits s' 0 0 of (v, n, rest) \<Rightarrow>
        if n = 0 then (0, str)
        else (max LONG_MIN (min LONG_MAX (if neg then - int v else int v)), rest))"

section \<open>Facts\<close>

lemma bytes_Nil [simp]: "bytes [] = []"
  by (simp add: bytes_def)

lemma bytes_append [simp]: "bytes (s @ t) = bytes s @ bytes t"
  by (simp add: bytes_def)

lemma unat_of_char: "unat (of_char c :: byte) = of_char c"
proof -
  have "(of_char c :: byte) = of_nat (of_char c)" by (simp add: of_nat_of_char)
  moreover have "(of_char c :: nat) < 256"
    using mod_less_divisor [of 256 "of_char c :: nat"] by simp
  ultimately show ?thesis by (simp add: unat_of_nat)
qed

lemma bytes_eq_iff: "bytes s = bytes t \<longleftrightarrow> s = t"
proof -
  have "inj (of_char :: char \<Rightarrow> byte)"
    by (rule injI) (metis char_of_char unat_of_char)
  then show ?thesis by (simp add: bytes_def inj_map_eq_map)
qed

lemma dec_nat_not_Nil [simp]: "dec_nat n \<noteq> []"
  by (subst dec_nat.simps) simp

lemma digit_byte:
  assumes "d < 10"
  shows "isdigit (48 + of_nat d :: byte)" and "unat (48 + of_nat d - 48 :: byte) = d"
proof -
  have u: "unat (48 + of_nat d :: byte) = 48 + d"
    using assms by (simp add: unat_word_ariths unat_of_nat)
  then show "isdigit (48 + of_nat d :: byte)"
    using assms by (simp add: isdigit_def word_le_nat_alt)
  show "unat (48 + of_nat d - 48 :: byte) = d"
    using assms by (simp add: unat_of_nat)
qed

lemma dec_nat_digits: "c \<in> set (dec_nat n) \<Longrightarrow> isdigit c"
proof (induction n rule: dec_nat.induct)
  case (1 n)
  then show ?case
    by (subst (asm) (2) dec_nat.simps) (auto simp: digit_byte split: if_splits)
qed

lemma isdigit_not_0: "isdigit c \<Longrightarrow> c \<noteq> 0"
  by (auto simp: isdigit_def)

lemma scan_digits_append:
  "\<forall>c \<in> set s. isdigit c \<Longrightarrow>
    scan_digits (s @ t) v n = scan_digits t (foldl (\<lambda>v c. 10 * v + unat (c - 48)) v s) (n + length s)"
  by (induction s arbitrary: v n) auto

lemma foldl_dec_nat: "foldl (\<lambda>v c. 10 * v + unat (c - 48)) 0 (dec_nat n) = n"
proof (induction n rule: dec_nat.induct)
  case (1 n)
  show ?case
  proof (cases "n < 10")
    case True
    with digit_byte(2) [of n] show ?thesis by (subst dec_nat.simps) simp
  next
    case False
    with 1 digit_byte(2) [of "n mod 10"] show ?thesis
      by (subst dec_nat.simps) (simp add: mult.commute)
  qed
qed

lemma scan_digits_dec_nat: "scan_digits (dec_nat n) 0 0 = (n, length (dec_nat n), [])"
  using scan_digits_append [of "dec_nat n" "[]" 0 0] dec_nat_digits [of _ n]
  by (simp add: foldl_dec_nat)

lemma not_isspace_digit: "isdigit c \<Longrightarrow> \<not> isspace c \<and> c \<noteq> 45 \<and> c \<noteq> 43"
  by (auto simp: isdigit_def isspace_def word_le_nat_alt)

text \<open>What \<open>%u\<close> prints \<open>strtol\<close> reads.\<close>

lemma strtol_dec_nat:
  assumes "int n \<le> LONG_MAX"
  shows "strtol (dec_nat n) = (int n, [])"
proof -
  obtain c s where cs: "dec_nat n = c # s" by (cases "dec_nat n") auto
  then have c: "isdigit c" using dec_nat_digits [of c n] by simp
  have "dropWhile isspace (dec_nat n) = dec_nat n"
    using not_isspace_digit [OF c] by (simp add: cs)
  moreover have "chr_at (dec_nat n) \<noteq> 45" "chr_at (dec_nat n) \<noteq> 43"
    using not_isspace_digit [OF c] by (simp_all add: cs)
  ultimately show ?thesis
    using assms by (simp add: strtol_def scan_digits_dec_nat LONG_MIN_def)
qed

lemma strtol_range: "fst (strtol s) \<in> {LONG_MIN..LONG_MAX}"
  by (auto simp: strtol_def Let_def LONG_MIN_def LONG_MAX_def split: prod.split)

end
