(* ===== verification/Logging.thy ===== *)
theory Logging imports Format Common begin

text \<open>
  \<open>lib/logging.c\<close>: the names of the log levels, the global level, and the functions
  \<open>log_fatal\<close> to \<open>log_trace\<close>, which print a line if the global level is high enough.
\<close>

section \<open>Levels\<close>

text \<open>
  \<open>for_valid_log_levels\<close> and the enumeration it generates: the names in both cases and
  the value between \<open>LOGLV_MIN\<close> and \<open>LOGLV_MAX\<close>.
\<close>

definition LOGLV_MIN :: u32 where "LOGLV_MIN = 0"
definition LOGLV_MAX :: u32 where "LOGLV_MAX = 7"

definition valid_log_levels :: "(string \<times> string \<times> u32) list" where
  "valid_log_levels =
     [(''fatal'', ''FATAL'', 1), (''error'', ''ERROR'', 2), (''warning'', ''WARNING'', 3),
      (''info'', ''INFO'', 4), (''debug'', ''DEBUG'', 5), (''trace'', ''TRACE'', 6)]"

definition LLVN_MAX_LEN :: nat where "LLVN_MAX_LEN = 10"

text \<open>The chain of \<open>if\<close>s the macro unfolds to, first match first.\<close>

definition parse_log_level :: "cstring \<Rightarrow> int" where
  "parse_log_level s =
     (case List.find (\<lambda>(name, NAME, lvl). strncasecmp s (bytes name) LLVN_MAX_LEN = 0)
             valid_log_levels of
        Some (name, NAME, lvl) \<Rightarrow> uint lvl
      | None \<Rightarrow> -1)"

text \<open>The new value of \<open>glob_loglevel\<close>.\<close>

definition set_loglevel :: "u32 \<Rightarrow> u32" where
  "set_loglevel lv = min (max lv LOGLV_MIN) LOGLV_MAX"

definition lv_string :: "u32 \<Rightarrow> string" where
  "lv_string lv =
     (case List.find (\<lambda>(name, NAME, lvl). lvl = lv) valid_log_levels of
        Some (name, NAME, lvl) \<Rightarrow> NAME
      | None \<Rightarrow> ''UNKNOWN'')"

section \<open>Printing\<close>

text \<open>
  \<open>text\<close> is what \<open>vsnprintf\<close> makes of the format and its arguments, of which the buffer
  takes 255 bytes; \<open>timestamp\<close> is what \<open>strftime\<close> writes.
\<close>

definition log_internal :: "cstring \<Rightarrow> u32 \<Rightarrow> cstring \<Rightarrow> cstring" where
  "log_internal timestamp lv txt =
     timestamp @ bytes '' '' @ bytes (lv_string lv) @ bytes '': '' @ take 255 txt @ [10]"

text \<open>What \<open>log_<level>\<close> writes to \<open>stderr\<close>.\<close>

definition log_at :: "u32 \<Rightarrow> u32 \<Rightarrow> cstring \<Rightarrow> cstring \<Rightarrow> cstring" where
  "log_at lvl glob_loglevel timestamp txt =
     (if glob_loglevel < lvl then [] else log_internal timestamp lvl txt)"

section \<open>Facts\<close>

definition valid_level :: "u32 \<Rightarrow> bool" where
  "valid_level lv \<longleftrightarrow> LOGLV_MIN < lv \<and> lv < LOGLV_MAX"

lemma valid_level_cases: "valid_level lv \<Longrightarrow> lv \<in> {1, 2, 3, 4, 5, 6}"
proof -
  assume "valid_level lv"
  then have "0 < unat lv" and "unat lv < 7"
    by (auto simp: valid_level_def LOGLV_MIN_def LOGLV_MAX_def word_less_nat_alt unat_gt_0)
  then have "unat lv \<in> {1, 2, 3, 4, 5, 6}" by auto
  moreover have "lv = of_nat (unat lv)" by simp
  ultimately show ?thesis
    by (metis (no_types, lifting) insert_iff of_nat_1 of_nat_numeral singletonD)
qed

lemma strncasecmp_name:
  assumes "length name \<le> 9" and "0 \<notin> set name"
  shows "strncasecmp s name LLVN_MAX_LEN = 0 \<longleftrightarrow> map tolower (cstr s) = map tolower name"
proof -
  have n: "cstr name = name" "take 10 name = name" using assms by (simp_all add: cstr_id)
  have "map tolower (take 10 (cstr s)) = map tolower name \<longleftrightarrow>
      map tolower (cstr s) = map tolower name"
  proof
    assume m: "map tolower (take 10 (cstr s)) = map tolower name"
    then have "length (take 10 (cstr s)) = length name" by (rule map_eq_imp_length_eq)
    with assms(1) have "take 10 (cstr s) = cstr s" by (simp add: min_def split: if_splits)
    with m show "map tolower (cstr s) = map tolower name" by simp
  next
    assume m: "map tolower (cstr s) = map tolower name"
    then have "length (cstr s) = length name" by (rule map_eq_imp_length_eq)
    with assms(1) m show "map tolower (take 10 (cstr s)) = map tolower name" by simp
  qed
  with n show ?thesis by (simp add: LLVN_MAX_LEN_def strncasecmp_eq_0_iff)
qed

lemma level_entry:
  assumes "(name, NAME, lv) \<in> set valid_log_levels"
  shows "valid_level lv" and "lv_string lv = NAME" and "set_loglevel lv = lv"
    and "length (bytes name) \<le> 9" and "0 \<notin> set (bytes name)"
    and "map tolower (bytes NAME) = bytes name" and "map tolower (bytes name) = bytes name"
proof -
  have "lv \<in> {1, 2, 3, 4, 5, 6}" using assms by (auto simp: valid_log_levels_def)
  then show "valid_level lv" "set_loglevel lv = lv"
    by (auto simp: valid_level_def set_loglevel_def LOGLV_MIN_def LOGLV_MAX_def)
  show "lv_string lv = NAME"
    using assms unfolding lv_string_def valid_log_levels_def by auto
  have n: "name \<in> {''fatal'', ''error'', ''warning'', ''info'', ''debug'', ''trace''}"
    using assms by (auto simp: valid_log_levels_def)
  then show "length (bytes name) \<le> 9" "0 \<notin> set (bytes name)" 
    by (auto simp: bytes_def)
  show "map tolower (bytes NAME) = bytes name"
    using assms by (auto simp: valid_log_levels_def bytes_def tolower_def isupper_def)
  show "map tolower (bytes name) = bytes name"
    using n by (auto simp: bytes_def tolower_def isupper_def)
qed

lemma valid_level_entry:
  assumes "valid_level lv"
  obtains name where "(name, lv_string lv, lv) \<in> set valid_log_levels"
proof -
  have "lv \<in> (\<lambda>(name, NAME, lv). lv) ` set valid_log_levels"
    using valid_level_cases [OF assms] by (simp add: valid_log_levels_def)
  then obtain name NAME where e: "(name, NAME, lv) \<in> set valid_log_levels" by auto
  with level_entry(2) [OF e] that show thesis by simp
qed

lemma parse_log_level_cases:
  obtains (none) "parse_log_level s = -1"
  | (level) lv where "valid_level lv" and "parse_log_level s = uint lv"
      and "map tolower (cstr s) = map tolower (bytes (lv_string lv))"
proof (cases "List.find (\<lambda>(name, NAME, lvl). strncasecmp s (bytes name) LLVN_MAX_LEN = 0)
    valid_log_levels")
  case None
  then show ?thesis by (intro none) (simp add: parse_log_level_def)
next
  case (Some e)
  obtain name NAME lv where e: "e = (name, NAME, lv)" by (cases e)
  from Some have mem: "(name, NAME, lv) \<in> set valid_log_levels"
    and m: "strncasecmp s (bytes name) LLVN_MAX_LEN = 0"
    by (auto simp: find_Some_iff e in_set_conv_nth)
  note l = level_entry [OF mem]
  show ?thesis
  proof (rule level [OF l(1)])
    show "parse_log_level s = uint lv" using Some e by (simp add: parse_log_level_def)
    show "map tolower (cstr s) = map tolower (bytes (lv_string lv))"
      using m strncasecmp_name [OF l(4,5), of s] l(2,6,7) by simp
  qed
qed

end
