(* ===== verification/ArgParse.thy ===== *)
theory ArgParse imports Logging begin

text \<open>
  \<open>lib/argparse.c\<close>: \<open>parse_args\<close> over GNU's \<open>getopt_long\<close>. The command line is the list
  of the arguments behind the program's name.

  \<open>getopt_long\<close> moves the arguments that are no options to the end, so the loop of
  \<open>parse_args\<close> sees all options first: they are a list of events, and the other
  arguments, in their order, are what follows \<open>optind\<close> when the loop ends.
\<close>

section \<open>getopt_long\<close>

text \<open>
  The results of \<open>getopt_long\<close> for the short options \<open>h::l:p:\<close> and the table
  \<open>long_options\<close>: \<open>Opt_bad\<close> is the result \<open>'?'\<close>.
\<close>

datatype opt_event = Opt_h | Opt_l cstring | Opt_p cstring | Opt_bad

text \<open>
  A cluster of short options behind its dash; \<open>next\<close> is the following argument, if any.
  The flag tells whether it was consumed. \<open>h::\<close> takes the rest of its cluster as an
  optional argument, \<open>l:\<close> and \<open>p:\<close> the rest or else the next argument.
\<close>

fun short_opts :: "cstring \<Rightarrow> cstring option \<Rightarrow> opt_event list \<times> bool" where
  "short_opts [] nxt = ([], False)"
| "short_opts (c # s) nxt =
     (if c = 104 then ([Opt_h], False)
      else if c = 108 \<or> c = 112 then
        (let mk = (if c = 108 then Opt_l else Opt_p)
         in if s \<noteq> [] then ([mk s], False)
            else (case nxt of Some a \<Rightarrow> ([mk a], True) | None \<Rightarrow> ([Opt_bad], False)))
      else (let (es, used) = short_opts s nxt in (Opt_bad # es, used)))"

datatype arg_kind = No_arg | Optional_arg | Required_arg

text \<open>The table \<open>long_options\<close>: name, kind of argument, and the short option it stands for.\<close>

definition long_options :: "(string \<times> arg_kind \<times> char) list" where
  "long_options =
     [(''help'', Optional_arg, CHR ''h''), (''port'', Required_arg, CHR ''p''),
      (''loglevel'', Required_arg, CHR ''l'')]"

definition opt_event_of :: "char \<Rightarrow> cstring \<Rightarrow> opt_event" where
  "opt_event_of c a = (if c = CHR ''h'' then Opt_h else if c = CHR ''p'' then Opt_p a else Opt_l a)"

definition is_prefix :: "cstring \<Rightarrow> cstring \<Rightarrow> bool" where
  "is_prefix s t \<longleftrightarrow> take (length s) t = s"

text \<open>
  A long option behind its two dashes: a name, or an unambiguous beginning of one, and
  its argument behind \<open>=\<close> or in the next argument.
\<close>

definition long_opt :: "cstring \<Rightarrow> cstring option \<Rightarrow> opt_event \<times> bool" where
  "long_opt s nxt =
     (let name = takeWhile (\<lambda>c. c \<noteq> 61) s; has_eq = (61 \<in> set s); val = tl (dropWhile (\<lambda>c. c \<noteq> 61) s)
      in case filter (\<lambda>(n, k, c). is_prefix name (bytes n)) long_options of
           [(n, k, c)] \<Rightarrow>
             (case k of
                No_arg \<Rightarrow> (if has_eq then (Opt_bad, False) else (opt_event_of c [], False))
              | Optional_arg \<Rightarrow> (opt_event_of c (if has_eq then val else []), False)
              | Required_arg \<Rightarrow>
                  (if has_eq then (opt_event_of c val, False)
                   else (case nxt of Some a \<Rightarrow> (opt_event_of c a, True) | None \<Rightarrow> (Opt_bad, False))))
         | _ \<Rightarrow> (Opt_bad, False))"

definition head_of :: "'a list \<Rightarrow> 'a option" where
  "head_of xs = (case xs of [] \<Rightarrow> None | x # _ \<Rightarrow> Some x)"

text \<open>The options of a command line and the arguments that are none. \<open>--\<close> ends the options.\<close>

function getopt_scan :: "cstring list \<Rightarrow> opt_event list \<times> cstring list" where
  "getopt_scan [] = ([], [])"
| "getopt_scan (a # r) =
     (if a = [45, 45] then ([], r)
      else if take 1 a \<noteq> [45] \<or> a = [45] then
        (let (es, args) = getopt_scan r in (es, a # args))
      else
        (let (es, used) = (if take 2 a = [45, 45]
                           then (let (e, used) = long_opt (drop 2 a) (head_of r) in ([e], used))
                           else short_opts (tl a) (head_of r));
             (es', args) = getopt_scan (if used then tl r else r)
         in (es @ es', args)))"
  by pat_completeness auto
termination by (relation "measure length") auto

declare getopt_scan.simps(2) [simp del]

section \<open>parse_args\<close>

text \<open>
  What \<open>parse_args\<close> writes: \<open>*port\<close>, the global log level and the buffer \<open>addr\<close>. It
  returns, or it prints to \<open>stderr\<close> and exits.
\<close>

record args_t =
  a_port :: u32
  a_loglevel :: u32
  a_addr :: "byte list"

datatype exit = Exit int cstring

definition help_text :: "cstring \<Rightarrow> cstring \<Rightarrow> cstring" where
  "help_text appname address_str =
     bytes ''Usage: '' @ appname @ bytes '' [-h|--help] [-l|--loglevel LOGLEVEL] [-p|--port PORT] ''
     @ bytes ''['' @ address_str @ bytes '']'' @ [10]"

text \<open>\<open>display_help\<close> behind the message \<open>msg\<close>, with the status it exits with.\<close>

definition display_help :: "bool \<Rightarrow> cstring \<Rightarrow> cstring \<Rightarrow> cstring \<Rightarrow> exit" where
  "display_help err appname address_str msg =
     Exit (if err then 1 else 0) (msg @ help_text appname address_str)"

text \<open>The cases \<open>'l'\<close> and \<open>'p'\<close>: the new state, or what is printed before the help.\<close>

definition loglevel_option :: "cstring \<Rightarrow> args_t \<Rightarrow> cstring + args_t" where
  "loglevel_option optarg st =
     (let lvl = parse_log_level optarg
      in if lvl > uint LOGLV_MIN \<and> lvl < uint LOGLV_MAX
         then Inr (st\<lparr>a_loglevel := set_loglevel (word_of_int lvl)\<rparr>)
         else Inl (bytes ''Invalid log level: '' @ optarg @ [10]))"

definition port_option :: "cstring \<Rightarrow> args_t \<Rightarrow> cstring + args_t" where
  "port_option optarg st =
     (case strtol optarg of (p, endptr) \<Rightarrow>
        if chr_at optarg \<noteq> 0 \<and> chr_at endptr = 0 then
          (if p \<ge> 1 \<and> p \<le> 65535 then Inr (st\<lparr>a_port := word_of_int p\<rparr>)
           else Inl (bytes ''Port number out of range: '' @ dec_int p @ [10]))
        else Inl (bytes ''Invalid character in port: '' @ [chr_at endptr] @ [10]))"

fun option_loop :: "(bool \<Rightarrow> cstring \<Rightarrow> exit) \<Rightarrow> opt_event list \<Rightarrow> args_t \<Rightarrow> exit + args_t" where
  "option_loop usage [] st = Inr st"
| "option_loop usage (Opt_h # es) st = Inl (usage False [])"
| "option_loop usage (Opt_l a # es) st =
     (case loglevel_option a st of Inl m \<Rightarrow> Inl (usage True m) | Inr st' \<Rightarrow> option_loop usage es st')"
| "option_loop usage (Opt_p a # es) st =
     (case port_option a st of Inl m \<Rightarrow> Inl (usage True m) | Inr st' \<Rightarrow> option_loop usage es st')"
| "option_loop usage (Opt_bad # es) st = Inl (usage True [])"

text \<open>The loop over the other arguments. \<open>got_addr\<close> is never set.\<close>

fun addr_loop ::
  "(bool \<Rightarrow> cstring \<Rightarrow> exit) \<Rightarrow> nat \<Rightarrow> bool \<Rightarrow> cstring list \<Rightarrow> args_t \<Rightarrow> exit + args_t" where
  "addr_loop usage addr_len got_addr [] st = Inr st"
| "addr_loop usage addr_len got_addr (a # xs) st =
     (if \<not> got_addr then
        (if strnlen a addr_len + 1 \<ge> addr_len
         then Inl (usage True (bytes ''Address too long: '' @ a @ [10]))
         else addr_loop usage addr_len got_addr xs (st\<lparr>a_addr := snprintf_s (a_addr st) addr_len a\<rparr>))
      else Inl (usage True (bytes ''Superfluous argument -- `'' @ a @ bytes [CHR 0x27] @ [10])))"

definition parse_args ::
  "cstring list \<Rightarrow> nat \<Rightarrow> cstring \<Rightarrow> cstring \<Rightarrow> args_t \<Rightarrow> exit + args_t" where
  "parse_args argv addr_len appname addr_desc st =
     (let usage = (\<lambda>err msg. display_help err appname addr_desc msg);
          (es, args) = getopt_scan argv
      in bind_r (option_loop usage es st) (addr_loop usage addr_len False args))"

end
