(* ===== verification/Sockets.thy ===== *)
theory Sockets imports ArgParse Wire begin

text \<open>
  The system calls with which both programs open their sockets and start their threads,
  as a parameter: what each of them answers, and the text of \<open>errno\<close> when it fails.
\<close>

section \<open>The operating system\<close>

text \<open>
  \<open>struct sockaddr_in\<close>; the port and the address are in network byte order in memory.
\<close>

record sockaddr_in =
  sin_family :: u16
  sin_port :: u16
  sin_addr :: u32

definition AF_INET :: u16 where "AF_INET = 2"

text \<open>
  \<open>os_socket\<close> is the result of \<open>socket\<close>, -1 or a descriptor. \<open>os_bind\<close>, \<open>os_listen\<close> and
  \<open>os_connect\<close> tell whether the call returns 0, \<open>os_thread n\<close> whether the \<open>n\<close>th
  \<open>pthread_create\<close> does. \<open>os_error f\<close> is \<open>strerror(errno)\<close> after \<open>f\<close>.
\<close>

record os_t =
  os_inet_aton :: "cstring \<Rightarrow> u32 option"
  os_socket :: int
  os_bind :: "int \<Rightarrow> sockaddr_in \<Rightarrow> bool"
  os_listen :: "int \<Rightarrow> nat \<Rightarrow> bool"
  os_connect :: "int \<Rightarrow> sockaddr_in \<Rightarrow> bool"
  os_thread :: "nat \<Rightarrow> bool"
  os_error :: "string \<Rightarrow> cstring"

definition htons :: "endian \<Rightarrow> u32 \<Rightarrow> u16" where
  "htons e port = hton16 e (ucast port)"

definition inet_addr :: "endian \<Rightarrow> u32 \<Rightarrow> u32 \<Rightarrow> sockaddr_in" where
  "inet_addr e port saddr = \<lparr>sin_family = AF_INET, sin_port = htons e port, sin_addr = saddr\<rparr>"

text \<open>\<open>ppanic\<close>: the message and the error go to \<open>stderr\<close>, and the process exits with 1.\<close>

definition ppanic :: "cstring \<Rightarrow> cstring \<Rightarrow> exit" where
  "ppanic msg err = Exit 1 (msg @ bytes '': '' @ err @ [10])"

text \<open>
  \<open>xmalloc\<close> and \<open>xcalloc\<close> over the library's \<open>malloc\<close> and \<open>calloc\<close>, which answer \<open>None\<close> for
  \<open>NULL\<close>: they never ask for no bytes at all, and never return \<open>NULL\<close>. Everywhere else the
  model takes a block as given.
\<close>

definition xmalloc :: "(nat \<Rightarrow> 'p option) \<Rightarrow> cstring \<Rightarrow> nat \<Rightarrow> exit + 'p" where
  "xmalloc malloc err sz =
     (case malloc (max sz 1) of
        Some p \<Rightarrow> Inr p
      | None \<Rightarrow> Inl (ppanic (bytes ''Memory allocation failed'') err))"

definition xcalloc :: "(nat \<Rightarrow> nat \<Rightarrow> 'p option) \<Rightarrow> cstring \<Rightarrow> nat \<Rightarrow> nat \<Rightarrow> exit + 'p" where
  "xcalloc calloc err nmemb sz =
     (case calloc (max nmemb 1) (max sz 1) of
        Some p \<Rightarrow> Inr p
      | None \<Rightarrow> Inl (ppanic (bytes ''Memory allocation failed'') err))"

text \<open>The name for the usage: \<open>argv[0]\<close>, or \<open>APPNAME\<close> when there is none.\<close>

definition prog_name :: "string \<Rightarrow> cstring option \<Rightarrow> cstring" where
  "prog_name appname arg0 = (case arg0 of None \<Rightarrow> bytes appname | Some a \<Rightarrow> a)"

text \<open>A buffer of \<open>ADDR_MAX_LEN\<close> bytes initialised with a literal.\<close>

definition addr_buffer :: "string \<Rightarrow> byte list" where
  "addr_buffer s = bytes s @ replicate (ADDR_MAX_LEN - length s) 0"

section \<open>Facts\<close>

lemma xmalloc_result:
  "case xmalloc malloc err sz of Inr p \<Rightarrow> malloc (max sz 1) = Some p | Inl ex \<Rightarrow> \<exists>msg. ex = Exit 1 msg"
  "case xcalloc calloc err nmemb sz of
     Inr p \<Rightarrow> calloc (max nmemb 1) (max sz 1) = Some p | Inl ex \<Rightarrow> \<exists>msg. ex = Exit 1 msg"
  by (simp_all add: xmalloc_def xcalloc_def ppanic_def split: option.split)

lemma port_in_range:
  assumes "p \<le> 65535"
  shows "unat (ucast (of_nat p :: u32) :: u16) = p"
proof -
  have "take_bit 16 p = p" "take_bit 32 p = p" using assms by (simp_all add: take_bit_eq_mod)
  then show ?thesis by (simp add: unsigned_ucast_eq unsigned_take_bit_eq unat_of_nat take_bit_eq_mod)
qed

lemma htons_port: "unat (htons BigEndian (of_nat p)) = p" if "p \<le> 65535"
  using port_in_range [OF that] by (simp add: htons_def hton16_def)

lemma hton16_htons: "hton16 e (htons e port) = ucast port"
  by (simp add: htons_def hton16_hton16)

end
