(* ===== verification/ServerStart.thy ===== *)
theory ServerStart imports Sockets ServerModel begin

text \<open>
  How the server starts: \<open>main\<close> of \<open>server/server.c\<close> up to its loop over the connections,
  and that loop for any number of results of \<open>accept\<close>.
\<close>

section \<open>The listening socket\<close>

definition build_inet_addr :: "endian \<Rightarrow> os_t \<Rightarrow> cstring \<Rightarrow> u32 \<Rightarrow> exit + sockaddr_in" where
  "build_inet_addr e os address port =
     (case os_inet_aton os address of
        None \<Rightarrow> Inl (ppanic (bytes ''Invalid server IP address: '' @ address) (os_error os ''inet_aton''))
      | Some saddr \<Rightarrow> Inr (inet_addr e port saddr))"

definition do_listen :: "endian \<Rightarrow> os_t \<Rightarrow> cstring \<Rightarrow> u32 \<Rightarrow> exit + int \<times> sockaddr_in" where
  "do_listen e os address port =
     bind_r (build_inet_addr e os address port) (\<lambda>sin.
       let fd = os_socket os
       in if fd = -1 then Inl (ppanic (bytes ''socket()'') (os_error os ''socket''))
          else if \<not> os_bind os fd sin then Inl (ppanic (bytes ''bind()'') (os_error os ''bind''))
          else if \<not> os_listen os fd 4096 then Inl (ppanic (bytes ''listen()'') (os_error os ''listen''))
          else Inr (fd, sin))"

section \<open>Random numbers\<close>

text \<open>
  The numbers of \<open>random()\<close> are a function of the seed, which is the time in seconds.
  \<open>done\<close> is the static variable \<open>ok\<close>.
\<close>

definition random_init :: "(int \<Rightarrow> nat \<Rightarrow> 31 word) \<Rightarrow> int \<Rightarrow> bool \<times> server_t \<Rightarrow> bool \<times> server_t" where
  "random_init srandom epoch st =
     (case st of (ok, s) \<Rightarrow> if ok then (ok, s) else (True, s\<lparr>rnd := srandom epoch, rpos := 0\<rparr>))"

section \<open>main\<close>

text \<open>
  The threads are counted from the handler's, number 0. \<open>accept\<close> fails with -1, and then
  the loop just calls it again.
\<close>

definition pkt_handler_init :: "os_t \<Rightarrow> exit + unit" where
  "pkt_handler_init os =
     (if os_thread os 0 then Inr ()
      else Inl (ppanic (bytes ''pkt_handler_init: pthread_create()'') (os_error os ''pthread_create'')))"

fun accept_loop :: "os_t \<Rightarrow> nat \<Rightarrow> (int \<times> sockaddr_in) list \<Rightarrow> exit + (int \<times> sockaddr_in) list" where
  "accept_loop os n [] = Inr []"
| "accept_loop os n ((fd, sin) # r) =
     (if fd = -1 then accept_loop os n r
      else if \<not> os_thread os n then
        Inl (ppanic (bytes ''Accepting connection: pthread_create()'') (os_error os ''pthread_create''))
      else bind_r (accept_loop os (Suc n) r) (\<lambda>ts. Inr ((fd, sin) # ts)))"

text \<open>
  The text by which \<open>serve\<close> knows its connection in the log, in a buffer of 64 bytes; \<open>ntoa\<close>
  is \<open>inet_ntoa\<close>.
\<close>

definition peer_name :: "endian \<Rightarrow> (u32 \<Rightarrow> cstring) \<Rightarrow> sockaddr_in \<Rightarrow> cstring" where
  "peer_name e ntoa sin =
     take 63 (ntoa (sin_addr sin) @ [58] @ dec_int (uint (hton16 e (sin_port sin))))"

definition server_args :: args_t where
  "server_args = \<lparr>a_port = DEFAULT_PORT, a_loglevel = set_loglevel LOGLV_MAX,
     a_addr = addr_buffer ''0.0.0.0''\<rparr>"

text \<open>
  The server once it runs: its tables, the log level, the listening socket and its address,
  and the connections for which it has started \<open>serve\<close>.
\<close>

record running_t =
  r_tables :: server_t
  r_loglevel :: u32
  r_listen :: "int \<times> sockaddr_in"
  r_served :: "(int \<times> sockaddr_in) list"

definition server_main ::
  "endian \<Rightarrow> os_t \<Rightarrow> (int \<Rightarrow> nat \<Rightarrow> 31 word) \<Rightarrow> int \<Rightarrow> cstring option \<Rightarrow> cstring list
    \<Rightarrow> (int \<times> sockaddr_in) list \<Rightarrow> server_t \<Rightarrow> exit + running_t" where
  "server_main e os srandom epoch arg0 argv accepts s0 =
     bind_r (parse_args argv ADDR_MAX_LEN (prog_name ''game_server'' arg0) (bytes ''LISTEN_ADDR'') server_args)
       (\<lambda>args.
     let s = model_init (snd (random_init srandom epoch (False, s0)))
     in bind_r (pkt_handler_init os) (\<lambda>_.
        bind_r (do_listen e os (cstr (a_addr args)) (a_port args)) (\<lambda>listen.
        bind_r (accept_loop os 1 accepts) (\<lambda>served.
          Inr \<lparr>r_tables = s, r_loglevel = a_loglevel args, r_listen = listen, r_served = served\<rparr>))))"

section \<open>Facts\<close>

lemma accept_loop_result:
  "case accept_loop os n as of
     Inr served \<Rightarrow> served = filter (\<lambda>x. fst x \<noteq> -1) as \<and> list_all (os_thread os) [n..<n + length served]
   | Inl ex \<Rightarrow> \<exists>msg. ex = Exit 1 msg"
proof (induction os n as rule: accept_loop.induct)
  case (2 os n fd sin r)
  show ?case
  proof (cases "fd = -1")
    case True
    with 2 show ?thesis by (cases "accept_loop os n r") auto
  next
    case False
    with 2 show ?thesis
      by (cases "accept_loop os (Suc n) r") (auto simp: ppanic_def upt_conv_Cons simp del: upt_Suc)
  qed
qed simp

lemma do_listen_result:
  "case do_listen e os address port of
     Inr (fd, sin) \<Rightarrow> fd = os_socket os \<and> fd \<noteq> -1 \<and>
       (\<exists>saddr. os_inet_aton os address = Some saddr \<and> sin = inet_addr e port saddr) \<and>
       os_bind os fd sin \<and> os_listen os fd 4096
   | Inl ex \<Rightarrow> \<exists>msg. ex = Exit 1 msg"
  by (auto simp: do_listen_def build_inet_addr_def ppanic_def Let_def split: option.split)

lemma server_tables:
  assumes "server_main e os srandom epoch arg0 argv accepts s0 = Inr r"
  shows "r_tables r = model_init (s0\<lparr>rnd := srandom epoch, rpos := 0\<rparr>)"
  using assms by (auto simp: server_main_def random_init_def Let_def bind_r_eq_Inr)

end
