(* ===== verification/ArgProps.thy ===== *)
theory ArgProps imports ArgParse begin

text \<open>
  What the command line of both programs and their log level mean: the properties of
  \<open>lib/argparse.c\<close> and \<open>lib/logging.c\<close>.
\<close>

section \<open>The loops of parse_args\<close>

lemma loglevel_option_Inr:
  assumes "loglevel_option a st = Inr st'"
  shows "\<exists>lv. valid_level lv \<and> st' = st\<lparr>a_loglevel := lv\<rparr> \<and>
    map tolower (cstr a) = map tolower (bytes (lv_string lv))"
proof (rule parse_log_level_cases [of a])
  assume "parse_log_level a = -1"
  with assms show ?thesis by (simp add: loglevel_option_def LOGLV_MIN_def)
next
  fix lv
  assume lv: "valid_level lv" "parse_log_level a = uint lv"
    "map tolower (cstr a) = map tolower (bytes (lv_string lv))"
  moreover have "set_loglevel lv = lv"
    using lv(1) by (auto simp: valid_level_def set_loglevel_def)
  ultimately show ?thesis
    using assms by (intro exI [of _ lv]) (auto simp: loglevel_option_def Let_def split: if_splits)
qed

lemma port_option_Inr:
  assumes "port_option a st = Inr st'"
  shows "\<exists>p. 1 \<le> p \<and> p \<le> 65535 \<and> st' = st\<lparr>a_port := of_nat p\<rparr>"
proof -
  obtain p endptr where s: "strtol a = (p, endptr)" by fastforce
  with assms have p: "1 \<le> p" "p \<le> 65535" "st' = st\<lparr>a_port := word_of_int p\<rparr>"
    by (auto simp: port_option_def split: if_splits)
  have w: "(word_of_int p :: u32) = of_nat (nat p)" using p(1) by simp
  have "1 \<le> nat p" "nat p \<le> 65535" using p(1,2) by linarith+
  then show ?thesis using p(3) unfolding w by blast
qed

lemma option_loop_Inr:
  assumes "option_loop usage es st = Inr st'"
  shows "a_addr st' = a_addr st \<and>
    (a_port st' = a_port st \<or> (\<exists>p. 1 \<le> p \<and> p \<le> 65535 \<and> a_port st' = of_nat p)) \<and>
    (a_loglevel st' = a_loglevel st \<or> valid_level (a_loglevel st'))"
  using assms
proof (induction usage es st rule: option_loop.induct)
  case (3 usage a es st)
  then obtain st1 where "loglevel_option a st = Inr st1" "option_loop usage es st1 = Inr st'"
    by (auto split: sum.splits)
  with 3 loglevel_option_Inr [of a st st1] show ?case by fastforce
next
  case (4 usage a es st)
  then obtain st1 where "port_option a st = Inr st1" "option_loop usage es st1 = Inr st'"
    by (auto split: sum.splits)
  with 4 port_option_Inr [of a st st1] show ?case by fastforce
qed simp_all

definition addr_ok :: "nat \<Rightarrow> args_t \<Rightarrow> bool" where
  "addr_ok n st \<longleftrightarrow> length (a_addr st) = n \<and> 0 \<in> set (a_addr st)"

lemma addr_step_ok:
  assumes "addr_ok n st" and "strnlen a n + 1 < n"
  shows "addr_ok n (st\<lparr>a_addr := snprintf_s (a_addr st) n a\<rparr>)"
    and "cstr (snprintf_s (a_addr st) n a) = cstr a"
proof -
  have "0 < n" using assms(2) by simp
  then show "addr_ok n (st\<lparr>a_addr := snprintf_s (a_addr st) n a\<rparr>)"
    using assms(1) snprintf_s_length [of n "a_addr st" a]
    by (simp add: addr_ok_def snprintf_s_def overlay_def)
  have "length (cstr a) \<le> n - 1" using assms(2) by (auto simp: strnlen_eq min_def split: if_splits)
  with \<open>0 < n\<close> show "cstr (snprintf_s (a_addr st) n a) = cstr a"
    by (simp add: snprintf_s_cstr)
qed

text \<open>The loop over the addresses keeps the last one; the flag that should stop it is never set.\<close>

lemma addr_loop_result:
  "addr_ok n st \<Longrightarrow>
    (if list_all (\<lambda>a. strnlen a n + 1 < n) xs
     then \<exists>st'. addr_loop usage n False xs st = Inr st' \<and> addr_ok n st' \<and>
       a_port st' = a_port st \<and> a_loglevel st' = a_loglevel st \<and>
       cstr (a_addr st') = (if xs = [] then cstr (a_addr st) else cstr (last xs))
     else \<exists>m. addr_loop usage n False xs st = Inl (usage True m))"
proof (induction xs arbitrary: st)
  case Nil
  then show ?case by simp
next
  case (Cons a xs)
  show ?case
  proof (cases "strnlen a n + 1 < n")
    case True
    let ?st = "st\<lparr>a_addr := snprintf_s (a_addr st) n a\<rparr>"
    have r: "addr_loop usage n False (a # xs) st = addr_loop usage n False xs ?st"
      using True by simp
    from Cons.IH [OF addr_step_ok(1) [OF Cons.prems True]] addr_step_ok(2) [OF Cons.prems True] True
    show ?thesis unfolding r by (auto split: if_splits)
  next
    case False
    then show ?thesis by auto
  qed
qed

section \<open>The properties\<close>

lemma parse_args_outcome:
  assumes "addr_ok n st"
  shows "case parse_args argv n app desc st of
      Inr st' \<Rightarrow> addr_ok n st' \<and>
        (a_port st' = a_port st \<or> (\<exists>p. 1 \<le> p \<and> p \<le> 65535 \<and> a_port st' = of_nat p)) \<and>
        (a_loglevel st' = a_loglevel st \<or> valid_level (a_loglevel st'))
    | Inl e \<Rightarrow> \<exists>code msg. e = Exit code (msg @ help_text app desc) \<and> (code = 0 \<or> code = 1)"
proof -
  let ?usage = "\<lambda>err msg. display_help err app desc msg"
  have usage: "\<exists>code msg. ?usage err m = Exit code (msg @ help_text app desc) \<and> (code = 0 \<or> code = 1)"
    for err m by (simp add: display_help_def)
  obtain es args where g: "getopt_scan argv = (es, args)" by fastforce
  have "\<exists>err m. e = ?usage err m" if "option_loop ?usage es st = Inl e" for e
    using that by (induction ?usage es st rule: option_loop.induct) (auto split: sum.splits)
  with usage have left: "\<exists>code msg. e = Exit code (msg @ help_text app desc) \<and> (code = 0 \<or> code = 1)"
    if "option_loop ?usage es st = Inl e" for e using that by metis
  show ?thesis
  proof (cases "option_loop ?usage es st")
    case (Inl e)
    with left g show ?thesis by (simp add: parse_args_def)
  next
    case (Inr st1)
    note o = option_loop_Inr [OF Inr]
    with assms have "addr_ok n st1" by (simp add: addr_ok_def)
    from addr_loop_result [OF this, of args ?usage] o g Inr usage show ?thesis
      by (auto simp: parse_args_def split: if_splits)
  qed
qed

text \<open>
  C39: when \<open>parse_args\<close> returns, the port is the default or between 1 and 65535, the log
  level is the default or one of the six, and the address is terminated in its buffer;
  when it does not, it exits with 0 (help was asked for) or 1.
\<close>

theorem parse_args_result:
  assumes "addr_ok n st"
  shows "case parse_args argv n app desc st of
      Inr st' \<Rightarrow> addr_ok n st' \<and>
        (a_port st' = a_port st \<or> (\<exists>p. 1 \<le> p \<and> p \<le> 65535 \<and> a_port st' = of_nat p)) \<and>
        (a_loglevel st' = a_loglevel st \<or> valid_level (a_loglevel st'))
    | Inl e \<Rightarrow> \<exists>code msg. e = Exit code (msg @ help_text app desc) \<and> (code = 0 \<or> code = 1)"
  by (rule parse_args_outcome [OF assms])

definition defaults :: args_t where
  "defaults = \<lparr>a_port = DEFAULT_PORT, a_loglevel = LOGLV_MAX, a_addr = replicate ADDR_MAX_LEN 0\<rparr>"

lemma defaults_ok: "addr_ok ADDR_MAX_LEN defaults"
  by (simp add: addr_ok_def defaults_def ADDR_MAX_LEN_def)

theorem parse_args_result_witness:
  "case parse_args [bytes ''-p'', bytes ''80''] ADDR_MAX_LEN [] [] defaults of
      Inr st' \<Rightarrow> addr_ok ADDR_MAX_LEN st'
    | Inl e \<Rightarrow> \<exists>code msg. e = Exit code (msg @ help_text [] []) \<and> (code = 0 \<or> code = 1)"
  using parse_args_result [OF defaults_ok, where argv = "[bytes ''-p'', bytes ''80'']" and app = "[]" and desc = "[]"]
  by (simp split: sum.splits)

lemma getopt_scan_port: "getopt_scan [bytes ''-p'', a] = ([Opt_p a], [])"
  proof -
  have "bytes ''-p'' = [45, 112]" by (simp add: bytes_def)
  then show ?thesis by (subst getopt_scan.simps) (simp add: head_of_def)
qed

text \<open>
  \<open>-p\<close> with a decimal number sets the port to that number if it is between 1 and
  65535, and otherwise the program prints its usage and exits with 1.
\<close>

theorem port_option_decimal:
  assumes "int n \<le> LONG_MAX"
  shows "if 1 \<le> n \<and> n \<le> 65535
    then parse_args [bytes ''-p'', dec_nat n] len app desc st = Inr (st\<lparr>a_port := of_nat n\<rparr>)
    else parse_args [bytes ''-p'', dec_nat n] len app desc st =
      Inl (Exit 1 (bytes ''Port number out of range: '' @ dec_int (int n) @ [10] @ help_text app desc))"
proof -
  have "chr_at (dec_nat n) \<noteq> 0"
    using dec_nat_digits [of _ n] isdigit_not_0 by (cases "dec_nat n") auto
  then show ?thesis
    by (auto simp: parse_args_def getopt_scan_port port_option_def strtol_dec_nat [OF assms]
        display_help_def)
qed

theorem port_option_decimal_witness:
  "parse_args [bytes ''-p'', dec_nat 8080] ADDR_MAX_LEN [] [] defaults =
     Inr (defaults\<lparr>a_port := 8080\<rparr>)"
  using port_option_decimal [of 8080 ADDR_MAX_LEN "[]" "[]" defaults] by (simp add: LONG_MAX_def)

lemma getopt_scan_plain: "list_all (\<lambda>a. take 1 a \<noteq> [45]) xs \<Longrightarrow> getopt_scan xs = ([], xs)"
  by (induction xs) (auto simp: getopt_scan.simps(2))

text \<open>
  Any number of addresses is accepted, and the last one counts: \<open>got_addr\<close> is never
  set, so the message about a superfluous argument is never printed.
\<close>

theorem last_address_wins:
  assumes "list_all (\<lambda>a. take 1 a \<noteq> [45]) xs" and "list_all (\<lambda>a. length (cstr a) + 1 < n) xs"
    and "xs \<noteq> []" and "addr_ok n st"
  shows "\<exists>st'. parse_args xs n app desc st = Inr st' \<and> cstr (a_addr st') = cstr (last xs) \<and>
    a_port st' = a_port st"
proof -
  have "list_all (\<lambda>a. strnlen a n + 1 < n) xs"
    using assms(2) by (auto simp: list_all_iff strnlen_eq)
  with addr_loop_result [OF assms(4), of xs] assms(3) getopt_scan_plain [OF assms(1)]
  show ?thesis by (simp add: parse_args_def) metis
qed

theorem last_address_wins_witness:
  "\<exists>st'. parse_args [bytes ''10.0.0.1'', bytes ''::1''] ADDR_MAX_LEN [] [] defaults = Inr st' \<and>
    cstr (a_addr st') = bytes ''::1'' \<and> a_port st' = DEFAULT_PORT"
  using last_address_wins [OF _ _ _ defaults_ok, of "[bytes ''10.0.0.1'', bytes ''::1'']" "[]" "[]"]
  by (simp add: bytes_def ADDR_MAX_LEN_def) (simp add: defaults_def)

lemma parse_log_level_name:
  assumes "valid_level lv" and "map tolower (cstr s) = map tolower (bytes (lv_string lv))"
  shows "parse_log_level s = uint lv"
proof -
  obtain name where e: "(name, lv_string lv, lv) \<in> set valid_log_levels"
    by (rule valid_level_entry [OF assms(1)])
  have low: "map tolower (cstr s) = bytes name" using assms(2) level_entry(6) [OF e] by simp
  have m: "strncasecmp s (bytes n) LLVN_MAX_LEN = 0 \<longleftrightarrow> bytes n = bytes name"
    if "(n, N, l) \<in> set valid_log_levels" for n N l
    using strncasecmp_name [OF level_entry(4,5) [OF that], of s] level_entry(7) [OF that] low by auto
  have "List.find (\<lambda>(n, N, l). strncasecmp s (bytes n) LLVN_MAX_LEN = 0) valid_log_levels =
      List.find (\<lambda>(n, N, l). bytes n = bytes name) valid_log_levels"
    proof (rule find_cong [OF refl])
    fix x
    assume x: "x \<in> set valid_log_levels"
    obtain n N l where "x = (n, N, l)" by (cases x)
    with m [of n N l] x
    show "(case x of (n, N, l) \<Rightarrow> strncasecmp s (bytes n) LLVN_MAX_LEN = 0) =
        (case x of (n, N, l) \<Rightarrow> bytes n = bytes name)" by simp
  qed
  also have "\<dots> = Some (name, lv_string lv, lv)"
  proof -
    have "List.find (\<lambda>(n, N, l). bytes n = bytes name) valid_log_levels = Some (name, N, l)"
      if "(name, N, l) \<in> set valid_log_levels" for N l
      using that unfolding valid_log_levels_def by (auto simp: bytes_eq_iff)
    then show ?thesis using e by blast
  qed
  finally show ?thesis by (simp add: parse_log_level_def)
qed

text \<open>
  \<open>-l\<close> with the name of a level, in any case, sets that level, and then exactly the
  messages of that level and of the more severe ones are printed.
\<close>

theorem log_level_option:
  assumes "valid_level lv" and "map tolower (cstr a) = map tolower (bytes (lv_string lv))"
    and "valid_level m"
  shows "loglevel_option a st = Inr (st\<lparr>a_loglevel := lv\<rparr>) \<and>
    log_at m lv ts txt = (if m \<le> lv then log_internal ts m txt else [])"
proof -
  have "set_loglevel lv = lv" using assms(1) by (auto simp: valid_level_def set_loglevel_def)
  moreover have "uint LOGLV_MIN < uint lv" "uint lv < uint LOGLV_MAX"
    using assms(1) by (simp_all add: valid_level_def word_less_alt)
  ultimately show ?thesis
    using parse_log_level_name [OF assms(1,2)] by (auto simp: loglevel_option_def log_at_def Let_def)
qed

theorem log_level_option_witness:
  "loglevel_option (bytes ''Info'') defaults = Inr (defaults\<lparr>a_loglevel := 4\<rparr>) \<and>
    log_at 5 4 [] (bytes ''x'') = []"
proof -
  have "valid_level 4" "valid_level 5" by (simp_all add: valid_level_def LOGLV_MIN_def LOGLV_MAX_def)
  moreover have "map tolower (cstr (bytes ''Info'')) = map tolower (bytes (lv_string 4))"
    by (simp add: bytes_def lv_string_def valid_log_levels_def tolower_def isupper_def)
  ultimately show ?thesis using log_level_option [of 4 "bytes ''Info''" 5 defaults] by simp
qed

end
