(* ===== verification/ServerThreads.thy ===== *)
theory ServerThreads imports Pipeline QueueCalls ServerStart ArgProps begin

text \<open>
  The server with all its threads (\<open>server/server.c\<close>): one thread for each connection,
  which receives and adds to \<open>incoming_queue\<close> (\<open>serve\<close>), and \<open>pkt_handler\<close>, which takes
  entries and handles them. Only \<open>pkt_handler\<close> touches the tables, so what it does to
  them is \<open>server_run\<close> on the entries that it has taken.
\<close>

section \<open>The threads of the server\<close>

text \<open>
  The threads \<open>0\<close> to \<open>length cs - 1\<close> serve the connections \<open>cs\<close>; each has called
  \<open>queue_add\<close> with the first of its entries, in order. The thread \<open>length cs\<close> is
  \<open>pkt_handler\<close>, which only takes.
\<close>

definition server_program :: "endian \<Rightarrow> connection list \<Rightarrow> queue_entry_t event list \<Rightarrow> bool" where
  "server_program e cs evs \<longleftrightarrow>
     (\<forall>i < length cs. \<exists>k. calls_of i evs = map (\<lambda>en. Op_add en True) (take k (thread e (cs ! i)))) \<and>
     list_all (\<lambda>c. c = Op_take True) (calls_of (length cs) evs)"

text \<open>The entries that \<open>pkt_handler\<close> has taken.\<close>

definition handled :: "queue_entry_t event list \<Rightarrow> queue_entry_t list" where
  "handled evs = map snd (taken evs)"

definition server_threads :: "connection list \<Rightarrow> queue_entry_t \<Rightarrow> queue_entry_t shared" where
  "server_threads cs junk = threads_start MAX_QUEUE_SIZE junk (length cs + 1)"

lemma connection_adds:
  assumes "queue_run (server_threads cs junk) evs s" and "server_program e cs evs" and "i \<le> length cs"
  shows "if i < length cs then \<exists>k. added_by i evs = take k (thread e (cs ! i)) else added_by i evs = []"
proof (cases "i < length cs")
  case True
  with assms(2) obtain k where "calls_of i evs = map (\<lambda>en. Op_add en True) (take k (thread e (cs ! i)))"
    by (auto simp: server_program_def)
  from caller_added [OF assms(1) [unfolded server_threads_def] _ this] True show ?thesis by auto
next
  case False
  with assms(3) have "i = length cs" by simp
  with assms(2) have "list_all (\<lambda>c. \<not> is_add c) (calls_of i evs)"
    by (auto simp: server_program_def list_all_iff)
  from taker_adds_nothing [OF assms(1) [unfolded server_threads_def] _ this] \<open>i = length cs\<close>
  show ?thesis by simp
qed

text \<open>
  Whatever arrives on the connections and however the statements of the threads interleave,
  \<open>pkt_handler\<close> keeps the invariant, in the order of arrival on each connection.
\<close>

lemma threads_safe:
  assumes "uheap s = Map.empty" and "cheap s = Map.empty" and "out s = []"
    and "list_all connection_ok cs"
    and "queue_run (server_threads cs junk) evs t" and "server_program e cs evs"
  shows "server_run (handled evs) (model_init s) \<noteq> Inl UseAfterFree \<and>
    (\<forall>s'. server_run (handled evs) (model_init s) = Inr s' \<longrightarrow> server_inv s') \<and>
    (\<exists>rest. map snd (added evs) = handled evs @ rest) \<and>
    (\<forall>i < length cs. \<exists>k. added_by i evs = take k (thread e (cs ! i)))"
proof -
  note adds = connection_adds [OF assms(5,6)]
  from sync_inv_run [OF assms(5) [unfolded server_threads_def] sync_inv_start]
  obtain q where "replay evs (queue_create MAX_QUEUE_SIZE junk) = Some q" by blast
  from replay_fifo [OF this queue_create_ok]
  have fifo: "map snd (added evs) = handled evs @ queue_list q" by (simp add: queue_create_list handled_def)
  have "set (handled evs) \<subseteq> (\<Union>c \<in> set cs. set (thread e c))"
  proof
    fix en assume "en \<in> set (handled evs)"
    then have "en \<in> set (map snd (added evs))" unfolding fifo by simp
    then obtain i where i: "(i, en) \<in> set (added evs)" by auto
    then have by_i: "en \<in> set (added_by i evs)" by (force simp: added_by_def)
    from added_index [OF assms(5) i] have "i \<le> length cs" by (simp add: server_threads_def threads_start_def)
    from adds [OF this] by_i obtain k where k: "i < length cs" "added_by i evs = take k (thread e (cs ! i))"
      by (auto split: if_splits)
    with by_i have "en \<in> set (thread e (cs ! i))" by (metis in_set_takeD)
    with k(1) show "en \<in> (\<Union>c \<in> set cs. set (thread e c))" by (meson UN_I nth_mem)
  qed
  from bytes_safe [OF assms(1-4) this] fifo adds show ?thesis by (metis less_imp_le)
qed

section \<open>From the start of the server\<close>

lemma server_args_ok: "addr_ok ADDR_MAX_LEN server_args"
  by (simp add: addr_ok_def server_args_def addr_buffer_def ADDR_MAX_LEN_def bytes_def)



text \<open>A system where every call succeeds, one connection, and a user who joins on it.\<close>

definition willing :: os_t where
  "willing = \<lparr>os_inet_aton = (\<lambda>a. Some 0), os_socket = 3, os_bind = (\<lambda>fd sin. True),
     os_listen = (\<lambda>fd n. True), os_connect = (\<lambda>fd sin. True), os_thread = (\<lambda>n. True),
     os_error = (\<lambda>f. [])\<rparr>"

definition visitor :: "(int \<times> sockaddr_in) list" where
  "visitor = [(5, inet_addr LittleEndian 40000 0)]"

lemma willing_starts:
  "\<exists>r. server_main LittleEndian willing (\<lambda>seed n. 0) 0 None [] visitor blank = Inr r \<and>
    map fst (r_served r) = [5]"
  by (simp add: server_main_def parse_args_def willing_def visitor_def pkt_handler_init_def do_listen_def
      build_inet_addr_def)

definition guest :: "byte list \<Rightarrow> connection" where
  "guest bs = (5, [(zeros 648, False)], [Data bs])"

lemma guest_thread:
  assumes "msg_send_bytes LittleEndian hello = Some bs"
  shows "thread LittleEndian (guest bs) = [EMSG 5 hello]"
proof -
  have "tail_zero (m_body hello)" by (simp add: hello_def make_join_def tail_zero_def)
  from msg_recv_send_same [OF hello_ok(1) this _ assms, of "zeros 648" True "[]"] show ?thesis
    by (simp add: guest_def)
qed

lemma guest_threads: "server_threads [guest bs] junk = threads_start MAX_QUEUE_SIZE junk 2"
  unfolding server_threads_def by (rule arg_cong [where f = "threads_start MAX_QUEUE_SIZE junk"]) simp

lemma guest_program:
  assumes "msg_send_bytes LittleEndian hello = Some bs"
  shows "server_program LittleEndian [guest bs] (handover_events (EMSG 5 hello))"
proof -
  have "calls_of 0 (handover_events (EMSG 5 hello)) = map (\<lambda>en. Op_add en True) (take 1 [EMSG 5 hello])"
    by (simp add: handover_events_def)
  moreover have "list_all (\<lambda>c. c = Op_take True) (calls_of (Suc 0) (handover_events (EMSG 5 hello)))"
    by (simp add: handover_events_def)
  ultimately show ?thesis unfolding server_program_def
    by (auto simp: guest_thread [OF assms] less_Suc_eq intro: exI [of _ 1])
qed


end
