(* ===== verification/ClientData.thy ===== *)
theory ClientData imports Format Messages SearchTree begin

text \<open>
  The data of \<open>client/client.c\<close> and its keyboard focus: menus, the chat form, the
  commands they carry, and \<open>focus\<close>, \<open>unfocus\<close> and \<open>focus_handle_key\<close>.

  The curses library is a parameter: \<open>curses_t\<close> holds its key codes, what its menu driver
  does to the current item, what its form driver does to the field, and the user pointer
  of the item \<open>NULL\<close>.
\<close>

section \<open>Commands\<close>

datatype sort_by_t = BY_NAME | BY_SCORE

text \<open>\<open>uc_kind_t\<close> with the members of the union that each kind uses.\<close>

datatype user_cmd_t =
    Uc_chl_user u16 u32 cstring
  | Uc_battle_act u32
  | Uc_sort sort_by_t
  | Uc_quit
  | Uc_sendmsg
  | Uc_max

text \<open>The number of a kind, with which the struct begins in memory.\<close>

fun uc_kind :: "user_cmd_t \<Rightarrow> u32" where
  "uc_kind (Uc_chl_user _ _ _) = 0"
| "uc_kind (Uc_battle_act _) = 1"
| "uc_kind (Uc_sort _) = 2"
| "uc_kind Uc_quit = 3"
| "uc_kind Uc_sendmsg = 4"
| "uc_kind Uc_max = 5"

section \<open>Menus and forms\<close>

datatype attr = A_NORMAL | A_REVERSE | A_BOLD

record item_t =
  it_name :: cstring
  it_desc :: cstring
  it_cmd :: user_cmd_t

record menu_t =
  me_items :: "item_t list"
  me_cur :: nat
  me_fore :: attr
  me_back :: attr

record form_t =
  fo_text :: "byte list"
  fo_pos :: nat

datatype menu_req = REQ_DOWN_ITEM | REQ_UP_ITEM | REQ_LEFT_ITEM | REQ_RIGHT_ITEM

datatype form_req =
    REQ_FIRST_FIELD | REQ_BEG_LINE | REQ_END_LINE | REQ_LEFT_CHAR | REQ_RIGHT_CHAR
  | REQ_DEL_CHAR | REQ_DEL_PREV | REQ_VALIDATION | REQ_CLR_FIELD | REQ_CHAR byte

text \<open>
  \<open>menu_driver req n i\<close> is the index of the current item of a menu of \<open>n\<close> items after the
  request, when it was \<open>i\<close>.
\<close>

record curses_t =
  KEY_DOWN :: int
  KEY_UP :: int
  KEY_LEFT :: int
  KEY_RIGHT :: int
  KEY_BACKSPACE :: int
  KEY_DC :: int
  KEY_BTAB :: int
  menu_driver :: "menu_req \<Rightarrow> nat \<Rightarrow> nat \<Rightarrow> nat"
  form_driver :: "form_req \<Rightarrow> form_t \<Rightarrow> form_t"
  null_userptr :: "user_cmd_t option"

definition current_item :: "menu_t \<Rightarrow> item_t option" where
  "current_item m = (if me_items m = [] then None else Some (me_items m ! me_cur m))"

definition item_userptr :: "curses_t \<Rightarrow> item_t option \<Rightarrow> user_cmd_t option" where
  "item_userptr cs it = (case it of None \<Rightarrow> null_userptr cs | Some i \<Rightarrow> Some (it_cmd i))"

section \<open>Focus\<close>

text \<open>A menu with \<open>keep_selection\<close> and \<open>hidden\<close>, or the form with \<open>hidden\<close>.\<close>

datatype focusable_t = F_menu menu_t bool bool | F_form form_t bool

text \<open>The focusable and whether the cursor is shown, afterwards.\<close>

definition focus :: "curses_t \<Rightarrow> focusable_t \<Rightarrow> bool \<Rightarrow> focusable_t \<times> bool" where
  "focus cs foc cursor =
     (case foc of
        F_menu m keep hidden \<Rightarrow>
          (if hidden then foc else F_menu (m\<lparr>me_back := A_NORMAL, me_fore := A_REVERSE\<rparr>) keep hidden,
           cursor)
      | F_form f hidden \<Rightarrow>
          (if hidden then (foc, cursor)
           else (F_form (form_driver cs REQ_FIRST_FIELD f) hidden, True)))"

definition unfocus :: "focusable_t \<Rightarrow> bool \<Rightarrow> focusable_t \<times> bool" where
  "unfocus foc cursor =
     (case foc of
        F_menu m keep hidden \<Rightarrow>
          (if hidden then foc
           else if keep then F_menu (m\<lparr>me_back := A_NORMAL, me_fore := A_BOLD\<rparr>) keep hidden
           else F_menu (m\<lparr>me_back := A_NORMAL, me_fore := A_NORMAL\<rparr>) keep hidden, cursor)
      | F_form f hidden \<Rightarrow> (foc, if hidden then cursor else False))"

definition is_bksp :: "curses_t \<Rightarrow> int \<Rightarrow> bool" where
  "is_bksp cs c \<longleftrightarrow> c = KEY_BACKSPACE cs \<or> c = 8 \<or> c = 127"

text \<open>
  The classification functions are defined on the values of \<open>unsigned char\<close> and on \<open>EOF\<close>
  only; key codes of curses are larger.
\<close>

definition text_key :: "int \<Rightarrow> fault + bool" where
  "text_key key =
     (if key < -1 \<or> 255 < key then Inl Undefined
      else if key = -1 then Inr False
      else let c = (word_of_int key :: byte) in Inr (ispunct c \<or> isalnum c \<or> isspace c))"

definition drive_menu :: "curses_t \<Rightarrow> menu_req \<Rightarrow> menu_t \<Rightarrow> menu_t" where
  "drive_menu cs req m = m\<lparr>me_cur := menu_driver cs req (length (me_items m)) (me_cur m)\<rparr>"

definition menu_key :: "curses_t \<Rightarrow> menu_t \<Rightarrow> int \<Rightarrow> user_cmd_t option \<times> menu_t" where
  "menu_key cs m key =
     (if key = KEY_DOWN cs then (None, drive_menu cs REQ_DOWN_ITEM m)
      else if key = KEY_UP cs then (None, drive_menu cs REQ_UP_ITEM m)
      else if key = KEY_LEFT cs then (None, drive_menu cs REQ_LEFT_ITEM m)
      else if key = KEY_RIGHT cs then (None, drive_menu cs REQ_RIGHT_ITEM m)
      else if key = 10 then (item_userptr cs (current_item m), m)
      else (None, m))"

text \<open>The user pointer of the chat form is \<open>send_cmd\<close>.\<close>

definition form_key :: "curses_t \<Rightarrow> form_t \<Rightarrow> int \<Rightarrow> fault + (user_cmd_t option \<times> form_t)" where
  "form_key cs f key =
     (if key = KEY_DOWN cs then Inr (None, form_driver cs REQ_BEG_LINE f)
      else if key = KEY_UP cs then Inr (None, form_driver cs REQ_END_LINE f)
      else if key = KEY_LEFT cs then Inr (None, form_driver cs REQ_LEFT_CHAR f)
      else if key = KEY_RIGHT cs then Inr (None, form_driver cs REQ_RIGHT_CHAR f)
      else if key = KEY_DC cs then Inr (None, form_driver cs REQ_DEL_CHAR f)
      else if key = 10 then Inr (Some Uc_sendmsg, f)
      else if is_bksp cs key then Inr (None, form_driver cs REQ_DEL_PREV f)
      else bind_r (text_key key) (\<lambda>b.
        Inr (None, if b then form_driver cs (REQ_CHAR (word_of_int key)) f else f)))"

definition focus_handle_key ::
  "curses_t \<Rightarrow> focusable_t \<Rightarrow> int \<Rightarrow> fault + (user_cmd_t option \<times> focusable_t)" where
  "focus_handle_key cs foc key =
     (case foc of
        F_menu m keep hidden \<Rightarrow>
          (case menu_key cs m key of (cmd, m') \<Rightarrow> Inr (cmd, F_menu m' keep hidden))
      | F_form f hidden \<Rightarrow>
          bind_r (form_key cs f key) (\<lambda>(cmd, f'). Inr (cmd, F_form f' hidden)))"

section \<open>The game\<close>

record game_state_t =
  g_nickname :: cstring
  g_opponent_name :: cstring
  g_id :: u16
  g_opponent_id :: u16
  g_chid :: u16
  g_is_user1 :: bool
  g_acted :: bool
  g_key :: u32
  g_score :: u32
  g_turn_no :: u16
  g_hp :: u32
  g_max_hp :: u32
  g_opponent_hp :: u32
  g_opponent_max_hp :: u32
  g_state :: u32

text \<open>\<open>gs\<close> before the call is whatever the stack holds; some members stay so.\<close>

definition game_state_init :: "game_state_t \<Rightarrow> game_state_t" where
  "game_state_init gs =
     gs\<lparr>g_nickname := [], g_opponent_name := [], g_score := 0, g_id := 0, g_opponent_id := 0,
        g_chid := 0, g_hp := 0, g_opponent_hp := 0, g_max_hp := 0, g_opponent_max_hp := 0\<rparr>"

datatype waiting_t = W_NONE | W_CANCEL | W_ACCEPT

datatype net_thread_kind_t = Thread_in | Thread_out

datatype ui_msg_t = Um_disconn net_thread_kind_t int | Um_recv message_t

text \<open>
  The local state of \<open>ui_main\<close>: the game state, the heap of user objects and the tree
  \<open>user_by_id\<close>, the flags, the four focusables, what the windows show, and the messages
  put on the queue to the server.
\<close>

record client_t =
  cl_gs :: game_state_t
  cl_heap :: "ptr \<rightharpoonup> user_info_t"
  cl_brk :: ptr
  cl_tree :: "ptr list"
  cl_cnt :: nat
  cl_waiting :: waiting_t
  cl_sort_by :: sort_by_t
  cl_list_updated :: bool
  cl_state_updated :: bool
  cl_foci :: "focusable_t list"
  cl_focus_idx :: nat
  cl_cursor :: bool
  cl_popup :: "cstring option"
  cl_chat :: "cstring list"
  cl_battle_log :: "cstring list"
  cl_title :: cstring
  cl_player :: "cstring \<times> cstring"
  cl_opponent :: "cstring \<times> cstring"
  cl_sent :: "message_t list"

text \<open>
  A step of the main loop goes on with a new state, or leaves the loop (\<open>goto done\<close>).
\<close>

datatype 's flow = Go 's | Leave 's

fun flow_state :: "'s flow \<Rightarrow> 's" where
  "flow_state (Go s) = s"
| "flow_state (Leave s) = s"

fun fold_flow :: "('x \<Rightarrow> 's \<Rightarrow> 'e + 's flow) \<Rightarrow> 'x list \<Rightarrow> 's \<Rightarrow> 'e + 's flow" where
  "fold_flow f [] s = Inr (Go s)"
| "fold_flow f (x # xs) s =
     bind_r (f x s) (\<lambda>r. case r of Go s' \<Rightarrow> fold_flow f xs s' | Leave s' \<Rightarrow> Inr (Leave s'))"

end
