(* ===== verification/ClientMain.thy ===== *)
theory ClientMain imports ClientData begin

text \<open>
  The main loop of \<open>client/client.c\<close>: \<open>ui_main\<close>. Each round takes the messages that have
  arrived, redraws the user list and the two panes if something changed, and handles the
  keys that were typed. Adding to the queue of outgoing messages is appending to
  \<open>cl_sent\<close>.
\<close>

section \<open>Users\<close>

definition key_info :: user_info_t where
  "key_info = \<lparr>u_nickname = [], u_id = 0, u_score = 0, u_state = 0\<rparr>"

definition find_user :: "u16 \<Rightarrow> client_t \<Rightarrow> ptr option" where
  "find_user i c = tfind cmp_by_id (cl_heap c) (key_info\<lparr>u_id := i\<rparr>) (cl_tree c)"

definition deref_info :: "ptr \<Rightarrow> client_t \<Rightarrow> fault + user_info_t" where
  "deref_info p c = (case cl_heap c p of None \<Rightarrow> Inl UseAfterFree | Some u \<Rightarrow> Inr u)"

text \<open>\<open>user ? user->nickname : dflt\<close> for the user with the id \<open>i\<close>.\<close>

definition nickname_or :: "cstring \<Rightarrow> u16 \<Rightarrow> client_t \<Rightarrow> fault + cstring" where
  "nickname_or dflt i c =
     (case find_user i c of None \<Rightarrow> Inr dflt
      | Some p \<Rightarrow> bind_r (deref_info p c) (\<lambda>u. Inr (u_nickname u)))"

text \<open>What \<open>snprintf(dst, NICKNAME_LEN, "%s", src)\<close> leaves in a nickname, as a string.\<close>

definition nick_copy :: "cstring \<Rightarrow> cstring" where
  "nick_copy src = cstr (snprintf_s (zeros NICKNAME_LEN) NICKNAME_LEN src)"

definition client_user_create :: "cstring \<Rightarrow> u16 \<Rightarrow> u32 \<Rightarrow> u32 \<Rightarrow> user_info_t" where
  "client_user_create nickname i state score =
     \<lparr>u_nickname = nick_copy nickname, u_id = i, u_score = score, u_state = state\<rparr>"

definition set_gs :: "(game_state_t \<Rightarrow> game_state_t) \<Rightarrow> client_t \<Rightarrow> client_t" where
  "set_gs f c = c\<lparr>cl_gs := f (cl_gs c)\<rparr>"

definition say_chat :: "cstring \<Rightarrow> client_t \<Rightarrow> client_t" where
  "say_chat line c = c\<lparr>cl_chat := cl_chat c @ [line]\<rparr>"

definition say_battle :: "cstring \<Rightarrow> client_t \<Rightarrow> client_t" where
  "say_battle line c = c\<lparr>cl_battle_log := cl_battle_log c @ [line]\<rparr>"

text \<open>\<open>queue_add(send_queue, msg, true)\<close>.\<close>

definition send_out :: "message_t \<Rightarrow> client_t \<Rightarrow> client_t" where
  "send_out m c = c\<lparr>cl_sent := cl_sent c @ [m]\<rparr>"

section \<open>Messages from the server\<close>

definition on_sendmsg :: "msg_sendmsg_t \<Rightarrow> client_t \<Rightarrow> fault + client_t" where
  "on_sendmsg sm c =
     bind_r (nickname_or (bytes ''<unknown>'') (sm_id sm) c) (\<lambda>sender.
       Inr (say_chat (sender @ (if sm_id sm = g_id (cl_gs c) then bytes '' (You)'' else []) @
         bytes '' said: '' @ cstr (sm_text sm) @ [10]) c))"

definition result_text :: "turn_result_t \<Rightarrow> cstring" where
  "result_text res =
     (case res of TR_EVEN \<Rightarrow> bytes ''even'' | TR_WIN \<Rightarrow> bytes ''you won'' | TR_LOSE \<Rightarrow> bytes ''you lost'')"

definition on_turn_r :: "msg_turn_r_t \<Rightarrow> client_t \<Rightarrow> client_t" where
  "on_turn_r r c =
     (let c1 = set_gs (\<lambda>gs.
            if g_is_user1 gs
            then gs\<lparr>g_hp := tr_hp1 r, g_max_hp := tr_maxhp1 r, g_opponent_hp := tr_hp2 r,
                   g_opponent_max_hp := tr_maxhp2 r\<rparr>
            else gs\<lparr>g_hp := tr_hp2 r, g_max_hp := tr_maxhp2 r, g_opponent_hp := tr_hp1 r,
                   g_opponent_max_hp := tr_maxhp1 r\<rparr>) c;
          c2 = (if tr_fin r \<noteq> 0 then
                  set_gs (\<lambda>gs. gs\<lparr>g_acted := True\<rparr>)
                    (say_battle (bytes ''Battle ended -- your '' @
                      (if g_id (cl_gs c1) = tr_winner r then bytes ''victory!'' else bytes ''defeat...'')
                      @ [10]) c1)
                else
                  (let c' = (if tr_turn_no r > 1 then
                        (let (a, b) = (if g_is_user1 (cl_gs c1)
                               then (ucast (tr_action1 r), ucast (tr_action2 r))
                               else (ucast (tr_action2 r), ucast (tr_action1 r)))
                         in say_battle (bytes ''Last turn: '' @ bytes (act_name a) @ bytes '' - '' @
                              bytes (act_name b) @ bytes '' ('' @ result_text (get_turn_result a b) @
                              bytes '')'' @ [10]) c1)
                      else c1)
                   in set_gs (\<lambda>gs. gs\<lparr>g_turn_no := tr_turn_no r, g_acted := False\<rparr>)
                        (say_battle (bytes ''Turn '' @ dec_int (uint (tr_turn_no r)) @
                          bytes '' -- Please choose your action.'' @ [10]) c')))
      in c2\<lparr>cl_state_updated := True\<rparr>)"

definition reply_challenge :: "u16 \<Rightarrow> u16 \<Rightarrow> u16 \<Rightarrow> u16 \<Rightarrow> u32 \<Rightarrow> message_t" where
  "reply_challenge action chid id1 id2 key =
     make_challenge\<lparr>m_body := Challenge
       \<lparr>c_id1 = id1, c_id2 = id2, c_key = key, c_chid = chid, c_action = action\<rparr>\<rparr>"

definition on_challenge :: "msg_challenge_t \<Rightarrow> client_t \<Rightarrow> fault + client_t" where
  "on_challenge pch c =
     (if c_action pch = C_START then
        (if cl_waiting c = W_NONE then
           bind_r (nickname_or (bytes ''<unknown>'') (c_id1 pch) c) (\<lambda>nick.
             Inr (set_gs (\<lambda>gs. gs\<lparr>g_chid := c_chid pch, g_opponent_id := c_id1 pch\<rparr>)
               (c\<lparr>cl_waiting := W_ACCEPT,
                  cl_popup := Some (bytes ''You are being challenged by `'' @ nick @ [39] @
                    bytes ''. Join battle? (Y/N)'')\<rparr>)))
         else Inr (send_out (reply_challenge C_REJECT (c_chid pch) (c_id1 pch) (c_id2 pch)
                               (g_key (cl_gs c))) c))
      else Inr c)"

definition on_challenge_r :: "msg_challenge_r_t \<Rightarrow> client_t \<Rightarrow> fault + client_t" where
  "on_challenge_r chr c =
     (if cr_error chr = ME_OK then
        (let op = (if cr_is_id1 chr \<noteq> 0 then cr_id2 chr else cr_id1 chr);
             c1 = set_gs (\<lambda>gs. gs\<lparr>g_is_user1 := (cr_is_id1 chr \<noteq> 0), g_acted := True,
                     g_opponent_id := op, g_chid := cr_chid chr\<rparr>)
                   (c\<lparr>cl_waiting := W_NONE, cl_popup := None\<rparr>)
         in bind_r (nickname_or (bytes ''-'') op c1) (\<lambda>nick.
              let name = nick_copy nick
              in Inr (say_battle (bytes ''Starting battle with '' @ name @ [10])
                   (set_gs (\<lambda>gs. gs\<lparr>g_state := UBATTLING, g_opponent_name := name\<rparr>)
                     (c1\<lparr>cl_state_updated := True\<rparr>)))))
      else Inr (say_battle (bytes ''Battle didn'' @ [39] @ bytes ''t start: '' @
                  bytes (msg_strerror (cr_error chr)) @ [10])
             (c\<lparr>cl_popup := None, cl_waiting := W_NONE, cl_state_updated := True\<rparr>)))"

text \<open>The block that updates the user list with one change.\<close>

definition table_change :: "uchange_user_t \<Rightarrow> client_t \<Rightarrow> fault + client_t" where
  "table_change v c =
     (let nick = cstr (uu_nickname v); user = cl_brk c;
          info = client_user_create nick (uu_id v) (ucast (uu_state v)) (uu_score v);
          c1 = c\<lparr>cl_heap := (cl_heap c)(user \<mapsto> info), cl_brk := Suc user, cl_list_updated := True\<rparr>;
          node = tfind cmp_by_id (cl_heap c1) info (cl_tree c1)
      in if uu_state v = 0 then
           (let c2 = say_chat (bytes ''User `'' @ nick @ [39] @ bytes '' goes offline'' @ [10]) c1
            in bind_r (case node of
                   None \<Rightarrow> Inr c2
                 | Some q \<Rightarrow> bind_r (deref_info q c2) (\<lambda>u.
                     let t = fst (tdelete cmp_by_id (cl_heap c2) u (cl_tree c2));
                         c3 = c2\<lparr>cl_tree := t, cl_heap := (cl_heap c2)(q := None)\<rparr>
                     in if cl_cnt c3 > 0 then Inr (c3\<lparr>cl_cnt := cl_cnt c3 - 1\<rparr>)
                        else Inl AssertFailed))
               (\<lambda>c4. Inr (c4\<lparr>cl_heap := (cl_heap c4)(user := None)\<rparr>)))
         else case node of
             Some q \<Rightarrow> bind_r (deref_info q c1) (\<lambda>u.
               Inr (c1\<lparr>cl_heap := (cl_heap c1)(q \<mapsto> u\<lparr>u_nickname := nick_copy (u_nickname info),
                         u_score := u_score info, u_state := u_state info\<rparr>, user := None)\<rparr>))
           | None \<Rightarrow>
               (let c2 = say_chat (bytes ''User `'' @ nick @ [39] @ bytes '' joined'' @ [10]) c1;
                    (t, q) = tsearch cmp_by_id (cl_heap c2) user info (cl_tree c2)
                in if q \<noteq> user then Inl AssertFailed
                   else Inr (c2\<lparr>cl_tree := t, cl_cnt := cl_cnt c2 + 1\<rparr>)))"

text \<open>One entry of a \<open>UCHANGE\<close> message.\<close>

definition on_change :: "uchange_user_t \<Rightarrow> client_t \<Rightarrow> fault + client_t flow" where
  "on_change v c =
     (if uu_id v = g_id (cl_gs c) \<and> uu_state v = 0 then Inr (Leave c)
      else
        (let c1 = (if uu_id v = g_id (cl_gs c) then
                     set_gs (\<lambda>gs. gs\<lparr>g_nickname := nick_copy (cstr (uu_nickname v)),
                         g_state := ucast (uu_state v)\<rparr>) (c\<lparr>cl_state_updated := True\<rparr>)
                   else c);
             c2 = (if uu_id v = g_opponent_id (cl_gs c1) then
                     set_gs (\<lambda>gs. gs\<lparr>g_opponent_name := nick_copy (cstr (uu_nickname v))\<rparr>)
                       (c1\<lparr>cl_state_updated := True\<rparr>)
                   else c1)
         in bind_r (table_change v c2) (\<lambda>c3. Inr (Go c3))))"

definition on_uchange :: "msg_uchange_t \<Rightarrow> client_t \<Rightarrow> fault + client_t flow" where
  "on_uchange u c = fold_flow on_change (take (unat (uc_count u)) (uc_users u)) c"

definition handle_um :: "ui_msg_t \<Rightarrow> client_t \<Rightarrow> fault + client_t flow" where
  "handle_um um c =
     (case um of
        Um_disconn _ _ \<Rightarrow> Inr (Leave c)
      | Um_recv m \<Rightarrow>
          (case m_body m of
             Sendmsg sm \<Rightarrow> bind_r (on_sendmsg sm c) (\<lambda>c'. Inr (Go c'))
           | Turn_r r \<Rightarrow> Inr (Go (on_turn_r r c))
           | Challenge pch \<Rightarrow> bind_r (on_challenge pch c) (\<lambda>c'. Inr (Go c'))
           | Challenge_r chr \<Rightarrow> bind_r (on_challenge_r chr c) (\<lambda>c'. Inr (Go c'))
           | Uchange u \<Rightarrow> on_uchange u c
           | _ \<Rightarrow> Inr (Go c)))"

end
