(* ===== verification/ClientUi.thy ===== *)
theory ClientUi imports ClientMain begin

text \<open>
  The rest of the main loop of \<open>client/client.c\<close>: the user list with its sorting, the two
  panes, the keys and the commands, the round of the loop, and the two threads that move
  messages between the socket and the queues.
\<close>

section \<open>The user list\<close>

definition user_state_char :: "u32 \<Rightarrow> byte" where
  "user_state_char st =
     (if st = UOFFLINE then 45 else if st = UONLINE then 43 else if st = UBATTLING then 88 else 63)"

record populate_arg_t =
  pa_items :: "item_t list"
  pa_sz :: nat
  pa_selection :: "nat option"

text \<open>
  The callback on one node of the tree. An item is known by its index in the array, also
  the one to be selected.
\<close>

definition populate_user_list ::
  "(ptr \<rightharpoonup> user_info_t) \<Rightarrow> u16 option \<Rightarrow> u16 \<Rightarrow> ptr \<Rightarrow> populate_arg_t \<Rightarrow> fault + populate_arg_t" where
  "populate_user_list h selection_id self_id p arg =
     (case h p of None \<Rightarrow> Inl UseAfterFree
      | Some user \<Rightarrow>
          Inr (if length (pa_items arg) < pa_sz arg then
                 (let item = \<lparr>it_name = take 127 (u_nickname user @ (if u_id user = self_id then [42] else [])),
                        it_desc = [user_state_char (u_state user)] @ [124] @ dec_int (sint (u_score user)),
                        it_cmd = Uc_chl_user (u_id user) (u_score user) (nick_copy (u_nickname user))\<rparr>
                  in arg\<lparr>pa_items := pa_items arg @ [item],
                         pa_selection := (if selection_id = Some (u_id user)
                            then Some (length (pa_items arg)) else pa_selection arg)\<rparr>)
               else arg))"

text \<open>
  \<open>chl_score\<close> and \<open>chl_user_name\<close> of a command. The difference of two scores wraps around,
  as it does with the usual compilers.
\<close>

fun chl_score :: "user_cmd_t \<Rightarrow> u32" where
  "chl_score (Uc_chl_user _ s _) = s"
| "chl_score _ = 0"

fun chl_user_name :: "user_cmd_t \<Rightarrow> cstring" where
  "chl_user_name (Uc_chl_user _ _ n) = n"
| "chl_user_name _ = []"

definition cmp_item_for_sort :: "sort_by_t \<Rightarrow> item_t \<Rightarrow> item_t \<Rightarrow> int" where
  "cmp_item_for_sort sb i j =
     (let by_name = strncasecmp (chl_user_name (it_cmd i)) (chl_user_name (it_cmd j)) NICKNAME_LEN;
          by_score = sint (chl_score (it_cmd j) - chl_score (it_cmd i))
      in case sb of
           BY_NAME \<Rightarrow> (if by_name = 0 then by_score else by_name)
         | BY_SCORE \<Rightarrow> (if by_score = 0 then by_name else by_score))"

text \<open>\<open>qsort_r\<close>; which of two equal elements comes first is left open by C.\<close>

fun insert_by :: "('a \<Rightarrow> 'a \<Rightarrow> int) \<Rightarrow> 'a \<Rightarrow> 'a list \<Rightarrow> 'a list" where
  "insert_by cmp x [] = [x]"
| "insert_by cmp x (y # ys) = (if cmp x y \<le> 0 then x # y # ys else y # insert_by cmp x ys)"

definition qsort_r :: "('a \<Rightarrow> 'a \<Rightarrow> int) \<Rightarrow> 'a list \<Rightarrow> 'a list" where
  "qsort_r cmp xs = foldr (insert_by cmp) xs []"

text \<open>The first two bytes of a 32-bit number in memory, read as a number.\<close>

definition first_u16 :: "endian \<Rightarrow> u32 \<Rightarrow> u16" where
  "first_u16 e k = dec16 e (take 2 (enc32 e k))"

text \<open>
  The block \<open>if (user_list_updated)\<close>. \<open>old_id\<close> is read through a \<open>uint16_t\<close> pointer from the
  beginning of the command. \<open>set_menu_items\<close> refuses an empty array, and then the old
  items, which the code frees, stay in the menu.
\<close>

definition refresh_list :: "curses_t \<Rightarrow> endian \<Rightarrow> client_t \<Rightarrow> fault + client_t" where
  "refresh_list cs e c =
     (if \<not> cl_list_updated c then Inr c
      else case cl_foci c ! 0 of
        F_form _ _ \<Rightarrow> Inr c
      | F_menu m keep hidden \<Rightarrow>
          let maybe_old_id = map_option (\<lambda>it. first_u16 e (uc_kind (it_cmd it))) (current_item m)
          in bind_r (fold_r (populate_user_list (cl_heap c) maybe_old_id (g_id (cl_gs c))) (cl_tree c)
                \<lparr>pa_items = [], pa_sz = cl_cnt c, pa_selection = None\<rparr>) (\<lambda>arg.
             if length (pa_items arg) < cl_cnt c then Inl Undefined
             else if pa_items arg = [] \<and> me_items m \<noteq> [] then Inl UseAfterFree
             else
               (let sorted = qsort_r (\<lambda>i j. cmp_item_for_sort (cl_sort_by c) (snd i) (snd j))
                      (enumerate 0 (pa_items arg));
                    cur = (case pa_selection arg of None \<Rightarrow> 0
                           | Some k \<Rightarrow> length (takeWhile (\<lambda>(j, it). j \<noteq> k) sorted));
                    m' = m\<lparr>me_items := map snd sorted, me_cur := cur\<rparr>
                in Inr (c\<lparr>cl_foci := (cl_foci c)[0 := F_menu m' keep hidden],
                          cl_title := bytes ''Users ('' @ dec_nat (cl_cnt c) @ bytes '')'',
                          cl_list_updated := False\<rparr>))))"

section \<open>The panes\<close>

text \<open>
  The column at which a text of \<open>len\<close> bytes is printed in a window of \<open>maxx\<close> columns; the
  difference is taken in \<open>size_t\<close> and the result is an \<open>int\<close>.
\<close>

definition centered_lpad :: "u32 \<Rightarrow> 64 word \<Rightarrow> int" where
  "centered_lpad maxx len = sint (ucast ((scast maxx - len) div 2 :: 64 word) :: u32)"

definition draw_user_state_subwin ::
  "client_t \<Rightarrow> u16 \<Rightarrow> u32 \<Rightarrow> u32 \<Rightarrow> fault + cstring \<times> cstring" where
  "draw_user_state_subwin c i hp maxhp =
     bind_r (nickname_or [] i c) (\<lambda>nick.
       Inr (if nick \<noteq> [] then nick else bytes ''-'',
            bytes ''HP: '' @ pad_left 4 (dec_int (sint hp)) @ bytes '' /'' @
            pad_left 4 (dec_int (sint maxhp))))"

definition draw_states :: "client_t \<Rightarrow> fault + client_t" where
  "draw_states c =
     (if cl_state_updated c then
        let gs = cl_gs c
        in bind_r (draw_user_state_subwin c (g_id gs) (g_hp gs) (g_max_hp gs)) (\<lambda>p.
           bind_r (draw_user_state_subwin c (g_opponent_id gs) (g_opponent_hp gs) (g_opponent_max_hp gs))
             (\<lambda>q. Inr (c\<lparr>cl_player := p, cl_opponent := q, cl_state_updated := False\<rparr>)))
      else Inr c)"

section \<open>Keys\<close>

definition focus_cnt :: nat where "focus_cnt = 4"

definition move_focus :: "curses_t \<Rightarrow> nat \<Rightarrow> client_t \<Rightarrow> client_t" where
  "move_focus cs new c =
     (let (f1, cur1) = unfocus (cl_foci c ! cl_focus_idx c) (cl_cursor c);
          foci1 = (cl_foci c)[cl_focus_idx c := f1];
          (f2, cur2) = focus cs (foci1 ! new) cur1
      in c\<lparr>cl_foci := foci1[new := f2], cl_cursor := cur2, cl_focus_idx := new\<rparr>)"

text \<open>
  The loop that strips the white space at the end of the text: \<open>n\<close> is \<open>sz\<close>.
\<close>

fun strip_spaces :: "nat \<Rightarrow> byte list \<Rightarrow> byte list" where
  "strip_spaces 0 t = t"
| "strip_spaces (Suc n) t = (if isspace (t ! n) then strip_spaces n (t[n := 0]) else t)"

text \<open>The case \<open>UC_SENDMSG\<close>: the form after it and the message.\<close>

definition chat_message :: "curses_t \<Rightarrow> game_state_t \<Rightarrow> form_t \<Rightarrow> message_t \<times> form_t" where
  "chat_message cs gs f =
     (let f1 = form_driver cs REQ_VALIDATION f;
          txt = snprintf_s (zeros 128) 128 (fo_text f1); sz = length (cstr (fo_text f1))
      in ((make_msg_buf SENDMSG)\<lparr>m_body := Sendmsg
            \<lparr>sm_id = g_id gs, sm_key = g_key gs, sm_text = strip_spaces sz txt\<rparr>\<rparr>,
          form_driver cs REQ_CLR_FIELD f1))"

definition turn_message :: "game_state_t \<Rightarrow> u32 \<Rightarrow> message_t" where
  "turn_message gs act =
     (make_msg_buf TURN)\<lparr>m_body := Turn
        \<lparr>t_user = g_id gs, t_chid = g_chid gs, t_key = g_key gs, t_turn_no = g_turn_no gs,
         t_action = ucast act\<rparr>\<rparr>"

definition on_command :: "curses_t \<Rightarrow> user_cmd_t \<Rightarrow> client_t \<Rightarrow> fault + client_t flow" where
  "on_command cs cmd c =
     (let gs = cl_gs c
      in case cmd of
        Uc_chl_user i score name \<Rightarrow>
          Inr (Go (if i = g_id gs then
                 say_battle (bytes ''Cannot start battle with yourself.'' @ [10]) c
               else (send_out (reply_challenge C_START 0 (g_id gs) i (g_key gs)) c)
                 \<lparr>cl_waiting := W_CANCEL,
                  cl_popup := Some (bytes ''Inviting `'' @ name @ [39] @
                    bytes '' to battle (press any key to cancel)...'')\<rparr>))
      | Uc_battle_act act \<Rightarrow>
          Inr (Go (if g_state gs \<noteq> UBATTLING then say_battle (bytes ''Not in a battle.'' @ [10]) c
               else if g_acted gs then
                 say_battle (bytes ''You'' @ [39] @ bytes ''ve already acted.'' @ [10]) c
               else say_battle (bytes ''You'' @ [39] @ bytes ''ve chosen '' @ bytes (act_name act) @
                      bytes ''. Waiting for the other user.'' @ [10])
                 (send_out (turn_message gs act) (set_gs (\<lambda>gs. gs\<lparr>g_acted := True\<rparr>) c))))
      | Uc_sort sb \<Rightarrow> Inr (Go (c\<lparr>cl_sort_by := sb, cl_list_updated := True\<rparr>))
      | Uc_sendmsg \<Rightarrow>
          (case cl_foci c ! 1 of
             F_menu _ _ _ \<Rightarrow> Inr (Go c)
           | F_form f hidden \<Rightarrow>
               (let (m, f') = chat_message cs gs f
                in Inr (Go ((send_out m c)\<lparr>cl_foci := (cl_foci c)[1 := F_form f' hidden]\<rparr>))))
      | Uc_quit \<Rightarrow> Inr (Leave c)
      | Uc_max \<Rightarrow> Inl AssertFailed)"

definition handle_key :: "curses_t \<Rightarrow> int \<Rightarrow> client_t \<Rightarrow> fault + client_t flow" where
  "handle_key cs key c =
     (let gs = cl_gs c
      in case cl_waiting c of
        W_CANCEL \<Rightarrow>
          Inr (Go ((send_out (reply_challenge C_CANCEL 0 (g_id gs) (g_opponent_id gs) (g_key gs)) c)
            \<lparr>cl_popup := None, cl_waiting := W_NONE\<rparr>))
      | W_ACCEPT \<Rightarrow>
          (if key = 121 \<or> key = 89 \<or> key = 110 \<or> key = 78 then
             Inr (Go ((send_out (reply_challenge (if key = 121 \<or> key = 89 then C_ACCEPT else C_REJECT)
                 (g_chid gs) (g_opponent_id gs) (g_id gs) (g_key gs)) c)
               \<lparr>cl_popup := None, cl_waiting := W_NONE\<rparr>))
           else Inr (Go c))
      | W_NONE \<Rightarrow>
          (if key = 9 then Inr (Go (move_focus cs ((cl_focus_idx c + 1) mod focus_cnt) c))
           else if key = KEY_BTAB cs then
             Inr (Go (move_focus cs ((cl_focus_idx c + focus_cnt - 1) mod focus_cnt) c))
           else bind_r (focus_handle_key cs (cl_foci c ! cl_focus_idx c) key) (\<lambda>(cmd, foc).
             let c1 = c\<lparr>cl_foci := (cl_foci c)[cl_focus_idx c := foc]\<rparr>
             in case cmd of None \<Rightarrow> Inr (Go c1) | Some u \<Rightarrow> on_command cs u c1)))"

section \<open>The loop\<close>

definition menu_of :: "(string \<times> user_cmd_t) list \<Rightarrow> menu_t" where
  "menu_of xs = \<lparr>me_items = map (\<lambda>(n, cmd). \<lparr>it_name = bytes n, it_desc = [], it_cmd = cmd\<rparr>) xs,
     me_cur = 0, me_fore = A_REVERSE, me_back = A_NORMAL\<rparr>"

definition main_menu :: menu_t where
  "main_menu = menu_of [(''Sort By Name'', Uc_sort BY_NAME), (''Sort By Score'', Uc_sort BY_SCORE),
     (''Quit'', Uc_quit)]"

definition battle_act_menu :: menu_t where
  "battle_act_menu = menu_of [(''Rock'', Uc_battle_act B_ROCK), (''Paper'', Uc_battle_act B_PAPER),
     (''Scissors'', Uc_battle_act B_SCISSORS)]"

text \<open>The chat field has 59 columns and is filled with blanks.\<close>

definition chat_input :: form_t where
  "chat_input = \<lparr>fo_text = replicate 59 32, fo_pos = 0\<rparr>"

definition foci0 :: "focusable_t list" where
  "foci0 = [F_menu (menu_of []) True False, F_form chat_input False,
     F_menu battle_act_menu False False, F_menu main_menu False False]"

text \<open>\<open>ui_main\<close> up to the loop; \<open>junk\<close> is the uninitialised \<open>gs\<close>.\<close>

definition ui_main_init :: "curses_t \<Rightarrow> message_t \<Rightarrow> game_state_t \<Rightarrow> fault + client_t" where
  "ui_main_init cs join_msg junk =
     (case m_body join_msg of
        Join_r r \<Rightarrow>
          (if jr_error r \<noteq> ME_OK then Inl AssertFailed
           else Inr \<lparr>cl_gs = (game_state_init junk)\<lparr>g_id := jr_id r,
                  g_nickname := nick_copy (cstr (jr_nickname r)), g_key := jr_key r\<rparr>,
              cl_heap = Map.empty, cl_brk = 0, cl_tree = [], cl_cnt = 0, cl_waiting = W_NONE,
              cl_sort_by = BY_SCORE, cl_list_updated = False, cl_state_updated = True,
              cl_foci = fst (focus cs (foci0 ! 0) False) # map (\<lambda>f. fst (unfocus f False)) (tl foci0),
              cl_focus_idx = 0, cl_cursor = False, cl_popup = None, cl_chat = [],
              cl_battle_log = [], cl_title = bytes ''Users'', cl_player = ([], []),
              cl_opponent = ([], []), cl_sent = []\<rparr>)
      | _ \<Rightarrow> Inl AssertFailed)"

text \<open>One round: the messages that are on the queue and the keys that were typed.\<close>

definition ui_round ::
  "curses_t \<Rightarrow> endian \<Rightarrow> ui_msg_t list \<times> int list \<Rightarrow> client_t \<Rightarrow> fault + client_t flow" where
  "ui_round cs e inp c =
     bind_r (fold_flow handle_um (fst inp) c) (\<lambda>r. case r of
       Leave c' \<Rightarrow> Inr (Leave c')
     | Go c1 \<Rightarrow> bind_r (refresh_list cs e c1) (\<lambda>c2. bind_r (draw_states c2) (\<lambda>c3.
         fold_flow (handle_key cs) (snd inp) c3)))"

definition quit_message :: "game_state_t \<Rightarrow> message_t" where
  "quit_message gs = (make_msg_buf QUIT)\<lparr>m_body := Quit \<lparr>qt_key = g_key gs, qt_id = g_id gs\<rparr>\<rparr>"

text \<open>The whole of \<open>ui_main\<close> on the inputs of its rounds; behind the loop it sends \<open>QUIT\<close>.\<close>

definition ui_main ::
  "curses_t \<Rightarrow> endian \<Rightarrow> message_t \<Rightarrow> game_state_t \<Rightarrow> (ui_msg_t list \<times> int list) list
    \<Rightarrow> fault + client_t flow" where
  "ui_main cs e join_msg junk inps =
     bind_r (ui_main_init cs join_msg junk) (\<lambda>c.
     bind_r (fold_flow (ui_round cs e) inps c) (\<lambda>r. Inr (case r of
       Go c' \<Rightarrow> Go c' | Leave c' \<Rightarrow> Leave (send_out (quit_message (cl_gs c')) c'))))"

section \<open>The threads of the client\<close>

text \<open>
  \<open>io_worker\<close> as the receiving thread: what it puts on the queue of the user interface,
  from the results of \<open>msg_recv\<close> in order (\<open>Inl\<close> the \<open>errno\<close> of a failure).
\<close>

fun io_worker_in :: "(int + message_t) list \<Rightarrow> ui_msg_t list" where
  "io_worker_in [] = []"
| "io_worker_in (Inr m # rs) = Um_recv m # io_worker_in rs"
| "io_worker_in (Inl err # rs) = [Um_disconn Thread_in err]"

text \<open>
  As the sending thread it takes messages from its queue until \<open>msg_send\<close> fails with some
  \<open>errno\<close>; the result is the messages sent and what it then puts on its own queue.
\<close>

fun io_worker_out :: "(message_t \<times> int option) list \<Rightarrow> message_t list \<times> ui_msg_t list" where
  "io_worker_out [] = ([], [])"
| "io_worker_out ((m, None) # ms) = (let (sent, um) = io_worker_out ms in (m # sent, um))"
| "io_worker_out ((m, Some err) # ms) = ([], [Um_disconn Thread_out err])"

end
