(* ===== verification/ClientTable.thy ===== *)
theory ClientTable imports ClientUi MessageProps begin

text \<open>
  The client's table of users. The abstraction is \<open>roster\<close>: for each id the nickname, the
  state and the score. A change of a \<open>UCHANGE\<close> message is an update or a deletion of that
  map (\<open>apply_change\<close>), and the tree, the heap and the count stay consistent.
\<close>

section \<open>The invariant of the table\<close>

definition table_ok :: "client_t \<Rightarrow> bool" where
  "table_ok c \<longleftrightarrow> tree_ok cmp_by_id (cl_heap c) (cl_tree c) \<and> dom (cl_heap c) = set (cl_tree c) \<and>
     (\<forall>p \<in> set (cl_tree c). p < cl_brk c) \<and> cl_cnt c = length (cl_tree c)"

type_synonym roster = "u16 \<rightharpoonup> cstring \<times> u32 \<times> u32"

definition info_of :: "user_info_t \<Rightarrow> cstring \<times> u32 \<times> u32" where
  "info_of u = (u_nickname u, u_state u, u_score u)"

definition roster :: "client_t \<Rightarrow> roster" where
  "roster c i = (case find_user i c of None \<Rightarrow> None | Some p \<Rightarrow> map_option info_of (cl_heap c p))"

definition apply_change :: "uchange_user_t \<Rightarrow> roster \<Rightarrow> roster" where
  "apply_change v R =
     (if uu_state v = 0 then R(uu_id v := None)
      else R(uu_id v \<mapsto> (take 31 (cstr (uu_nickname v)), ucast (uu_state v), uu_score v)))"

text \<open>The entries of a message that count.\<close>

definition changes_in :: "message_t \<Rightarrow> uchange_user_t list" where
  "changes_in m = (case m_body m of Uchange u \<Rightarrow> take (unat (uc_count u)) (uc_users u) | _ \<Rightarrow> [])"

lemma nick_copy_eq: "nick_copy s = take 31 (cstr s)"
  by (simp add: nick_copy_def snprintf_s_cstr NICKNAME_LEN_def)

lemma cstr_take: "cstr (take n (cstr s)) = take n (cstr s)"
  by (rule cstr_id) (meson cstr_no_nul in_set_takeD)

lemma find_user_key:
  fixes k :: user_info_t
  shows "u_id k = i \<Longrightarrow> tfind cmp_by_id (cl_heap c) k (cl_tree c) = find_user i c"
  unfolding find_user_def by (rule tfind_cong_key) (simp add: cmp_by_id_def key_info_def)

lemma find_user_SomeE:
  assumes "find_user i c = Some p"
  obtains u where "p \<in> set (cl_tree c)" and "cl_heap c p = Some u" and "u_id u = i"
  using assms unfolding find_user_def by (auto elim!: tfind_SomeE simp: key_info_def)

lemma find_user_eq:
  assumes "table_ok c" and "p \<in> set (cl_tree c)" and "cl_heap c p = Some u"
  shows "find_user (u_id u) c = Some p"
  unfolding find_user_def using assms
  by (intro by_id.tfind_eq) (auto simp: table_ok_def key_info_def)

lemma find_user_None:
  "find_user i c = None \<Longrightarrow> p \<in> set (cl_tree c) \<Longrightarrow> cl_heap c p = Some u \<Longrightarrow> u_id u \<noteq> i"
  unfolding find_user_def tfind_None_iff by (auto simp: key_info_def)

lemma roster_Some_iff:
  assumes "table_ok c"
  shows "roster c i = Some x \<longleftrightarrow> (\<exists>p u. cl_heap c p = Some u \<and> u_id u = i \<and> x = info_of u)"
proof
  assume "roster c i = Some x"
  then obtain p where "find_user i c = Some p" "map_option info_of (cl_heap c p) = Some x"
    by (auto simp: roster_def split: option.splits)
  moreover from this(1) obtain u where "cl_heap c p = Some u" "u_id u = i"
    by (rule find_user_SomeE)
  ultimately show "\<exists>p u. cl_heap c p = Some u \<and> u_id u = i \<and> x = info_of u" by auto
next
  assume "\<exists>p u. cl_heap c p = Some u \<and> u_id u = i \<and> x = info_of u"
  then obtain p u where "cl_heap c p = Some u" "u_id u = i" "x = info_of u" by blast
  moreover have "p \<in> set (cl_tree c)" using assms \<open>cl_heap c p = Some u\<close> by (auto simp: table_ok_def)
  ultimately show "roster c i = Some x"
    using find_user_eq [OF assms, of p u] by (simp add: roster_def)
qed

lemma same_id_same_user:
  assumes "table_ok c" and "cl_heap c p = Some u" and "cl_heap c q = Some v" and "u_id u = u_id v"
  shows "p = q"
proof -
  have "p \<in> set (cl_tree c)" "q \<in> set (cl_tree c)" using assms(1-3) by (auto simp: table_ok_def)
  with find_user_eq [OF assms(1), of p u] find_user_eq [OF assms(1), of q v] assms(2-4)
  show ?thesis by simp
qed

lemma roster_cong: "cl_heap d = cl_heap c \<Longrightarrow> cl_tree d = cl_tree c \<Longrightarrow> roster d = roster c"
  by (rule ext) (simp add: roster_def find_user_def cong: option.case_cong)

lemma table_ok_cong:
  "cl_heap d = cl_heap c \<Longrightarrow> cl_tree d = cl_tree c \<Longrightarrow> cl_brk d = cl_brk c \<Longrightarrow> cl_cnt d = cl_cnt c \<Longrightarrow>
    table_ok d = table_ok c"
  by (simp add: table_ok_def)

text \<open>Two rosters are equal if they have the same entries.\<close>

lemma roster_eqI:
  assumes "table_ok c" and "\<And>i x. (\<exists>p u. cl_heap c p = Some u \<and> u_id u = i \<and> x = info_of u) \<longleftrightarrow> R i = Some x"
  shows "roster c = R"
proof
  fix i show "roster c i = R i"
    using roster_Some_iff [OF assms(1), of i] assms(2) [of i] by (metis option.exhaust)
qed

text \<open>What a write to the one cell that may hold an id does to the entries.\<close>

lemma entries_upd:
  assumes "\<And>q w. h q = Some w \<Longrightarrow> u_id w = k \<Longrightarrow> q = p" and "\<And>w. h p = Some w \<Longrightarrow> u_id w = k"
    and "\<And>w. y = Some w \<Longrightarrow> u_id w = k"
  shows "(\<exists>q w. (h(p := y)) q = Some w \<and> u_id w = i \<and> x = info_of w) \<longleftrightarrow>
    (if i = k then (\<exists>w. y = Some w \<and> x = info_of w)
     else (\<exists>q w. h q = Some w \<and> u_id w = i \<and> x = info_of w))"
proof (cases "i = k")
  case True
  have "(\<exists>q w. (h(p := y)) q = Some w \<and> u_id w = k \<and> x = info_of w) \<longleftrightarrow> (\<exists>w. y = Some w \<and> x = info_of w)"
  proof
    assume "\<exists>q w. (h(p := y)) q = Some w \<and> u_id w = k \<and> x = info_of w"
    then obtain q w where w: "(h(p := y)) q = Some w" "u_id w = k" "x = info_of w" by blast
    then have "q = p" using assms(1) [of q w] by (cases "q = p") simp_all
    with w show "\<exists>w. y = Some w \<and> x = info_of w" by auto
  next
    assume "\<exists>w. y = Some w \<and> x = info_of w"
    then obtain w where "y = Some w" "x = info_of w" by blast
    with assms(3) show "\<exists>q w. (h(p := y)) q = Some w \<and> u_id w = k \<and> x = info_of w"
      by (intro exI [of _ p] exI [of _ w]) simp
  qed
  with True show ?thesis by simp
next
  case False
  have "(h(p := y)) q = Some w \<and> u_id w = i \<longleftrightarrow> h q = Some w \<and> u_id w = i" for q w
    using False assms(2,3) by (cases "q = p") auto
  with False show ?thesis by (simp del: fun_upd_apply) metis
qed

lemma roster_upd:
  assumes "table_ok c" and "table_ok d" and "cl_heap d = (cl_heap c)(p := y)"
    and "\<And>q w. cl_heap c q = Some w \<Longrightarrow> u_id w = k \<Longrightarrow> q = p"
    and "\<And>w. cl_heap c p = Some w \<Longrightarrow> u_id w = k" and "\<And>w. y = Some w \<Longrightarrow> u_id w = k"
  shows "roster d = (roster c)(k := map_option info_of y)"
proof (rule roster_eqI [OF assms(2)])
  fix i x
  have "(\<exists>q w. ((cl_heap c)(p := y)) q = Some w \<and> u_id w = i \<and> x = info_of w) \<longleftrightarrow>
      (if i = k then (\<exists>w. y = Some w \<and> x = info_of w) else roster c i = Some x)"
    unfolding roster_Some_iff [OF assms(1)] by (rule entries_upd) (fact assms(4-6))+
  also have "\<dots> \<longleftrightarrow> ((roster c)(k := map_option info_of y)) i = Some x" by auto
  finally show "(\<exists>q w. cl_heap d q = Some w \<and> u_id w = i \<and> x = info_of w) \<longleftrightarrow>
      ((roster c)(k := map_option info_of y)) i = Some x"
    unfolding assms(3) .
qed

section \<open>One change\<close>

text \<open>The fields that are not part of the table or of what is shown.\<close>

definition keeps_rest :: "client_t \<Rightarrow> client_t \<Rightarrow> bool" where
  "keeps_rest c d \<longleftrightarrow> cl_gs d = cl_gs c \<and> cl_waiting d = cl_waiting c \<and> cl_sort_by d = cl_sort_by c \<and>
     cl_foci d = cl_foci c \<and> cl_focus_idx d = cl_focus_idx c \<and> cl_cursor d = cl_cursor c \<and>
     cl_popup d = cl_popup c \<and> cl_battle_log d = cl_battle_log c \<and> cl_sent d = cl_sent c"

lemma table_ok_new:
  fixes k :: user_info_t
  assumes "table_ok c"
  shows "cl_brk c \<notin> set (cl_tree c)" and "cl_heap c (cl_brk c) = None"
    and "tree_ok cmp_by_id ((cl_heap c)(cl_brk c := x)) (cl_tree c)"
    and "tfind cmp_by_id ((cl_heap c)(cl_brk c := x)) k (cl_tree c) =
      tfind cmp_by_id (cl_heap c) k (cl_tree c)"
proof -
  show n: "cl_brk c \<notin> set (cl_tree c)" using assms by (auto simp: table_ok_def)
  then show "cl_heap c (cl_brk c) = None" using assms by (auto simp: table_ok_def)
  show "tree_ok cmp_by_id ((cl_heap c)(cl_brk c := x)) (cl_tree c)"
    using n assms by (intro tree_ok_unused) (simp_all add: table_ok_def)
  show "tfind cmp_by_id ((cl_heap c)(cl_brk c := x)) k (cl_tree c) =
      tfind cmp_by_id (cl_heap c) k (cl_tree c)"
    using n by (rule tfind_unused)
qed

lemma table_change_offline:
  assumes "table_ok c" and "uu_state v = 0"
  shows "\<exists>c'. table_change v c = Inr c' \<and> table_ok c' \<and> roster c' = apply_change v (roster c) \<and>
    keeps_rest c c' \<and> cl_list_updated c' \<and> cl_state_updated c' = cl_state_updated c"
proof (cases "find_user (uu_id v) c")
  case None
  let ?c' = "say_chat (bytes ''User `'' @ cstr (uu_nickname v) @ [39] @ bytes '' goes offline'' @ [10])
    (c\<lparr>cl_brk := Suc (cl_brk c), cl_list_updated := True\<rparr>)"
  let ?info = "client_user_create (cstr (uu_nickname v)) (uu_id v) (ucast (uu_state v)) (uu_score v)"
  have h: "(cl_heap c)(cl_brk c := None) = cl_heap c"
    using table_ok_new(2) [OF assms(1)] by (simp add: fun_upd_idem_iff)
  have f: "tfind cmp_by_id ((cl_heap c)(cl_brk c \<mapsto> ?info)) ?info (cl_tree c) = None"
    using None find_user_key [of ?info "uu_id v" c] table_ok_new(4) [OF assms(1)]
    by (simp add: client_user_create_def)
  have "table_change v c = Inr ?c'"
    unfolding table_change_def Let_def using assms(2) f h by (simp add: say_chat_def)
  moreover have ok: "table_ok ?c'"
    using assms(1) by (auto simp: table_ok_def say_chat_def)
  moreover have "roster ?c' = roster c"
    by (rule roster_cong) (simp_all add: say_chat_def)
  moreover have "roster c (uu_id v) = None" using None by (simp add: roster_def)
  ultimately show ?thesis
    using assms(2) by (simp add: apply_change_def keeps_rest_def say_chat_def fun_upd_idem)
next
  case (Some q)
  then obtain u where u: "q \<in> set (cl_tree c)" "cl_heap c q = Some u" "u_id u = uu_id v"
    by (rule find_user_SomeE)
  have a: "q' = q" if "cl_heap c q' = Some w" "u_id w = uu_id v" for q' w
    using same_id_same_user [OF assms(1) that(1) u(2)] that(2) u(3) by simp
  have b: "u_id w = uu_id v" if "cl_heap c q = Some w" for w using that u(2,3) by simp
  note new = table_ok_new [OF assms(1)]
  let ?info = "client_user_create (cstr (uu_nickname v)) (uu_id v) (ucast (uu_state v)) (uu_score v)"
  define h where "h = (cl_heap c)(cl_brk c \<mapsto> ?info)"
  have tok: "tree_ok cmp_by_id h (cl_tree c)" unfolding h_def by (rule new(3))
  let ?t = "fst (tdelete cmp_by_id h u (cl_tree c))"
  have q: "h q = Some u" using u(1,2) new(1) by (auto simp: h_def)
  note del = by_id.tdelete_eq [OF tok u(1) q by_id.cmp_refl]
  have t: "?t = remove1 q (cl_tree c)" "set ?t = set (cl_tree c) - {q}"
    using del by blast+
  let ?c' = "say_chat (bytes ''User `'' @ cstr (uu_nickname v) @ [39] @ bytes '' goes offline'' @ [10])
    (c\<lparr>cl_brk := Suc (cl_brk c), cl_list_updated := True, cl_tree := ?t,
       cl_heap := (cl_heap c)(q := None), cl_cnt := cl_cnt c - 1\<rparr>)"
  have hq: "(h(q := None))(cl_brk c := None) = (cl_heap c)(q := None)"
    using new(2) by (auto simp: fun_eq_iff h_def)
  have cnt: "0 < cl_cnt c" using assms(1) u(1) by (auto simp: table_ok_def)
  have f: "tfind cmp_by_id h ?info (cl_tree c) = Some q"
    using Some find_user_key [of ?info "uu_id v" c] new(4) by (simp add: client_user_create_def h_def)
  have "table_change v c = Inr ?c'"
    unfolding table_change_def Let_def using assms(2) f q cnt hq unfolding h_def
    by (simp add: deref_info_def say_chat_def)
  moreover have tr: "tree_ok cmp_by_id ((cl_heap c)(q := None)) ?t"
  proof -
    have "tree_ok cmp_by_id h ?t" using tok by (rule tree_ok_tdelete)
    then have "tree_ok cmp_by_id (h(q := None)) ?t" by (rule tree_ok_unused) (simp add: t(2))
    then have "tree_ok cmp_by_id ((h(q := None))(cl_brk c := None)) ?t"
      by (rule tree_ok_unused) (use t(2) new(1) in auto)
    then show ?thesis by (simp only: hq)
  qed
  moreover have ok: "table_ok ?c'"
    using assms(1) u(1) t tr by (auto simp: table_ok_def say_chat_def length_remove1)
  moreover have "roster ?c' = (roster c)(uu_id v := map_option info_of None)"
    by (rule roster_upd [OF assms(1) ok _ a b]) (simp_all add: say_chat_def)
  ultimately show ?thesis using assms(2) by (simp add: apply_change_def keeps_rest_def say_chat_def)
qed

lemma table_change_online:
  assumes "table_ok c" and "uu_state v \<noteq> 0"
  shows "\<exists>c'. table_change v c = Inr c' \<and> table_ok c' \<and> roster c' = apply_change v (roster c) \<and>
    keeps_rest c c' \<and> cl_list_updated c' \<and> cl_state_updated c' = cl_state_updated c"
proof -
  let ?info = "client_user_create (cstr (uu_nickname v)) (uu_id v) (ucast (uu_state v)) (uu_score v)"
  let ?h = "(cl_heap c)(cl_brk c \<mapsto> ?info)"
  note new = table_ok_new [OF assms(1)]
  have i: "u_id ?info = uu_id v" "info_of ?info = (take 31 (cstr (uu_nickname v)), ucast (uu_state v), uu_score v)"
    by (simp_all add: client_user_create_def info_of_def nick_copy_eq)
  have f: "tfind cmp_by_id ?h ?info (cl_tree c) = find_user (uu_id v) c"
    using find_user_key [of ?info "uu_id v" c] new(4) by (simp add: client_user_create_def)
  show ?thesis
  proof (cases "find_user (uu_id v) c")
    case None
    let ?t = "fst (tsearch cmp_by_id ?h (cl_brk c) ?info (cl_tree c))"
    let ?c' = "say_chat (bytes ''User `'' @ cstr (uu_nickname v) @ [39] @ bytes '' joined'' @ [10])
      (c\<lparr>cl_heap := ?h, cl_brk := Suc (cl_brk c), cl_list_updated := True, cl_tree := ?t,
         cl_cnt := cl_cnt c + 1\<rparr>)"
    have ins: "tree_ok cmp_by_id ?h ?t" "snd (tsearch cmp_by_id ?h (cl_brk c) ?info (cl_tree c)) = cl_brk c"
      "set ?t = insert (cl_brk c) (set (cl_tree c))" "length ?t = Suc (length (cl_tree c))"
      using by_id.tsearch_new [OF new(3) [of "Some ?info"], of "cl_brk c" ?info] f None by simp_all
    have "table_change v c = Inr ?c'"
      unfolding table_change_def Let_def using assms(2) f None ins(2)
      by (simp add: say_chat_def case_prod_beta)
    moreover have ok: "table_ok ?c'"
      using assms(1) ins by (auto simp: table_ok_def say_chat_def)
    moreover have "\<not> (\<exists>p u. cl_heap c p = Some u \<and> u_id u = uu_id v)"
      using None find_user_None [of "uu_id v" c] assms(1) by (fastforce simp: table_ok_def)
    then have "roster ?c' = (roster c)(uu_id v := map_option info_of (Some ?info))"
      by (intro roster_upd [OF assms(1) ok, of "cl_brk c"])
        (use i(1) new(2) in \<open>auto simp: say_chat_def\<close>)
    ultimately show ?thesis using i(2) assms(2)
      by (simp add: apply_change_def keeps_rest_def say_chat_def)
  next
    case (Some q)
    then obtain u where u: "q \<in> set (cl_tree c)" "cl_heap c q = Some u" "u_id u = uu_id v"
      by (rule find_user_SomeE)
    let ?u = "u\<lparr>u_nickname := nick_copy (u_nickname ?info), u_score := u_score ?info,
      u_state := u_state ?info\<rparr>"
    let ?c' = "c\<lparr>cl_heap := (cl_heap c)(q \<mapsto> ?u), cl_brk := Suc (cl_brk c), cl_list_updated := True\<rparr>"
    have a: "q' = q" if "cl_heap c q' = Some w" "u_id w = uu_id v" for q' w
      using same_id_same_user [OF assms(1) that(1) u(2)] that(2) u(3) by simp
    have b: "u_id w = uu_id v" if "cl_heap c q = Some w" for w using that u(2,3) by simp
    have ne: "q \<noteq> cl_brk c" using u(1) new(1) by auto
    have h: "?h(q \<mapsto> ?u, cl_brk c := None) = (cl_heap c)(q \<mapsto> ?u)"
      using ne new(2) by (auto simp: fun_eq_iff)
    have "table_change v c = Inr ?c'"
      unfolding table_change_def Let_def using assms(2) f Some u(2) ne h by (simp add: deref_info_def)
    moreover have ok: "table_ok ?c'"
    proof -
      have "tree_ok cmp_by_id ((cl_heap c)(q \<mapsto> ?u)) (cl_tree c)"
      proof (rule tree_ok_cong)
        show "tree_ok cmp_by_id (cl_heap c) (cl_tree c)" using assms(1) by (simp add: table_ok_def)
        fix p assume "p \<in> set (cl_tree c)"
        then obtain a where "cl_heap c p = Some a" using assms(1) by (auto simp: table_ok_def)
        with u(2) show "\<exists>a b. cl_heap c p = Some a \<and> ((cl_heap c)(q \<mapsto> ?u)) p = Some b \<and>
            (\<forall>c. cmp_by_id b c = cmp_by_id a c) \<and> (\<forall>c. cmp_by_id c b = cmp_by_id c a)"
          by (auto simp: cmp_by_id_def)
      qed
      with assms(1) u(1) show ?thesis by (auto simp: table_ok_def)
    qed
    moreover have "info_of ?u = info_of ?info"
      by (simp add: info_of_def client_user_create_def nick_copy_eq cstr_take)
    moreover have "roster ?c' = (roster c)(uu_id v := map_option info_of (Some ?u))"
      by (rule roster_upd [OF assms(1) ok _ a b]) (simp_all add: u(3))
    ultimately show ?thesis using i(2) assms(2) by (simp add: apply_change_def keeps_rest_def)
  qed
qed

lemma table_change_ok:
  assumes "table_ok c"
  obtains c' where "table_change v c = Inr c'" and "table_ok c'"
    and "roster c' = apply_change v (roster c)" and "keeps_rest c c'" and "cl_list_updated c'"
    and "cl_state_updated c' = cl_state_updated c"
  using table_change_offline [OF assms, of v] table_change_online [OF assms, of v] by blast

end
