(* ===== verification/ClientList.thy ===== *)
theory ClientList imports ClientTable "HOL-Library.Multiset" begin

text \<open>
  The user list of the client: sorting with \<open>cmp_item_for_sort\<close>, and what \<open>refresh_list\<close>
  puts into the menu.
\<close>

section \<open>Sorting\<close>

lemma insert_by_mset: "mset (insert_by cmp x xs) = add_mset x (mset xs)"
  by (induction xs) auto

lemma qsort_r_mset: "mset (qsort_r cmp xs) = mset xs"
  unfolding qsort_r_def by (induction xs) (auto simp: insert_by_mset)

lemma qsort_r_set [simp]: "set (qsort_r cmp xs) = set xs"
  by (metis qsort_r_mset set_mset_mset)

lemma qsort_r_length [simp]: "length (qsort_r cmp xs) = length xs"
  by (metis qsort_r_mset size_mset)

lemma insert_by_cong:
  "(\<And>y. y \<in> set ys \<Longrightarrow> cmp x y = cmp' x y) \<Longrightarrow> insert_by cmp x ys = insert_by cmp' x ys"
  by (induction ys) auto

lemma qsort_r_cong:
  "(\<And>x y. x \<in> set xs \<Longrightarrow> y \<in> set xs \<Longrightarrow> cmp x y = cmp' x y) \<Longrightarrow> qsort_r cmp xs = qsort_r cmp' xs"
proof (induction xs)
  case Nil
  then show ?case by (simp add: qsort_r_def)
next
  case (Cons x xs)
  have "qsort_r cmp (x # xs) = insert_by cmp x (qsort_r cmp xs)" by (simp add: qsort_r_def)
  also have "qsort_r cmp xs = qsort_r cmp' xs" by (rule Cons.IH) (simp add: Cons.prems)
  also have "insert_by cmp x (qsort_r cmp' xs) = insert_by cmp' x (qsort_r cmp' xs)"
    by (rule insert_by_cong) (simp add: Cons.prems)
  also have "\<dots> = qsort_r cmp' (x # xs)" by (simp add: qsort_r_def)
  finally show ?case .
qed

text \<open>The sort orders the elements by any comparison that is a total preorder.\<close>

context comparator begin

lemma insert_by_sorted:
  "sorted_wrt (\<lambda>x y. cmp x y \<le> 0) ys \<Longrightarrow> sorted_wrt (\<lambda>x y. cmp x y \<le> 0) (insert_by cmp x ys)"
proof (induction ys)
  case Nil
  then show ?case by simp
next
  case (Cons y ys)
  have s: "set (insert_by cmp x ys) = insert x (set ys)"
    by (metis insert_by_mset set_mset_add_mset_insert set_mset_mset)
  show ?case
  proof (cases "cmp x y \<le> 0")
    case True
    with Cons.prems cmp_trans [OF True] show ?thesis by auto
  next
    case False
    then have "cmp y x \<le> 0" using cmp_neg_flip [of x y] by simp
    with False Cons s show ?thesis by simp
  qed
qed

lemma qsort_r_sorted: "sorted_wrt (\<lambda>x y. cmp x y \<le> 0) (qsort_r cmp xs)"
  unfolding qsort_r_def by (induction xs) (simp_all add: insert_by_sorted)

end

text \<open>
  \<open>cmp_item_for_sort\<close> with the exact difference of the scores, of which the wrapped one is
  the value as long as the scores are below \<open>2^30\<close>.
\<close>

definition cmp_exact :: "sort_by_t \<Rightarrow> item_t \<Rightarrow> item_t \<Rightarrow> int" where
  "cmp_exact sb i j =
     (let by_name = strncasecmp (chl_user_name (it_cmd i)) (chl_user_name (it_cmd j)) NICKNAME_LEN;
          by_score = sint (chl_score (it_cmd j)) - sint (chl_score (it_cmd i))
      in case sb of
           BY_NAME \<Rightarrow> (if by_name = 0 then by_score else by_name)
         | BY_SCORE \<Rightarrow> (if by_score = 0 then by_name else by_score))"

definition small_score :: "u32 \<Rightarrow> bool" where
  "small_score s \<longleftrightarrow> \<bar>sint s\<bar> < 2 ^ 30"

lemma small_diff:
  assumes "small_score a" and "small_score b"
  shows "sint (b - a) = sint b - sint a"
proof -
  have r: "- 1073741824 < sint a" "sint a < 1073741824" "- 1073741824 < sint b" "sint b < 1073741824"
    using assms by (simp_all add: small_score_def abs_less_iff)
  have "b - a = word_of_int (sint b - sint a)" by simp
  also have "sint (word_of_int (sint b - sint a) :: u32) = sint b - sint a"
    using r by (intro signed_take_bit_int_eq_self [THEN trans [OF sint_sbintrunc']]) auto
  finally show ?thesis .
qed

lemma cmp_item_exact:
  "small_score (chl_score (it_cmd i)) \<Longrightarrow> small_score (chl_score (it_cmd j)) \<Longrightarrow>
    cmp_item_for_sort sb i j = cmp_exact sb i j"
  by (simp add: cmp_item_for_sort_def cmp_exact_def small_diff)

lemma strncasecmp_sandwich:
  assumes "strncasecmp s t n \<le> 0" and "strncasecmp t u n \<le> 0" and "strncasecmp s u n = 0"
  shows "strncasecmp s t n = 0 \<and> strncasecmp t u n = 0"
proof -
  have us: "strncasecmp u s n \<le> 0" using assms(3) strncasecmp_sym [of u s n] by simp
  have "strncasecmp u t n \<le> 0" using us assms(1) by (rule strncasecmp_trans)
  moreover have "strncasecmp t s n \<le> 0" using assms(2) us by (rule strncasecmp_trans)
  moreover note strncasecmp_sym [of s t n] strncasecmp_sym [of t u n]
  ultimately show ?thesis using assms(1,2) by linarith
qed

text \<open>The lexicographic combination of two such comparisons is transitive.\<close>

lemma lex_trans:
  fixes a b c a' b' c' :: int
  assumes "if a = 0 then a' \<le> 0 else a \<le> 0" and "if b = 0 then b' \<le> 0 else b \<le> 0"
    and "a \<le> 0 \<Longrightarrow> b \<le> 0 \<Longrightarrow> c \<le> 0" and "a \<le> 0 \<Longrightarrow> b \<le> 0 \<Longrightarrow> c = 0 \<Longrightarrow> a = 0 \<and> b = 0"
    and "a' \<le> 0 \<Longrightarrow> b' \<le> 0 \<Longrightarrow> c' \<le> 0"
  shows "if c = 0 then c' \<le> 0 else c \<le> 0"
proof -
  have ab: "a \<le> 0" "b \<le> 0" using assms(1,2) by (simp_all split: if_splits)
  show ?thesis
  proof (cases "c = 0")
    case True
    with assms(4) [OF ab] assms(1,2,5) show ?thesis by simp
  next
    case False
    with assms(3) [OF ab] show ?thesis by simp
  qed
qed

interpretation by_sort: comparator "cmp_exact sb"
proof unfold_locales
  fix i j k :: item_t
  let ?n = "\<lambda>i j. strncasecmp (chl_user_name (it_cmd i)) (chl_user_name (it_cmd j)) NICKNAME_LEN"
  let ?s = "\<lambda>i j. sint (chl_score (it_cmd j)) - sint (chl_score (it_cmd i))"
  have n: "?n j i = - ?n i j" by (rule strncasecmp_sym)
  show "sgn (cmp_exact sb j i) = - sgn (cmp_exact sb i j)"
    by (cases sb) (auto simp: cmp_exact_def Let_def n sgn_if)
  have le: "cmp_exact sb i j \<le> 0 \<longleftrightarrow> (case sb of
      BY_NAME \<Rightarrow> (if ?n i j = 0 then ?s i j \<le> 0 else ?n i j \<le> 0)
    | BY_SCORE \<Rightarrow> (if ?s i j = 0 then ?n i j \<le> 0 else ?s i j \<le> 0))" for i j
    by (cases sb) (simp_all add: cmp_exact_def Let_def)
  assume ij: "cmp_exact sb i j \<le> 0" and jk: "cmp_exact sb j k \<le> 0"
  have tr: "?n i j \<le> 0 \<Longrightarrow> ?n j k \<le> 0 \<Longrightarrow> ?n i k \<le> 0" by (rule strncasecmp_trans)
  have sw: "?n i j \<le> 0 \<Longrightarrow> ?n j k \<le> 0 \<Longrightarrow> ?n i k = 0 \<Longrightarrow> ?n i j = 0 \<and> ?n j k = 0"
    by (rule strncasecmp_sandwich)
  show "cmp_exact sb i k \<le> 0"
  proof (cases sb)
    case BY_NAME
    have "if ?n i k = 0 then ?s i k \<le> 0 else ?n i k \<le> 0"
      by (rule lex_trans [of "?n i j" "?s i j" "?n j k" "?s j k"])
        (use ij [unfolded le] jk [unfolded le] tr sw BY_NAME in simp_all)
    then show ?thesis unfolding le by (simp add: BY_NAME)
  next
    case BY_SCORE
    have "if ?s i k = 0 then ?n i k \<le> 0 else ?s i k \<le> 0"
      by (rule lex_trans [of "?s i j" "?n i j" "?s j k" "?n j k"])
        (use ij [unfolded le] jk [unfolded le] tr BY_SCORE in simp_all)
    then show ?thesis unfolding le by (simp add: BY_SCORE)
  qed
qed

lemma sort_items_sorted:
  assumes "\<forall>i \<in> set items. small_score (chl_score (it_cmd i))"
  shows "sorted_wrt (\<lambda>i j. cmp_item_for_sort sb i j \<le> 0) (qsort_r (cmp_item_for_sort sb) items)"
proof -
  have "qsort_r (cmp_item_for_sort sb) items = qsort_r (cmp_exact sb) items"
    by (rule qsort_r_cong) (use assms cmp_item_exact in blast)
  moreover have "sorted_wrt (\<lambda>i j. cmp_item_for_sort sb i j \<le> 0) (qsort_r (cmp_exact sb) items)"
    by (rule sorted_wrt_mono_rel [OF _ by_sort.qsort_r_sorted]) (use assms cmp_item_exact in simp)
  ultimately show ?thesis by simp
qed

section \<open>Filling the menu\<close>

text \<open>The item \<open>populate_user_list\<close> makes of a user.\<close>

definition item_of :: "u16 \<Rightarrow> user_info_t \<Rightarrow> item_t" where
  "item_of self user =
     \<lparr>it_name = take 127 (u_nickname user @ (if u_id user = self then [42] else [])),
      it_desc = [user_state_char (u_state user)] @ [124] @ dec_int (sint (u_score user)),
      it_cmd = Uc_chl_user (u_id user) (u_score user) (nick_copy (u_nickname user))\<rparr>"

definition users_of :: "(ptr \<rightharpoonup> user_info_t) \<Rightarrow> ptr list \<Rightarrow> user_info_t list" where
  "users_of h ps = map (\<lambda>p. the (h p)) ps"

lemma populate_eq:
  assumes "set ps \<subseteq> dom h" and "length (pa_items arg) + length ps \<le> pa_sz arg"
  shows "\<exists>sel. fold_r (populate_user_list h sid self) ps arg =
      Inr (arg\<lparr>pa_items := pa_items arg @ map (item_of self) (users_of h ps), pa_selection := sel\<rparr>) \<and>
    (sel = pa_selection arg \<or> (\<exists>k. sel = Some k \<and> k < length (pa_items arg) + length ps)) \<and>
    ((\<forall>u \<in> set (users_of h ps). sid \<noteq> Some (u_id u)) \<longrightarrow> sel = pa_selection arg)"
  using assms
proof (induction ps arbitrary: arg)
  case Nil
  then show ?case by (intro exI [of _ "pa_selection arg"]) (simp add: users_of_def)
next
  case (Cons p ps)
  obtain u where u: "h p = Some u" using Cons.prems(1) by auto
  let ?arg = "arg\<lparr>pa_items := pa_items arg @ [item_of self u],
    pa_selection := (if sid = Some (u_id u) then Some (length (pa_items arg)) else pa_selection arg)\<rparr>"
  have step: "populate_user_list h sid self p arg = Inr ?arg"
    using Cons.prems(2) u by (simp add: populate_user_list_def item_of_def Let_def)
  obtain sel where sel: "fold_r (populate_user_list h sid self) ps ?arg =
      Inr (?arg\<lparr>pa_items := pa_items ?arg @ map (item_of self) (users_of h ps), pa_selection := sel\<rparr>)"
    "sel = pa_selection ?arg \<or> (\<exists>k. sel = Some k \<and> k < length (pa_items ?arg) + length ps)"
    "(\<forall>u \<in> set (users_of h ps). sid \<noteq> Some (u_id u)) \<longrightarrow> sel = pa_selection ?arg"
    using Cons.IH [of ?arg] Cons.prems by auto
  show ?case
    using step sel u by (intro exI [of _ sel]) (auto simp: users_of_def split: if_splits)
qed

lemma enumerate_mset: "image_mset snd (mset (enumerate n xs)) = mset xs"
  by (metis map_snd_enumerate mset_map)

text \<open>
  What \<open>refresh_list\<close> leaves in the menu: the items of the users in the order of the
  comparison, and as the current item the one chosen, if its id was found, or the first.
\<close>

definition sorted_items :: "sort_by_t \<Rightarrow> item_t list \<Rightarrow> item_t list" where
  "sorted_items sb items =
     map snd (qsort_r (\<lambda>i j. cmp_item_for_sort sb (snd i) (snd j)) (enumerate 0 items))"

lemma sorted_items_mset: "mset (sorted_items sb items) = mset items"
  by (simp add: sorted_items_def qsort_r_mset enumerate_mset)

lemma insert_by_map:
  "map f (insert_by (\<lambda>i j. cmp (f i) (f j)) x ys) = insert_by cmp (f x) (map f ys)"
  by (induction ys) auto

lemma sorted_items_eq: "sorted_items sb items = qsort_r (cmp_item_for_sort sb) items"
proof -
  have "map f (qsort_r (\<lambda>i j. cmp (f i) (f j)) xs) = qsort_r cmp (map f xs)" for f :: "'a \<Rightarrow> item_t" and cmp xs
    unfolding qsort_r_def by (induction xs) (simp_all add: insert_by_map)
  from this [of snd "cmp_item_for_sort sb" "enumerate 0 items"] show ?thesis
    by (simp add: sorted_items_def)
qed

lemma takeWhile_index:
  assumes "k < length items"
  shows "length (takeWhile (\<lambda>(j, it). j \<noteq> k)
      (qsort_r (\<lambda>i j. cmp_item_for_sort sb (snd i) (snd j)) (enumerate 0 items))) < length items"
proof -
  let ?xs = "qsort_r (\<lambda>i j. cmp_item_for_sort sb (snd i) (snd j)) (enumerate 0 items)"
  have strict: "length (takeWhile P xs) < length xs" if "x \<in> set xs" "\<not> P x" for P and x :: 'b and xs
    using that by (induction xs) auto
  have "(k, items ! k) \<in> set ?xs"
    using assms by (auto simp: in_set_enumerate_eq)
  then have "length (takeWhile (\<lambda>(j, it). j \<noteq> k) ?xs) < length ?xs" by (rule strict) simp
  then show ?thesis by simp
qed

lemma refresh_list_eq:
  assumes "table_ok c" and "cl_foci c = F_menu m keep hidden # fs"
    and "cl_list_updated c" and "cl_tree c \<noteq> [] \<or> me_items m = []"
  shows "\<exists>cur. refresh_list cs e c = Inr (c\<lparr>
      cl_foci := F_menu (m\<lparr>me_items := sorted_items (cl_sort_by c)
        (map (item_of (g_id (cl_gs c))) (users_of (cl_heap c) (cl_tree c))), me_cur := cur\<rparr>) keep hidden # fs,
      cl_title := bytes ''Users ('' @ dec_nat (cl_cnt c) @ bytes '')'', cl_list_updated := False\<rparr>) \<and>
    (cl_tree c \<noteq> [] \<longrightarrow> cur < length (cl_tree c)) \<and>
    ((\<forall>it i. current_item m = Some it \<longrightarrow> roster c i \<noteq> None \<longrightarrow> first_u16 e (uc_kind (it_cmd it)) \<noteq> i)
      \<longrightarrow> cur = 0)"
proof -
  let ?sid = "map_option (\<lambda>it. first_u16 e (uc_kind (it_cmd it))) (current_item m)"
  let ?arg = "\<lparr>pa_items = [], pa_sz = cl_cnt c, pa_selection = None\<rparr> :: populate_arg_t"
  let ?us = "users_of (cl_heap c) (cl_tree c)"
  have "set (cl_tree c) \<subseteq> dom (cl_heap c)" and cnt: "cl_cnt c = length (cl_tree c)"
    using assms(1) by (auto simp: table_ok_def)
  with populate_eq [of "cl_tree c" "cl_heap c" ?arg ?sid "g_id (cl_gs c)"]
  obtain sel where sel: "fold_r (populate_user_list (cl_heap c) ?sid (g_id (cl_gs c))) (cl_tree c) ?arg =
      Inr (?arg\<lparr>pa_items := map (item_of (g_id (cl_gs c))) ?us, pa_selection := sel\<rparr>)"
    "sel = None \<or> (\<exists>k. sel = Some k \<and> k < length (cl_tree c))"
    "(\<forall>u \<in> set ?us. ?sid \<noteq> Some (u_id u)) \<longrightarrow> sel = None" by auto
  have len: "length ?us = length (cl_tree c)" by (simp add: users_of_def)
  let ?items = "map (item_of (g_id (cl_gs c))) ?us"
  let ?cur = "case sel of None \<Rightarrow> 0 | Some k \<Rightarrow> length (takeWhile (\<lambda>(j, it). j \<noteq> k)
    (qsort_r (\<lambda>i j. cmp_item_for_sort (cl_sort_by c) (snd i) (snd j)) (enumerate 0 ?items)))"
  have ne: "\<not> (?items = [] \<and> me_items m \<noteq> [])" using assms(4) len by auto
  show ?thesis
  proof (intro exI [of _ ?cur] conjI impI)
    show "cl_tree c \<noteq> [] \<Longrightarrow> ?cur < length (cl_tree c)"
      using sel(2) takeWhile_index [of _ ?items "cl_sort_by c"] len by (auto split: option.split)
    assume no: "\<forall>it i. current_item m = Some it \<longrightarrow> roster c i \<noteq> None \<longrightarrow>
        first_u16 e (uc_kind (it_cmd it)) \<noteq> i"
    have "roster c (u_id u) \<noteq> None" if u: "u \<in> set ?us" for u
    proof -
      from u obtain p where "p \<in> set (cl_tree c)" "u = the (cl_heap c p)" by (auto simp: users_of_def)
      moreover from this have "cl_heap c p = Some u"
        using \<open>set (cl_tree c) \<subseteq> dom (cl_heap c)\<close> by auto
      ultimately show ?thesis using roster_Some_iff [OF assms(1), of "u_id u" "info_of u"] by blast
    qed
    with no have "\<forall>u \<in> set ?us. ?sid \<noteq> Some (u_id u)" by fastforce
    with sel(3) show "?cur = 0" by simp
  qed (use assms(2,3) sel(1) ne cnt len in \<open>simp add: refresh_list_def sorted_items_def Let_def\<close>)
qed

end
