(* ===== verification/ClientInv.thy ===== *)
theory ClientInv imports ClientList begin

text \<open>
  The invariant of the client's main loop and that every part of a round keeps it: the
  table is consistent, the four focusables have their kinds and exactly the focused one is
  lit, the popup is shown exactly while the client waits for an answer, and every message
  to the server is well-formed.
\<close>

section \<open>The invariant\<close>

text \<open>
  What is relied on of curses: a request to a menu leaves the current item among its items,
  and the form driver keeps the size of the field's buffer.
\<close>

definition curses_ok :: "curses_t \<Rightarrow> bool" where
  "curses_ok cs \<longleftrightarrow> (\<forall>req n i. i < n \<longrightarrow> menu_driver cs req n i < n) \<and>
     (\<forall>req f. length (fo_text (form_driver cs req f)) = length (fo_text f))"

definition menu_ok :: "menu_t \<Rightarrow> bool" where
  "menu_ok m \<longleftrightarrow> me_items m = [] \<or> me_cur m < length (me_items m)"

definition foci_ok :: "focusable_t list \<Rightarrow> bool" where
  "foci_ok fs \<longleftrightarrow> (\<exists>m0 f m2 m3.
     fs = [F_menu m0 True False, F_form f False, F_menu m2 False False, F_menu m3 False False] \<and>
     menu_ok m0 \<and> list_all (\<lambda>it. uc_kind (it_cmd it) = 0) (me_items m0) \<and> length (fo_text f) = 59 \<and>
     menu_ok m2 \<and> me_items m2 = me_items battle_act_menu \<and>
     menu_ok m3 \<and> me_items m3 = me_items main_menu)"

text \<open>Is the focusable shown as the one in focus?\<close>

fun lit :: "focusable_t \<Rightarrow> bool \<Rightarrow> bool" where
  "lit (F_menu m _ _) cursor = (me_fore m = A_REVERSE)"
| "lit (F_form _ _) cursor = cursor"

definition focus_ok :: "focusable_t list \<Rightarrow> bool \<Rightarrow> nat \<Rightarrow> bool" where
  "focus_ok fs cursor idx \<longleftrightarrow> idx < 4 \<and> list_all (\<lambda>i. lit (fs ! i) cursor \<longleftrightarrow> i = idx) [0, 1, 2, 3]"

definition client_inv :: "client_t \<Rightarrow> bool" where
  "client_inv c \<longleftrightarrow> table_ok c \<and> foci_ok (cl_foci c) \<and>
     focus_ok (cl_foci c) (cl_cursor c) (cl_focus_idx c) \<and>
     (cl_popup c \<noteq> None \<longleftrightarrow> cl_waiting c \<noteq> W_NONE) \<and> list_all wf_message (cl_sent c)"

text \<open>The client's own user is in its table, as it is once the server has listed it.\<close>

definition listed :: "client_t \<Rightarrow> bool" where
  "listed c \<longleftrightarrow> roster c (g_id (cl_gs c)) \<noteq> None"

definition same_view :: "client_t \<Rightarrow> client_t \<Rightarrow> bool" where
  "same_view c d \<longleftrightarrow> cl_heap d = cl_heap c \<and> cl_tree d = cl_tree c \<and> cl_brk d = cl_brk c \<and>
     cl_cnt d = cl_cnt c \<and> cl_foci d = cl_foci c \<and> cl_focus_idx d = cl_focus_idx c \<and>
     cl_cursor d = cl_cursor c \<and> g_id (cl_gs d) = g_id (cl_gs c) \<and>
     (cl_list_updated c \<longrightarrow> cl_list_updated d)"

lemma same_view_roster: "same_view c d \<Longrightarrow> roster d = roster c"
  by (rule roster_cong) (simp_all add: same_view_def)

lemma same_view_listed: "same_view c d \<Longrightarrow> listed d = listed c"
  using same_view_roster [of c d] by (simp add: listed_def same_view_def)

lemma client_inv_same_view:
  assumes "client_inv c" and "same_view c d" and "cl_popup d \<noteq> None \<longleftrightarrow> cl_waiting d \<noteq> W_NONE"
    and "list_all wf_message (cl_sent d)"
  shows "client_inv d"
  using assms table_ok_cong [of d c] by (simp add: client_inv_def same_view_def)

lemma listed_tree: "listed c \<Longrightarrow> cl_tree c \<noteq> []"
  by (auto simp: listed_def roster_def find_user_def tfind_def)

section \<open>The messages to the server\<close>

lemma wf_reply_challenge [simp]: "wf_message (reply_challenge a ch i j k)"
  by (simp add: wf_message_iff reply_challenge_def make_challenge_def make_msg_buf_def init_msg_buf_def
      kind_of_body_def body_wf_def msg_check_form_def bad_kind_def size_defs word_le_nat_alt)

lemma wf_turn_message [simp]: "wf_message (turn_message gs a)"
  by (simp add: wf_message_iff turn_message_def make_msg_buf_def init_msg_buf_def
      kind_of_body_def body_wf_def msg_check_form_def bad_kind_def size_defs word_le_nat_alt)

lemma wf_quit_message [simp]: "wf_message (quit_message gs)"
  by (simp add: wf_message_iff quit_message_def make_msg_buf_def init_msg_buf_def
      kind_of_body_def body_wf_def msg_check_form_def bad_kind_def size_defs word_le_nat_alt)

lemma strip_spaces_length [simp]: "length (strip_spaces n t) = length t"
  by (induction n t rule: strip_spaces.induct) auto

lemma strip_spaces_0: "0 \<in> set t \<Longrightarrow> 0 \<in> set (strip_spaces n t)"
proof (induction n t rule: strip_spaces.induct)
  case (2 n t)
  have "0 \<in> set (t[n := 0])" if "isspace (t ! n)"
  proof (cases "n < length t")
    case True
    then show ?thesis by (rule set_update_memI)
  next
    case False
    then have "t[n := 0] = t" by (simp add: list_update_beyond)
    with 2 show ?thesis by simp
  qed
  with 2 show ?case by simp
qed simp

lemma wf_chat_message: "wf_message (fst (chat_message cs gs f))"
proof -
  have "0 \<in> set (snprintf_s (zeros 128) 128 x)" for x
    by (simp add: snprintf_s_def overlay_def)
  then have "0 \<in> set (strip_spaces n (snprintf_s (zeros 128) 128 x))" for n x
    by (rule strip_spaces_0)
  then show ?thesis
    by (simp add: chat_message_def Let_def wf_message_iff make_msg_buf_def init_msg_buf_def
        kind_of_body_def body_wf_def msg_check_form_def bad_kind_def size_defs word_le_nat_alt
        null_terminated_in snprintf_s_length zeros_def)
qed

section \<open>Messages from the server\<close>

lemma nickname_or_ok:
  assumes "table_ok c"
  obtains n where "nickname_or d i c = Inr n"
    and "n = (case roster c i of None \<Rightarrow> d | Some (nick, st, sc) \<Rightarrow> nick)"
proof (cases "find_user i c")
  case None
  then show thesis by (intro that [of d]) (simp_all add: nickname_or_def roster_def)
next
  case (Some p)
  then obtain u where "cl_heap c p = Some u" by (rule find_user_SomeE)
  with Some show thesis
    by (intro that [of "u_nickname u"]) (simp_all add: nickname_or_def deref_info_def roster_def info_of_def)
qed

lemmas say_defs = say_chat_def say_battle_def set_gs_def send_out_def

lemma on_sendmsg_ok:
  assumes "client_inv c"
  obtains d where "on_sendmsg sm c = Inr d" and "client_inv d" and "same_view c d"
proof -
  have "table_ok c" using assms by (simp add: client_inv_def)
  then obtain n where n: "nickname_or (bytes ''<unknown>'') (sm_id sm) c = Inr n"
    by (rule nickname_or_ok)
  have v: "same_view c (say_chat x c)" for x by (simp add: same_view_def say_defs)
  have "client_inv (say_chat x c)" for x
    by (rule client_inv_same_view [OF assms v]) (use assms in \<open>simp_all add: client_inv_def say_defs\<close>)
  with n v that show thesis by (simp add: on_sendmsg_def)
qed

lemma on_turn_r_view: "same_view c (on_turn_r r c)"
  by (simp add: same_view_def on_turn_r_def Let_def say_defs)

lemma on_turn_r_rest: "cl_popup (on_turn_r r c) = cl_popup c" "cl_waiting (on_turn_r r c) = cl_waiting c"
  "cl_sent (on_turn_r r c) = cl_sent c"
  by (simp_all add: on_turn_r_def Let_def say_defs)

lemma on_turn_r_ok:
  assumes "client_inv c"
  shows "client_inv (on_turn_r r c)"
  by (rule client_inv_same_view [OF assms on_turn_r_view])
    (use assms in \<open>simp_all only: on_turn_r_rest client_inv_def\<close>)

lemma on_challenge_ok:
  assumes "client_inv c"
  obtains d where "on_challenge ch c = Inr d" and "client_inv d" and "same_view c d"
proof -
  have "table_ok c" using assms by (simp add: client_inv_def)
  then obtain n where n: "nickname_or (bytes ''<unknown>'') (c_id1 ch) c = Inr n"
    by (rule nickname_or_ok)
  let ?d = "if c_action ch = C_START then
      (if cl_waiting c = W_NONE then
         set_gs (\<lambda>gs. gs\<lparr>g_chid := c_chid ch, g_opponent_id := c_id1 ch\<rparr>)
           (c\<lparr>cl_waiting := W_ACCEPT,
              cl_popup := Some (bytes ''You are being challenged by `'' @ n @ [39] @
                bytes ''. Join battle? (Y/N)'')\<rparr>)
       else send_out (reply_challenge C_REJECT (c_chid ch) (c_id1 ch) (c_id2 ch) (g_key (cl_gs c))) c)
    else c"
  have v: "same_view c ?d" by (simp add: same_view_def say_defs)
  have "on_challenge ch c = Inr ?d" using n by (simp add: on_challenge_def)
  moreover have "client_inv ?d"
    by (rule client_inv_same_view [OF assms v])
      (use assms in \<open>simp_all add: client_inv_def say_defs\<close>)
  ultimately show thesis using v by (rule that)
qed

lemma on_challenge_r_ok:
  assumes "client_inv c"
  obtains d where "on_challenge_r ch c = Inr d" and "client_inv d" and "same_view c d"
proof -
  have "table_ok c" using assms by (simp add: client_inv_def)
  have n: "\<exists>n. nickname_or (bytes ''-'') i d = Inr n" if "same_view c d" for i d
  proof -
    have "table_ok d" using that \<open>table_ok c\<close> table_ok_cong [of d c] by (simp add: same_view_def)
    then show ?thesis by (rule nickname_or_ok) blast
  qed
  obtain d where d: "on_challenge_r ch c = Inr d" "same_view c d"
    "cl_popup d \<noteq> None \<longleftrightarrow> cl_waiting d \<noteq> W_NONE" "list_all wf_message (cl_sent d)"
  proof (cases "cr_error ch = ME_OK")
    case True
    let ?op = "if cr_is_id1 ch \<noteq> 0 then cr_id2 ch else cr_id1 ch"
    let ?c1 = "set_gs (\<lambda>gs. gs\<lparr>g_is_user1 := (cr_is_id1 ch \<noteq> 0), g_acted := True,
        g_opponent_id := ?op, g_chid := cr_chid ch\<rparr>) (c\<lparr>cl_waiting := W_NONE, cl_popup := None\<rparr>)"
    have v: "same_view c ?c1" by (simp add: same_view_def set_gs_def)
    from n [OF v, of ?op] obtain x where x: "nickname_or (bytes ''-'') ?op ?c1 = Inr x" by blast
    show thesis
    proof (rule that)
      show "on_challenge_r ch c = Inr (say_battle (bytes ''Starting battle with '' @ nick_copy x @ [10])
          (set_gs (\<lambda>gs. gs\<lparr>g_state := UBATTLING, g_opponent_name := nick_copy x\<rparr>)
            (?c1\<lparr>cl_state_updated := True\<rparr>)))"
        unfolding on_challenge_r_def Let_def x using True by simp
    qed (use assms in \<open>simp_all add: same_view_def say_defs client_inv_def\<close>)
  next
    case False
    show thesis
    proof (rule that)
      show "on_challenge_r ch c = Inr (say_battle (bytes ''Battle didn'' @ [39] @ bytes ''t start: '' @
          bytes (msg_strerror (cr_error ch)) @ [10])
        (c\<lparr>cl_popup := None, cl_waiting := W_NONE, cl_state_updated := True\<rparr>))"
        using False by (simp add: on_challenge_r_def)
    qed (use assms in \<open>simp_all add: same_view_def say_defs client_inv_def\<close>)
  qed
  with client_inv_same_view [OF assms d(2-4)] that show thesis by blast
qed

lemma keeps_rest_inv:
  assumes "client_inv c" and "table_ok d" and "keeps_rest c d"
  shows "client_inv d"
  using assms by (simp add: client_inv_def keeps_rest_def)

text \<open>
  A change of the client's own user to \<open>UOFFLINE\<close> leaves the loop; any other change is
  applied to the table.
\<close>

lemma on_change_ok:
  assumes "client_inv c"
  obtains (leave) "uu_id v = g_id (cl_gs c)" and "uu_state v = 0" and "on_change v c = Inr (Leave c)"
  | (go) d where "\<not> (uu_id v = g_id (cl_gs c) \<and> uu_state v = 0)" and "on_change v c = Inr (Go d)"
      and "client_inv d" and "roster d = apply_change v (roster c)" and "g_id (cl_gs d) = g_id (cl_gs c)"
      and "cl_foci d = cl_foci c" and "cl_list_updated d" and "cl_sent d = cl_sent c"
proof (cases "uu_id v = g_id (cl_gs c) \<and> uu_state v = 0")
  case True
  with leave show thesis by (simp add: on_change_def)
next
  case False
  define c1 where "c1 = (if uu_id v = g_id (cl_gs c) then
      set_gs (\<lambda>gs. gs\<lparr>g_nickname := nick_copy (cstr (uu_nickname v)), g_state := ucast (uu_state v)\<rparr>)
        (c\<lparr>cl_state_updated := True\<rparr>) else c)"
  define c2 where "c2 = (if uu_id v = g_opponent_id (cl_gs c1) then
      set_gs (\<lambda>gs. gs\<lparr>g_opponent_name := nick_copy (cstr (uu_nickname v))\<rparr>)
        (c1\<lparr>cl_state_updated := True\<rparr>) else c1)"
  have v: "same_view c c2" by (simp add: same_view_def c2_def c1_def set_gs_def)
  have i: "client_inv c2"
    by (rule client_inv_same_view [OF assms v])
      (use assms in \<open>simp_all add: client_inv_def c2_def c1_def set_gs_def\<close>)
  then have "table_ok c2" by (simp add: client_inv_def)
  then obtain d where d: "table_change v c2 = Inr d" "table_ok d"
    "roster d = apply_change v (roster c2)" "keeps_rest c2 d" "cl_list_updated d"
    by (rule table_change_ok)
  have "on_change v c = Inr (Go d)"
    unfolding on_change_def Let_def c1_def [symmetric] c2_def [symmetric] d(1)
    using False by simp
  moreover have "cl_sent c2 = cl_sent c" by (simp add: c2_def c1_def set_gs_def)
  ultimately show thesis
    using False d(3-5) keeps_rest_inv [OF i d(2,4)] v same_view_roster [OF v]
    by (intro go [of d]) (simp_all add: keeps_rest_def same_view_def)
qed

lemma apply_change_listed:
  "R i \<noteq> None \<Longrightarrow> \<not> (uu_id v = i \<and> uu_state v = 0) \<Longrightarrow> apply_change v R i \<noteq> None"
  by (auto simp: apply_change_def)

lemma on_changes_ok:
  assumes "client_inv c"
  shows "\<exists>r. fold_flow on_change vs c = Inr r \<and> client_inv (flow_state r) \<and>
    (\<forall>d. r = Go d \<longrightarrow> roster d = fold apply_change vs (roster c) \<and> g_id (cl_gs d) = g_id (cl_gs c) \<and>
      (listed c \<longrightarrow> listed d) \<and> (vs \<noteq> [] \<or> cl_list_updated c \<longrightarrow> cl_list_updated d) \<and> cl_foci d = cl_foci c) \<and>
    ((\<exists>d. r = Leave d) \<longleftrightarrow> (\<exists>v \<in> set vs. uu_id v = g_id (cl_gs c) \<and> uu_state v = 0))"
  using assms
proof (induction vs arbitrary: c)
  case Nil
  then show ?case by simp
next
  case (Cons v vs)
  from Cons.prems show ?case
  proof (cases rule: on_change_ok [of c v])
    case leave
    with Cons.prems show ?thesis by auto
  next
    case (go d)
    from Cons.IH [OF go(3)] obtain r where r: "fold_flow on_change vs d = Inr r" "client_inv (flow_state r)"
      "\<forall>d'. r = Go d' \<longrightarrow> roster d' = fold apply_change vs (roster d) \<and> g_id (cl_gs d') = g_id (cl_gs d) \<and>
        (listed d \<longrightarrow> listed d') \<and> (vs \<noteq> [] \<or> cl_list_updated d \<longrightarrow> cl_list_updated d') \<and> cl_foci d' = cl_foci d"
      "(\<exists>d'. r = Leave d') \<longleftrightarrow> (\<exists>v \<in> set vs. uu_id v = g_id (cl_gs d) \<and> uu_state v = 0)" by blast
    have l: "listed c \<Longrightarrow> listed d"
      using go(1,4,5) apply_change_listed [of "roster c" "g_id (cl_gs c)" v] by (simp add: listed_def)
    have "vs = [] \<Longrightarrow> r = Go d" using r(1) by simp
    then show ?thesis
      using go r l by (intro exI [of _ r]) auto
  qed
qed

text \<open>What a message changes in the table, and whether it ends the loop for the user \<open>i\<close>.\<close>

definition um_changes :: "ui_msg_t \<Rightarrow> uchange_user_t list" where
  "um_changes um = (case um of Um_recv m \<Rightarrow> changes_in m | Um_disconn _ _ \<Rightarrow> [])"

definition um_quits :: "u16 \<Rightarrow> ui_msg_t \<Rightarrow> bool" where
  "um_quits i um = (case um of Um_recv m \<Rightarrow> list_ex (\<lambda>v. uu_id v = i \<and> uu_state v = 0) (changes_in m)
     | Um_disconn _ _ \<Rightarrow> True)"

text \<open>
  \<open>kept vs q c r\<close>: the loop is left in a state of the invariant exactly if \<open>q\<close>, and otherwise
  goes on in one whose table has taken the changes \<open>vs\<close>.
\<close>

definition kept :: "uchange_user_t list \<Rightarrow> bool \<Rightarrow> client_t \<Rightarrow> client_t flow \<Rightarrow> bool" where
  "kept vs q c r \<longleftrightarrow> client_inv (flow_state r) \<and>
     (case r of Leave d \<Rightarrow> q
      | Go d \<Rightarrow> \<not> q \<and> (listed c \<longrightarrow> listed d) \<and> cl_foci d = cl_foci c \<and> g_id (cl_gs d) = g_id (cl_gs c) \<and>
          (vs \<noteq> [] \<or> cl_list_updated c \<longrightarrow> cl_list_updated d) \<and> roster d = fold apply_change vs (roster c))"

lemma kept_same_view: "client_inv d \<Longrightarrow> same_view c d \<Longrightarrow> kept [] False c (Go d)"
  using same_view_listed [of c d] same_view_roster [of c d] by (simp add: kept_def same_view_def)

lemma handle_um_ok:
  assumes "client_inv c"
  shows "\<exists>r. handle_um um c = Inr r \<and> kept (um_changes um) (um_quits (g_id (cl_gs c)) um) c r"
proof (cases um)
  case (Um_disconn k e)
  with assms show ?thesis
    by (intro exI [of _ "Leave c"]) (simp add: handle_um_def kept_def um_quits_def)
next
  case (Um_recv m)
  show ?thesis
  proof (cases "m_body m")
    case (Uchange u)
    let ?vs = "take (unat (uc_count u)) (uc_users u)"
    obtain r where r: "fold_flow on_change ?vs c = Inr r" "client_inv (flow_state r)"
      "\<forall>d. r = Go d \<longrightarrow> roster d = fold apply_change ?vs (roster c) \<and> g_id (cl_gs d) = g_id (cl_gs c) \<and>
        (listed c \<longrightarrow> listed d) \<and> (?vs \<noteq> [] \<or> cl_list_updated c \<longrightarrow> cl_list_updated d) \<and> cl_foci d = cl_foci c"
      "(\<exists>d. r = Leave d) \<longleftrightarrow> (\<exists>v \<in> set ?vs. uu_id v = g_id (cl_gs c) \<and> uu_state v = 0)"
      using on_changes_ok [OF assms, of ?vs] by blast
    have "kept ?vs (list_ex (\<lambda>v. uu_id v = g_id (cl_gs c) \<and> uu_state v = 0) ?vs) c r"
      using r(2-4) by (cases r) (auto simp: kept_def list_ex_iff)
    with r(1) Um_recv Uchange show ?thesis
      by (simp add: handle_um_def on_uchange_def um_changes_def um_quits_def changes_in_def)
  next
    case (Challenge ch)
    obtain d where d: "on_challenge ch c = Inr d" "client_inv d" "same_view c d"
      by (rule on_challenge_ok [OF assms])
    with Um_recv Challenge kept_same_view [OF d(2,3)] show ?thesis
      by (simp add: handle_um_def um_changes_def um_quits_def changes_in_def)
  next
    case (Challenge_r ch)
    obtain d where d: "on_challenge_r ch c = Inr d" "client_inv d" "same_view c d"
      by (rule on_challenge_r_ok [OF assms])
    with Um_recv Challenge_r kept_same_view [OF d(2,3)] show ?thesis
      by (simp add: handle_um_def um_changes_def um_quits_def changes_in_def)
  next
    case (Turn_r r)
    with Um_recv kept_same_view [OF on_turn_r_ok [OF assms] on_turn_r_view, of r] show ?thesis
      by (simp add: handle_um_def um_changes_def um_quits_def changes_in_def)
  next
    case (Sendmsg sm)
    obtain d where d: "on_sendmsg sm c = Inr d" "client_inv d" "same_view c d"
      by (rule on_sendmsg_ok [OF assms])
    with Um_recv Sendmsg kept_same_view [OF d(2,3)] show ?thesis
      by (simp add: handle_um_def um_changes_def um_quits_def changes_in_def)
  qed (use Um_recv kept_same_view [OF assms, of c] in
      \<open>simp_all add: handle_um_def same_view_def um_changes_def um_quits_def changes_in_def\<close>)
qed

text \<open>The messages of a round.\<close>

lemma kept_trans:
  "kept vs False c (Go d) \<Longrightarrow> kept ws q d r \<Longrightarrow> kept (vs @ ws) q c r"
  by (cases r) (simp_all add: kept_def)

lemma handle_ums_ok:
  "client_inv c \<Longrightarrow> \<exists>r. fold_flow handle_um ums c = Inr r \<and>
    kept (concat (map um_changes ums)) (list_ex (um_quits (g_id (cl_gs c))) ums) c r"
proof (induction ums arbitrary: c)
  case Nil
  then show ?case by (simp add: kept_def)
next
  case (Cons um ums)
  from handle_um_ok [OF Cons.prems] obtain r where
    r: "handle_um um c = Inr r" "kept (um_changes um) (um_quits (g_id (cl_gs c)) um) c r" by blast
  show ?case
  proof (cases r)
    case (Leave d)
    with r show ?thesis by (simp add: kept_def)
  next
    case (Go d)
    then have d: "client_inv d" "\<not> um_quits (g_id (cl_gs c)) um" "g_id (cl_gs d) = g_id (cl_gs c)"
      using r(2) by (simp_all add: kept_def)
    from Cons.IH [OF d(1)] obtain r' where "fold_flow handle_um ums d = Inr r'"
      "kept (concat (map um_changes ums)) (list_ex (um_quits (g_id (cl_gs c))) ums) d r'"
      unfolding d(3) by blast
    with r Go d(2) kept_trans [of "um_changes um" c d _ _ r'] show ?thesis by simp
  qed
qed

end
