(* ===== verification/ClientRound.thy ===== *)
theory ClientRound imports ClientInv begin

text \<open>
  The rest of a round of the client's main loop keeps the invariant: the user list, the
  panes, the keys and the commands; and with them the whole round and a run of rounds.
\<close>

section \<open>The user list and the panes\<close>

lemma foci_okE:
  assumes "foci_ok fs"
  obtains m0 f m2 m3 where "fs = [F_menu m0 True False, F_form f False, F_menu m2 False False, F_menu m3 False False]"
    and "menu_ok m0" and "list_all (\<lambda>it. uc_kind (it_cmd it) = 0) (me_items m0)" and "length (fo_text f) = 59"
    and "menu_ok m2" and "me_items m2 = me_items battle_act_menu"
    and "menu_ok m3" and "me_items m3 = me_items main_menu"
  using assms by (auto simp: foci_ok_def)

lemma focus_ok_iff:
  "focus_ok [a, b, c, d] cur i \<longleftrightarrow> i < 4 \<and> (lit a cur \<longleftrightarrow> i = 0) \<and> (lit b cur \<longleftrightarrow> i = 1) \<and>
    (lit c cur \<longleftrightarrow> i = 2) \<and> (lit d cur \<longleftrightarrow> i = 3)"
  by (auto simp: focus_ok_def)

definition user_menu :: "client_t \<Rightarrow> menu_t" where
  "user_menu c = (case cl_foci c ! 0 of F_menu m _ _ \<Rightarrow> m | F_form _ _ \<Rightarrow> menu_of [])"

text \<open>
  The client is in its table, and the menu of users shows somebody (\<open>steady\<close>), or will do
  so before the next key is handled (\<open>ready\<close>).
\<close>

definition steady :: "client_t \<Rightarrow> bool" where
  "steady c \<longleftrightarrow> client_inv c \<and> listed c \<and> me_items (user_menu c) \<noteq> []"

definition ready :: "client_t \<Rightarrow> bool" where
  "ready c \<longleftrightarrow> client_inv c \<and> listed c \<and> (me_items (user_menu c) \<noteq> [] \<or> cl_list_updated c)"

lemma steady_ready: "steady c \<Longrightarrow> ready c"
  by (simp add: steady_def ready_def)

lemma refresh_list_ok:
  assumes "client_inv c" and "listed c \<or> me_items (user_menu c) = []"
  shows "\<exists>d. refresh_list cs e c = Inr d \<and> client_inv d \<and> (listed c \<longrightarrow> listed d) \<and>
    (cl_list_updated c \<longrightarrow> listed c \<longrightarrow> me_items (user_menu d) \<noteq> []) \<and>
    (\<not> cl_list_updated c \<longrightarrow> d = c)"
proof (cases "cl_list_updated c")
  case False
  with assms show ?thesis by (intro exI [of _ c]) (simp add: refresh_list_def)
next
  case True
  from assms(1) have inv: "table_ok c" "foci_ok (cl_foci c)"
    "focus_ok (cl_foci c) (cl_cursor c) (cl_focus_idx c)" by (simp_all add: client_inv_def)
  obtain m f m2 m3 where f: "cl_foci c = [F_menu m True False, F_form f False, F_menu m2 False False, F_menu m3 False False]"
    "length (fo_text f) = 59" "menu_ok m2" "me_items m2 = me_items battle_act_menu"
    "menu_ok m3" "me_items m3 = me_items main_menu"
    by (rule foci_okE [OF inv(2)])
  have um: "user_menu c = m" by (simp add: user_menu_def f(1))
  with assms(2) listed_tree [of c] have "cl_tree c \<noteq> [] \<or> me_items m = []" by auto
  from refresh_list_eq [OF inv(1) f(1) True this] obtain cur where
    r: "refresh_list cs e c = Inr (c\<lparr>
      cl_foci := [F_menu (m\<lparr>me_items := sorted_items (cl_sort_by c)
        (map (item_of (g_id (cl_gs c))) (users_of (cl_heap c) (cl_tree c))), me_cur := cur\<rparr>) True False,
        F_form f False, F_menu m2 False False, F_menu m3 False False],
      cl_title := bytes ''Users ('' @ dec_nat (cl_cnt c) @ bytes '')'', cl_list_updated := False\<rparr>)"
    and cur: "cl_tree c \<noteq> [] \<longrightarrow> cur < length (cl_tree c)" by blast
  define items where "items = sorted_items (cl_sort_by c)
    (map (item_of (g_id (cl_gs c))) (users_of (cl_heap c) (cl_tree c)))"
  define d where "d = c\<lparr>cl_foci := [F_menu (m\<lparr>me_items := items, me_cur := cur\<rparr>) True False,
        F_form f False, F_menu m2 False False, F_menu m3 False False],
      cl_title := bytes ''Users ('' @ dec_nat (cl_cnt c) @ bytes '')'', cl_list_updated := False\<rparr>"
  have set: "set items = item_of (g_id (cl_gs c)) ` set (users_of (cl_heap c) (cl_tree c))"
    by (simp add: items_def sorted_items_eq)
  have len: "length items = length (cl_tree c)"
    by (simp add: items_def sorted_items_eq users_of_def)
  have "menu_ok (m\<lparr>me_items := items, me_cur := cur\<rparr>)" using cur len by (auto simp: menu_ok_def)
  moreover have "list_all (\<lambda>it. uc_kind (it_cmd it) = 0) items"
    unfolding list_all_iff set by (auto simp: item_of_def)
  ultimately have fok: "foci_ok (cl_foci d)" using f(2-) by (simp add: foci_ok_def d_def)
  have "focus_ok (cl_foci d) (cl_cursor d) (cl_focus_idx d)"
    using inv(3) f(1) by (simp add: d_def focus_ok_iff)
  moreover have "table_ok d" using inv(1) table_ok_cong [of d c] by (simp add: d_def)
  ultimately have i: "client_inv d" using assms(1) fok by (simp add: client_inv_def d_def)
  have "roster d = roster c" by (rule roster_cong) (simp_all add: d_def)
  then have l: "listed d = listed c" by (simp add: listed_def d_def)
  have "listed c \<Longrightarrow> items \<noteq> []" using listed_tree len by auto
  then have n: "listed c \<longrightarrow> me_items (user_menu d) \<noteq> []" by (simp add: user_menu_def d_def)
  have "refresh_list cs e c = Inr d" using r by (simp add: d_def items_def)
  with i l n True show ?thesis by blast
qed

lemma draw_states_ok:
  assumes "client_inv c"
  obtains d where "draw_states c = Inr d" and "client_inv d" and "same_view c d"
    and "cl_list_updated d = cl_list_updated c"
proof (cases "cl_state_updated c")
  case False
  with assms that [of c] show thesis by (simp add: draw_states_def same_view_def)
next
  case True
  have "table_ok c" using assms by (simp add: client_inv_def)
  obtain n where n: "nickname_or [] (g_id (cl_gs c)) c = Inr n"
    by (rule nickname_or_ok [OF \<open>table_ok c\<close>])
  obtain k where k: "nickname_or [] (g_opponent_id (cl_gs c)) c = Inr k"
    by (rule nickname_or_ok [OF \<open>table_ok c\<close>])
  obtain p q where d: "draw_states c = Inr (c\<lparr>cl_player := p, cl_opponent := q, cl_state_updated := False\<rparr>)"
    unfolding draw_states_def draw_user_state_subwin_def n k Let_def using True by simp
  let ?d = "c\<lparr>cl_player := p, cl_opponent := q, cl_state_updated := False\<rparr>"
  have v: "same_view c ?d" by (simp add: same_view_def)
  have "client_inv ?d"
    by (rule client_inv_same_view [OF assms v]) (use assms in \<open>simp_all add: client_inv_def\<close>)
  with that [OF d] v show thesis by simp
qed

section \<open>Moving the focus\<close>

lemma move_focus_ok:
  assumes "client_inv c" and "new < 4" and "new \<noteq> cl_focus_idx c" and "curses_ok cs"
  shows "client_inv (move_focus cs new c)" and "user_menu (move_focus cs new c) =
      (user_menu c)\<lparr>me_fore := me_fore (user_menu (move_focus cs new c)),
        me_back := me_back (user_menu (move_focus cs new c))\<rparr>"
proof -
  from assms(1) have inv: "table_ok c" "foci_ok (cl_foci c)"
    "focus_ok (cl_foci c) (cl_cursor c) (cl_focus_idx c)" by (simp_all add: client_inv_def)
  obtain m f m2 m3 where f: "cl_foci c = [F_menu m True False, F_form f False, F_menu m2 False False, F_menu m3 False False]"
    "menu_ok m" "list_all (\<lambda>it. uc_kind (it_cmd it) = 0) (me_items m)"
    "length (fo_text f) = 59" "menu_ok m2" "me_items m2 = me_items battle_act_menu"
    "menu_ok m3" "me_items m3 = me_items main_menu"
    by (rule foci_okE [OF inv(2)])
  have form: "length (fo_text (form_driver cs r g)) = length (fo_text g)" for r g
    using assms(4) by (simp add: curses_ok_def)
  have idx: "cl_focus_idx c = 0 \<or> cl_focus_idx c = 1 \<or> cl_focus_idx c = 2 \<or> cl_focus_idx c = 3"
    using inv(3) f(1) by (auto simp: focus_ok_iff)
  have new: "new = 0 \<or> new = 1 \<or> new = 2 \<or> new = 3" using assms(2) by auto
  let ?d = "move_focus cs new c"
  have rest: "cl_heap ?d = cl_heap c" "cl_tree ?d = cl_tree c" "cl_brk ?d = cl_brk c" "cl_cnt ?d = cl_cnt c"
    "cl_popup ?d = cl_popup c" "cl_waiting ?d = cl_waiting c" "cl_sent ?d = cl_sent c"
    by (simp_all add: move_focus_def case_prod_beta Let_def)
  have "foci_ok (cl_foci ?d) \<and> focus_ok (cl_foci ?d) (cl_cursor ?d) (cl_focus_idx ?d)"
    using idx new f inv(3) assms(3)
    by (elim disjE) (simp_all add: move_focus_def focus_def unfocus_def foci_ok_def focus_ok_iff menu_ok_def form)
  moreover have "table_ok ?d" using inv(1) table_ok_cong [OF rest(1-4)] by simp
  ultimately show "client_inv ?d" using assms(1) rest by (simp add: client_inv_def)
  show "user_menu ?d = (user_menu c)\<lparr>me_fore := me_fore (user_menu ?d), me_back := me_back (user_menu ?d)\<rparr>"
    using idx new f(1) assms(3)
    by (elim disjE) (simp_all add: move_focus_def focus_def unfocus_def user_menu_def)
qed

section \<open>Keys\<close>

text \<open>
  The keys that may be typed: a byte, or one of the function keys the program knows.
\<close>

definition key_ok :: "curses_t \<Rightarrow> int \<Rightarrow> bool" where
  "key_ok cs key \<longleftrightarrow> (0 \<le> key \<and> key \<le> 255) \<or>
     key \<in> {KEY_DOWN cs, KEY_UP cs, KEY_LEFT cs, KEY_RIGHT cs, KEY_BACKSPACE cs, KEY_DC cs, KEY_BTAB cs}"

fun steady_flow :: "client_t flow \<Rightarrow> bool" where
  "steady_flow (Go c) = steady c"
| "steady_flow (Leave c) = client_inv c"

lemma steady_flow_inv: "steady_flow r \<Longrightarrow> client_inv (flow_state r)"
  by (cases r) (simp_all add: steady_def)

lemma steady_same_view:
  assumes "steady c" and "same_view c d" and "cl_popup d \<noteq> None \<longleftrightarrow> cl_waiting d \<noteq> W_NONE"
    and "list_all wf_message (cl_sent d)"
  shows "steady d"
proof -
  from assms client_inv_same_view [of c d] have "client_inv d" by (simp add: steady_def)
  moreover from assms(2) same_view_listed [of c d] have "listed d = listed c" "user_menu d = user_menu c"
    by (simp_all add: user_menu_def same_view_def)
  ultimately show ?thesis using assms(1) by (simp add: steady_def)
qed

lemma steady_foci:
  assumes "steady c" and "foci_ok fs" and "focus_ok fs (cl_cursor c) (cl_focus_idx c)"
    and "fs ! 0 = F_menu m a b" and "me_items m \<noteq> []"
  shows "steady (c\<lparr>cl_foci := fs\<rparr>)"
proof -
  let ?d = "c\<lparr>cl_foci := fs\<rparr>"
  have "roster ?d = roster c" by (rule roster_cong) simp_all
  moreover have "table_ok ?d = table_ok c" by (rule table_ok_cong) simp_all
  ultimately show ?thesis
    using assms by (simp add: steady_def client_inv_def listed_def user_menu_def)
qed

lemma on_command_ok:
  assumes "steady c" and "curses_ok cs" and "cmd \<noteq> Uc_max"
  shows "\<exists>r. on_command cs cmd c = Inr r \<and> steady_flow r"
proof -
  have inv: "cl_popup c \<noteq> None \<longleftrightarrow> cl_waiting c \<noteq> W_NONE" "list_all wf_message (cl_sent c)"
    using assms(1) by (simp_all add: steady_def client_inv_def)
  have view: "steady d" if "same_view c d" "cl_popup d \<noteq> None \<longleftrightarrow> cl_waiting d \<noteq> W_NONE"
    "list_all wf_message (cl_sent d)" for d
    using assms(1) that by (rule steady_same_view)
  show ?thesis
  proof (cases cmd)
    case (Uc_chl_user i score name)
    show ?thesis unfolding on_command_def Let_def Uc_chl_user user_cmd_t.case
      by (intro exI conjI, rule refl, simp only: steady_flow.simps, rule view)
        (use inv in \<open>simp_all add: same_view_def say_defs\<close>)
  next
    case (Uc_battle_act act)
    show ?thesis unfolding on_command_def Let_def Uc_battle_act user_cmd_t.case
      by (intro exI conjI, rule refl, simp only: steady_flow.simps, rule view)
        (use inv in \<open>simp_all add: same_view_def say_defs\<close>)
  next
    case (Uc_sort sb)
    show ?thesis unfolding on_command_def Let_def Uc_sort user_cmd_t.case
      by (intro exI conjI, rule refl, simp only: steady_flow.simps, rule view)
        (use inv in \<open>simp_all add: same_view_def say_defs\<close>)
  next
    case Uc_quit
    with assms(1) show ?thesis by (simp add: on_command_def steady_def)
  next
    case Uc_sendmsg
    from assms(1) have "foci_ok (cl_foci c)" by (simp add: steady_def client_inv_def)
    then obtain m f m2 m3 where f: "cl_foci c = [F_menu m True False, F_form f False, F_menu m2 False False, F_menu m3 False False]"
      "menu_ok m" "list_all (\<lambda>it. uc_kind (it_cmd it) = 0) (me_items m)"
      "length (fo_text f) = 59" "menu_ok m2" "me_items m2 = me_items battle_act_menu"
      "menu_ok m3" "me_items m3 = me_items main_menu"
      by (rule foci_okE)
    let ?g = "snd (chat_message cs (cl_gs c) f)" and ?m = "fst (chat_message cs (cl_gs c) f)"
    let ?fs = "[F_menu m True False, F_form ?g False, F_menu m2 False False, F_menu m3 False False]"
    have "length (fo_text ?g) = 59"
      using f(4) assms(2) by (simp add: chat_message_def Let_def curses_ok_def)
    with f have "foci_ok ?fs" by (simp add: foci_ok_def)
    moreover have "focus_ok ?fs (cl_cursor c) (cl_focus_idx c)"
      using assms(1) f(1) by (simp add: steady_def client_inv_def focus_ok_iff)
    moreover have "me_items m \<noteq> []" using assms(1) f(1) by (simp add: steady_def user_menu_def)
    ultimately have "steady (c\<lparr>cl_foci := ?fs\<rparr>)" by (intro steady_foci [OF assms(1)]) simp_all
    then have "steady ((send_out ?m c)\<lparr>cl_foci := ?fs\<rparr>)"
      by (rule steady_same_view) (use inv in \<open>simp_all add: same_view_def send_out_def wf_chat_message\<close>)
    moreover have "on_command cs cmd c = Inr (Go ((send_out ?m c)\<lparr>cl_foci := ?fs\<rparr>))"
      by (simp add: on_command_def Uc_sendmsg f(1) case_prod_beta Let_def send_out_def)
    ultimately show ?thesis by simp
  qed (use assms(3) in simp)
qed

text \<open>
  What the menus have to offer to the key: never the entry of the kind \<open>UC_MAX\<close>.
\<close>

lemma menu_key_ok:
  assumes "menu_ok m" and "me_items m \<noteq> []" and "curses_ok cs" and "menu_key cs m key = (cmd, m')"
  shows "menu_ok m'" and "me_items m' = me_items m" and "me_fore m' = me_fore m"
    and "cmd = None \<or> (\<exists>it \<in> set (me_items m). cmd = Some (it_cmd it))"
  using assms
  by (auto simp: menu_key_def drive_menu_def curses_ok_def menu_ok_def item_userptr_def current_item_def
      split: if_splits)

lemma form_key_ok:
  assumes "key_ok cs key" and "curses_ok cs" and "key \<noteq> KEY_BTAB cs"
  shows "\<exists>cmd f'. form_key cs f key = Inr (cmd, f') \<and> length (fo_text f') = length (fo_text f) \<and>
    (cmd = None \<or> cmd = Some Uc_sendmsg)"
  using assms by (auto simp: form_key_def text_key_def curses_ok_def key_ok_def is_bksp_def Let_def)

lemma menu_cmds:
  "it \<in> set (me_items battle_act_menu) \<Longrightarrow> it_cmd it \<noteq> Uc_max"
  "it \<in> set (me_items main_menu) \<Longrightarrow> it_cmd it \<noteq> Uc_max"
  "me_items battle_act_menu \<noteq> []" "me_items main_menu \<noteq> []"
  by (auto simp: battle_act_menu_def main_menu_def menu_of_def)

lemma focus_ok_upd:
  "length fs = 4 \<Longrightarrow> focus_ok fs cur i \<Longrightarrow> lit foc cur = lit (fs ! i) cur \<Longrightarrow> focus_ok (fs[i := foc]) cur i"
  unfolding focus_ok_def by (auto simp: nth_list_update)

lemma focus_handle_key_ok:
  assumes "steady c" and "curses_ok cs" and "key_ok cs key" and "key \<noteq> KEY_BTAB cs"
  shows "\<exists>cmd foc. focus_handle_key cs (cl_foci c ! cl_focus_idx c) key = Inr (cmd, foc) \<and>
    steady (c\<lparr>cl_foci := (cl_foci c)[cl_focus_idx c := foc]\<rparr>) \<and> cmd \<noteq> Some Uc_max"
proof -
  let ?i = "cl_focus_idx c"
  from assms(1) have inv: "foci_ok (cl_foci c)" "focus_ok (cl_foci c) (cl_cursor c) ?i"
    "me_items (user_menu c) \<noteq> []" by (simp_all add: steady_def client_inv_def)
  from inv(1) obtain m f m2 m3 where f: "cl_foci c = [F_menu m True False, F_form f False, F_menu m2 False False, F_menu m3 False False]"
    "menu_ok m" "list_all (\<lambda>it. uc_kind (it_cmd it) = 0) (me_items m)"
    "length (fo_text f) = 59" "menu_ok m2" "me_items m2 = me_items battle_act_menu"
    "menu_ok m3" "me_items m3 = me_items main_menu"
    by (rule foci_okE)
  have ne: "me_items m \<noteq> []" using inv(3) f(1) by (simp add: user_menu_def)
  have result: ?thesis if "focus_handle_key cs (cl_foci c ! ?i) key = Inr (cmd, foc)" "cmd \<noteq> Some Uc_max"
    "foci_ok ((cl_foci c)[?i := foc])" "lit foc (cl_cursor c) = lit (cl_foci c ! ?i) (cl_cursor c)"
    "(cl_foci c)[?i := foc] ! 0 = F_menu m' a b" "me_items m' \<noteq> []" for cmd foc m' a b
  proof -
    have "focus_ok ((cl_foci c)[?i := foc]) (cl_cursor c) ?i"
      by (rule focus_ok_upd) (use inv(2) that(4) f(1) in simp_all)
    with that steady_foci [OF assms(1)] show ?thesis by blast
  qed
  have "?i < 4" using inv(2) f(1) by (simp add: focus_ok_def)
  then consider "?i = 0" | "?i = 1" | "?i = 2" | "?i = 3" by linarith
  then show ?thesis
  proof cases
    case 1
    obtain cmd m' where k: "menu_key cs m key = (cmd, m')" by fastforce
    note mk = menu_key_ok [OF f(2) ne assms(2) k]
    from mk(4) f(3) have "cmd \<noteq> Some Uc_max" by (auto simp: list_all_iff)
    then show ?thesis
      by (intro result [of cmd "F_menu m' True False" m' True False])
        (use 1 f mk k ne in \<open>simp_all add: focus_handle_key_def foci_ok_def\<close>)
  next
    case 2
    obtain cmd f' where k: "form_key cs f key = Inr (cmd, f')" "length (fo_text f') = length (fo_text f)"
      "cmd = None \<or> cmd = Some Uc_sendmsg"
      using form_key_ok [OF assms(3,2,4)] by blast
    then show ?thesis
      by (intro result [of cmd "F_form f' False" m True False])
        (use 2 f ne in \<open>auto simp: focus_handle_key_def foci_ok_def\<close>)
  next
    case 3
    obtain cmd m' where k: "menu_key cs m2 key = (cmd, m')" by fastforce
    note mk = menu_key_ok [OF f(5) _ assms(2) k, unfolded f(6), OF menu_cmds(3)]
    from mk(4) have "cmd \<noteq> Some Uc_max" by (auto dest: menu_cmds(1))
    then show ?thesis
      by (intro result [of cmd "F_menu m' False False" m True False])
        (use 3 f mk k ne in \<open>simp_all add: focus_handle_key_def foci_ok_def\<close>)
  next
    case 4
    obtain cmd m' where k: "menu_key cs m3 key = (cmd, m')" by fastforce
    note mk = menu_key_ok [OF f(7) _ assms(2) k, unfolded f(8), OF menu_cmds(4)]
    from mk(4) have "cmd \<noteq> Some Uc_max" by (auto dest: menu_cmds(2))
    then show ?thesis
      by (intro result [of cmd "F_menu m' False False" m True False])
        (use 4 f mk k ne in \<open>simp_all add: focus_handle_key_def foci_ok_def\<close>)
  qed
qed

lemma handle_key_ok:
  assumes "steady c" and "curses_ok cs" and "key_ok cs key"
  shows "\<exists>r. handle_key cs key c = Inr r \<and> steady_flow r"
proof -
  have inv: "client_inv c" "cl_popup c \<noteq> None \<longleftrightarrow> cl_waiting c \<noteq> W_NONE" "list_all wf_message (cl_sent c)"
    "cl_focus_idx c < 4" using assms(1) by (simp_all add: steady_def client_inv_def focus_ok_def)
  have move: "steady (move_focus cs new c)" if "new < 4" "new \<noteq> cl_focus_idx c" for new
  proof -
    note m = move_focus_ok [OF inv(1) that assms(2)]
    have "me_items (user_menu (move_focus cs new c)) = me_items (user_menu c)"
      by (subst m(2)) simp
    moreover have "roster (move_focus cs new c) = roster c"
      by (rule roster_cong) (simp_all add: move_focus_def case_prod_beta Let_def)
    moreover have "g_id (cl_gs (move_focus cs new c)) = g_id (cl_gs c)"
      by (simp add: move_focus_def case_prod_beta Let_def)
    ultimately show ?thesis using m(1) assms(1) by (simp add: steady_def listed_def)
  qed
  show ?thesis
  proof (cases "cl_waiting c")
    case W_CANCEL
    show ?thesis unfolding handle_key_def Let_def W_CANCEL waiting_t.case
      by (intro exI conjI, rule refl, simp only: steady_flow.simps, rule steady_same_view [OF assms(1)])
        (use inv in \<open>simp_all add: same_view_def say_defs\<close>)
  next
    case W_ACCEPT
    have "steady ((send_out (reply_challenge (if key = 121 \<or> key = 89 then C_ACCEPT else C_REJECT)
        (g_chid (cl_gs c)) (g_opponent_id (cl_gs c)) (g_id (cl_gs c)) (g_key (cl_gs c))) c)
      \<lparr>cl_popup := None, cl_waiting := W_NONE\<rparr>)"
      by (rule steady_same_view [OF assms(1)]) (simp_all add: same_view_def say_defs inv)
    with assms(1) show ?thesis unfolding handle_key_def Let_def W_ACCEPT waiting_t.case
      by (cases "key = 121 \<or> key = 89 \<or> key = 110 \<or> key = 78") simp_all
  next
    case W_NONE
    show ?thesis
    proof (cases "key = 9 \<or> key = KEY_BTAB cs")
      case True
      have "(i + 1) mod 4 < 4 \<and> (i + 1) mod 4 \<noteq> i \<and> (i + 4 - 1) mod 4 < 4 \<and> (i + 4 - 1) mod 4 \<noteq> i"
        if "i < 4" for i :: nat
      proof -
        from that have "i = 0 \<or> i = 1 \<or> i = 2 \<or> i = 3" by auto
        then show ?thesis by auto
      qed
      from this [OF inv(4)] move True W_NONE show ?thesis by (auto simp: handle_key_def focus_cnt_def)
    next
      case False
      then obtain cmd foc where k: "focus_handle_key cs (cl_foci c ! cl_focus_idx c) key = Inr (cmd, foc)"
        "steady (c\<lparr>cl_foci := (cl_foci c)[cl_focus_idx c := foc]\<rparr>)" "cmd \<noteq> Some Uc_max"
        using focus_handle_key_ok [OF assms] by blast
      show ?thesis
      proof (cases cmd)
        case None
        with False W_NONE k show ?thesis by (simp add: handle_key_def)
      next
        case (Some u)
        with on_command_ok [OF k(2) assms(2), of u] False W_NONE k show ?thesis
          by (simp add: handle_key_def)
      qed
    qed
  qed
qed

lemma handle_keys_ok:
  "steady c \<Longrightarrow> curses_ok cs \<Longrightarrow> list_all (key_ok cs) keys \<Longrightarrow>
    \<exists>r. fold_flow (handle_key cs) keys c = Inr r \<and> steady_flow r"
proof (induction keys arbitrary: c)
  case Nil
  then show ?case by simp
next
  case (Cons key keys)
  from handle_key_ok [OF Cons.prems(1,2), of key] Cons.prems(3)
  obtain r where r: "handle_key cs key c = Inr r" "steady_flow r" by auto
  show ?case
  proof (cases r)
    case (Leave d)
    with r show ?thesis by simp
  next
    case (Go d)
    with r Cons.IH [of d] Cons.prems show ?thesis by simp
  qed
qed

section \<open>Rounds\<close>

text \<open>A round that begins ready ends without a fault, and steady if the loop goes on.\<close>

lemma ui_round_ok:
  assumes "ready c" and "curses_ok cs" and "list_all (key_ok cs) (snd inp)"
  shows "\<exists>r. ui_round cs e inp c = Inr r \<and> steady_flow r"
proof -
  have inv: "client_inv c" "listed c" "me_items (user_menu c) \<noteq> [] \<or> cl_list_updated c"
    using assms(1) by (simp_all add: ready_def)
  obtain r1 vs q where r1: "fold_flow handle_um (fst inp) c = Inr r1" "kept vs q c r1"
    using handle_ums_ok [OF inv(1)] by blast
  show ?thesis
  proof (cases r1)
    case (Leave d)
    with r1 show ?thesis by (simp add: ui_round_def kept_def)
  next
    case (Go c1)
    with r1 inv(2) have c1: "client_inv c1" "listed c1" "cl_foci c1 = cl_foci c"
      by (simp_all add: kept_def)
    have m: "me_items (user_menu c1) \<noteq> [] \<or> cl_list_updated c1"
      using inv(3) r1(2) Go by (auto simp: kept_def user_menu_def)
    obtain c2 where c2: "refresh_list cs e c1 = Inr c2" "client_inv c2" "listed c2"
      "cl_list_updated c1 \<Longrightarrow> me_items (user_menu c2) \<noteq> []" "\<not> cl_list_updated c1 \<Longrightarrow> c2 = c1"
      using refresh_list_ok [OF c1(1)] c1(2) by blast
    from m c2(4,5) have "me_items (user_menu c2) \<noteq> []" by blast
    with c2(2,3) have s2: "steady c2" by (simp add: steady_def)
    obtain c3 where c3: "draw_states c2 = Inr c3" "client_inv c3" "same_view c2 c3"
      by (rule draw_states_ok [OF c2(2)])
    from c3(2) steady_same_view [OF s2 c3(3)] have "steady c3" by (simp add: client_inv_def)
    with handle_keys_ok [OF _ assms(2,3)] obtain r where
      "fold_flow (handle_key cs) (snd inp) c3 = Inr r" "steady_flow r" by blast
    with r1(1) Go c2(1) c3(1) show ?thesis by (simp add: ui_round_def)
  qed
qed

lemma ui_rounds_ok:
  "ready c \<Longrightarrow> curses_ok cs \<Longrightarrow> list_all (\<lambda>inp. list_all (key_ok cs) (snd inp)) inps \<Longrightarrow>
    \<exists>r. fold_flow (ui_round cs e) inps c = Inr r \<and> client_inv (flow_state r)"
proof (induction inps arbitrary: c)
  case Nil
  then show ?case by (simp add: ready_def)
next
  case (Cons inp inps)
  from ui_round_ok [OF Cons.prems(1,2), of inp] Cons.prems(3)
  obtain r where r: "ui_round cs e inp c = Inr r" "steady_flow r" by auto
  show ?case
  proof (cases r)
    case (Leave d)
    with r show ?thesis by simp
  next
    case (Go d)
    with r Cons.IH [of d] Cons.prems steady_ready [of d] show ?thesis by simp
  qed
qed

section \<open>The start of the main screen\<close>

lemma ui_main_init_ok:
  assumes "ui_main_init cs jm junk = Inr c"
  shows "client_inv c" and "me_items (user_menu c) = []" and "roster c = Map.empty"
    and "\<exists>r. m_body jm = Join_r r \<and> jr_error r = ME_OK \<and> g_id (cl_gs c) = jr_id r \<and>
      g_key (cl_gs c) = jr_key r \<and> g_nickname (cl_gs c) = nick_copy (cstr (jr_nickname r))"
proof -
  from assms obtain r where r: "m_body jm = Join_r r" "jr_error r = ME_OK"
    by (auto simp: ui_main_init_def split: msg_body_t.splits if_splits)
  with assms have c: "c = \<lparr>cl_gs = (game_state_init junk)\<lparr>g_id := jr_id r,
                  g_nickname := nick_copy (cstr (jr_nickname r)), g_key := jr_key r\<rparr>,
              cl_heap = Map.empty, cl_brk = 0, cl_tree = [], cl_cnt = 0, cl_waiting = W_NONE,
              cl_sort_by = BY_SCORE, cl_list_updated = False, cl_state_updated = True,
              cl_foci = fst (focus cs (foci0 ! 0) False) # map (\<lambda>f. fst (unfocus f False)) (tl foci0),
              cl_focus_idx = 0, cl_cursor = False, cl_popup = None, cl_chat = [],
              cl_battle_log = [], cl_title = bytes ''Users'', cl_player = ([], []),
              cl_opponent = ([], []), cl_sent = []\<rparr>"
    by (simp add: ui_main_init_def)
  have "table_ok c" by (simp add: c table_ok_def tree_ok_def)
  then show "client_inv c"
    by (simp add: c client_inv_def foci_ok_def focus_ok_iff focus_def unfocus_def foci0_def menu_ok_def
        chat_input_def battle_act_menu_def main_menu_def menu_of_def)
  show "me_items (user_menu c) = []" by (simp add: c user_menu_def focus_def foci0_def menu_of_def)
  show "roster c = Map.empty" by (rule ext) (simp add: c roster_def find_user_def tfind_def)
  show "\<exists>r. m_body jm = Join_r r \<and> jr_error r = ME_OK \<and> g_id (cl_gs c) = jr_id r \<and>
      g_key (cl_gs c) = jr_key r \<and> g_nickname (cl_gs c) = nick_copy (cstr (jr_nickname r))"
    using r by (simp add: c)
qed

end
