(* ===== verification/ClientScenes.thy ===== *)
theory ClientScenes imports ClientRound begin

text \<open>
  Concrete states of the client for the instances of its properties: a simple curses
  library, the client when its main screen opens, and the client that has heard of two
  users.
\<close>

definition plain_curses :: curses_t where
  "plain_curses = \<lparr>KEY_DOWN = 258, KEY_UP = 259, KEY_LEFT = 260, KEY_RIGHT = 261, KEY_BACKSPACE = 263,
     KEY_DC = 330, KEY_BTAB = 353,
     menu_driver = (\<lambda>req n i. case req of REQ_DOWN_ITEM \<Rightarrow> if i + 1 < n then i + 1 else i
       | REQ_UP_ITEM \<Rightarrow> i - 1 | _ \<Rightarrow> i),
     form_driver = (\<lambda>req f. case req of
         REQ_CHAR b \<Rightarrow> f\<lparr>fo_text := (fo_text f)[fo_pos f := b], fo_pos := fo_pos f + 1\<rparr> | _ \<Rightarrow> f),
     null_userptr = Some Uc_max\<rparr>"

lemma plain_curses_keys [simp]:
  "KEY_DOWN plain_curses = 258" "KEY_UP plain_curses = 259" "KEY_LEFT plain_curses = 260"
  "KEY_RIGHT plain_curses = 261" "KEY_BACKSPACE plain_curses = 263" "KEY_DC plain_curses = 330"
  "KEY_BTAB plain_curses = 353" "null_userptr plain_curses = Some Uc_max"
  by (simp_all add: plain_curses_def)

lemma plain_curses_ok: "curses_ok plain_curses"
  by (auto simp: curses_ok_def plain_curses_def split: menu_req.split form_req.split)

definition join_answer :: message_t where
  "join_answer = make_join_r [98] ME_OK 6 22"

definition junk_game :: game_state_t where
  "junk_game = \<lparr>g_nickname = [1], g_opponent_name = [2], g_id = 3, g_opponent_id = 4, g_chid = 5,
     g_is_user1 = True, g_acted = True, g_key = 6, g_score = 7, g_turn_no = 8, g_hp = 9, g_max_hp = 10,
     g_opponent_hp = 11, g_opponent_max_hp = 12, g_state = 13\<rparr>"

definition fresh_client :: client_t where
  "fresh_client = (case ui_main_init plain_curses join_answer junk_game of Inr c \<Rightarrow> c | Inl _ \<Rightarrow> undefined)"

lemma fresh_client_init: "ui_main_init plain_curses join_answer junk_game = Inr fresh_client"
  by (simp add: fresh_client_def ui_main_init_def join_answer_def make_join_r_def)

lemma fresh_client_inv: "client_inv fresh_client" "me_items (user_menu fresh_client) = []"
  "roster fresh_client = Map.empty"
  using ui_main_init_ok [OF fresh_client_init] by simp_all

lemma fresh_client_gs: "g_id (cl_gs fresh_client) = 6" "g_key (cl_gs fresh_client) = 22"
  "g_opponent_id (cl_gs fresh_client) = 0" "g_acted (cl_gs fresh_client)" "cl_waiting fresh_client = W_NONE"
  "cl_sent fresh_client = []" "cl_focus_idx fresh_client = 0"
  by (simp_all add: fresh_client_def ui_main_init_def join_answer_def make_join_r_def game_state_init_def
      junk_game_def)

text \<open>The client after the server has told it of alice and of itself.\<close>

definition two_users :: message_t where
  "two_users = uchange_msg [uchange_entry [97] 5 UONLINE 0, uchange_entry [98] 6 UONLINE 0]"

lemma two_users_changes: "changes_in two_users = [uchange_entry [97] 5 UONLINE 0, uchange_entry [98] 6 UONLINE 0]"
  by (simp add: changes_in_def two_users_def uchange_msg_def)

definition lobby_client :: client_t where
  "lobby_client = (case handle_um (Um_recv two_users) fresh_client of
     Inr (Go c) \<Rightarrow> c | _ \<Rightarrow> undefined)"

lemma lobby_client_kept:
  "handle_um (Um_recv two_users) fresh_client = Inr (Go lobby_client)"
  "kept (changes_in two_users) False fresh_client (Go lobby_client)"
proof -
  obtain r where r: "handle_um (Um_recv two_users) fresh_client = Inr r"
    "kept (um_changes (Um_recv two_users)) (um_quits 6 (Um_recv two_users)) fresh_client r"
    using handle_um_ok [OF fresh_client_inv(1), of "Um_recv two_users"] fresh_client_gs(1) by auto
  have "\<not> um_quits 6 (Um_recv two_users)"
    by (simp add: um_quits_def two_users_changes uchange_entry_def)
  then obtain c where c: "r = Go c" using r(2) by (cases r) (simp_all add: kept_def)
  with r show "handle_um (Um_recv two_users) fresh_client = Inr (Go lobby_client)"
    by (simp add: lobby_client_def)
  with r c \<open>\<not> um_quits 6 (Um_recv two_users)\<close>
  show "kept (changes_in two_users) False fresh_client (Go lobby_client)"
    by (simp add: um_changes_def)
qed

lemma lobby_client_roster: "roster lobby_client = [5 \<mapsto> ([97], UONLINE, 0), 6 \<mapsto> ([98], UONLINE, 0)]"
proof -
  have "roster lobby_client = fold apply_change (changes_in two_users) (roster fresh_client)"
    using lobby_client_kept(2) by (simp add: kept_def)
  then show ?thesis
    by (simp add: two_users_changes fresh_client_inv(3) apply_change_def uchange_entry_def snprintf_s_cstr
        NICKNAME_LEN_def)
qed

lemma lobby_client_ready: "ready lobby_client"
proof -
  have "client_inv lobby_client" "g_id (cl_gs lobby_client) = 6" "cl_list_updated lobby_client"
    using lobby_client_kept(2) by (simp_all add: kept_def two_users_changes fresh_client_gs)
  then show ?thesis by (simp add: ready_def listed_def lobby_client_roster)
qed

end
