(* ===== verification/ClientConnect.thy ===== *)
theory ClientConnect imports Sockets begin

text \<open>
  How the client connects and starts its threads: \<open>do_connect\<close>, \<open>create_thread\<close> and
  \<open>main\<close> of \<open>client/client.c\<close>, over the answers of the system calls.
\<close>

section \<open>The connection\<close>

text \<open>What \<open>snprintf\<close> leaves of a text in a buffer of \<open>n\<close> bytes.\<close>

definition printed :: "nat \<Rightarrow> cstring \<Rightarrow> cstring" where
  "printed n s = take (n - 1) s"

text \<open>
  The descriptor, or the text that \<open>snprintf\<close> writes into the \<open>errmax\<close> bytes of \<open>err\<close>, and the
  descriptors that are closed again.
\<close>

definition do_connect :: "endian \<Rightarrow> os_t \<Rightarrow> cstring \<Rightarrow> u32 \<Rightarrow> nat \<Rightarrow> (cstring + int) \<times> int list" where
  "do_connect e os addr port errmax =
     (let fd = os_socket os
      in if fd = -1 then (Inl (printed errmax (bytes ''socket(): '' @ os_error os ''socket'')), [])
         else case os_inet_aton os addr of
             None \<Rightarrow> (Inl (printed errmax (bytes ''Invalid server IP address: `'' @ addr @ [39])), [fd])
           | Some saddr \<Rightarrow>
               (if \<not> os_connect os fd (inet_addr e port saddr) then
                  (Inl (printed errmax (bytes ''connect() to '' @ addr @ [58] @ dec_int (uint port) @
                     bytes '': '' @ os_error os ''connect'')), [fd])
                else (Inr fd, [])))"

section \<open>Threads\<close>

text \<open>How the client ends before its time: by a fault, or by a call of \<open>exit\<close>.\<close>

datatype stop = Stop_fault fault | Stop_exit exit

definition create_thread :: "os_t \<Rightarrow> nat \<Rightarrow> stop + unit" where
  "create_thread os n =
     (if os_thread os n then Inr ()
      else Inl (Stop_exit (ppanic (bytes ''pthread_create()'') (os_error os ''pthread_create''))))"

section \<open>main\<close>

text \<open>
  The address and the port of the server, \<open>initial_addr\<close> and \<open>initial_port\<close>, with which the
  thread \<open>ui\<close> is started. Logging is off, unless the command line turns it on.
\<close>

definition client_args :: args_t where
  "client_args = \<lparr>a_port = DEFAULT_PORT, a_loglevel = set_loglevel LOGLV_MIN,
     a_addr = addr_buffer ''127.0.0.1''\<rparr>"

definition client_main :: "os_t \<Rightarrow> cstring option \<Rightarrow> cstring list \<Rightarrow> stop + args_t" where
  "client_main os arg0 argv =
     (case parse_args argv ADDR_MAX_LEN (prog_name ''game_client'' arg0) (bytes ''SERVER_ADDR'') client_args of
        Inl ex \<Rightarrow> Inl (Stop_exit ex)
      | Inr args \<Rightarrow> bind_r (create_thread os 0) (\<lambda>_. Inr args))"

section \<open>Facts\<close>

lemma length_printed: "length (printed n s) \<le> n - Suc 0"
  by (simp add: printed_def)

lemma do_connect_result:
  "case do_connect e os addr port errmax of
     (Inr fd, closed) \<Rightarrow> fd = os_socket os \<and> fd \<noteq> -1 \<and> closed = [] \<and>
       (\<exists>saddr. os_inet_aton os addr = Some saddr \<and> os_connect os fd (inet_addr e port saddr))
   | (Inl err, closed) \<Rightarrow> length err \<le> errmax - 1 \<and>
       closed = (if os_socket os = -1 then [] else [os_socket os])"
  by (simp add: do_connect_def Let_def length_printed split: option.split)

lemma do_connect_Inr: "do_connect e os addr port n = (Inr fd, closed) \<Longrightarrow> fd \<noteq> -1 \<and> closed = []"
  using do_connect_result [where e = e and os = os and addr = addr and port = port and errmax = n] by simp

lemma do_connect_Inl: "do_connect e os addr port n = (Inl err, closed) \<Longrightarrow> length err \<le> n - 1"
  using do_connect_result [where e = e and os = os and addr = addr and port = port and errmax = n] by simp

lemma create_thread_Inl: "create_thread os n = Inl st \<Longrightarrow> \<exists>msg. st = Stop_exit (Exit 1 msg)"
  by (auto simp: create_thread_def ppanic_def split: if_splits)

lemma client_args_ok: "length (a_addr client_args) = ADDR_MAX_LEN" "0 \<in> set (a_addr client_args)"
  by (simp_all add: client_args_def addr_buffer_def ADDR_MAX_LEN_def bytes_def)

end
