(* ===== verification/ClientLogin.thy ===== *)
theory ClientLogin imports ClientData ClientConnect begin

text \<open>
  The login screen of \<open>client/client.c\<close>: \<open>ui_login\<close> as a state machine, one step for each
  round of its loop, and the states of the user interface (\<open>ui\<close>).
\<close>

section \<open>State\<close>

datatype login_state_t = WAIT_INPUT | TO_CONNECT | SEND_JOIN | WAIT_MSG | SUCCESS

text \<open>
  \<open>l_addr\<close> and \<open>l_port\<close> are the copies of the address and the port of the server.
  \<open>l_threads\<close> counts the pairs of threads that were started, \<open>l_closed\<close> are the descriptors
  that were closed, \<open>l_sent\<close> is what was put on the queue to the server, \<open>l_join\<close> is
  \<open>*join_msg\<close>.
\<close>

record login_t =
  l_addr :: cstring
  l_port :: u32
  l_state :: login_state_t
  l_info :: cstring
  l_nick :: "byte list"
  l_len :: nat
  l_connected :: bool
  l_fd :: int
  l_threads :: nat
  l_closed :: "int list"
  l_sent :: "message_t list"
  l_join :: "message_t option"
  l_done :: bool

definition login_init :: "int \<Rightarrow> args_t \<Rightarrow> login_t" where
  "login_init junk_fd args =
     \<lparr>l_addr = printed ADDR_MAX_LEN (cstr (a_addr args)), l_port = a_port args, l_state = WAIT_INPUT, l_info = [], l_nick = replicate NICKNAME_LEN 0, l_len = 0,
      l_connected = False, l_fd = junk_fd, l_threads = 0, l_closed = [], l_sent = [], l_join = None,
      l_done = False\<rparr>"

text \<open>
  What a round reads: a key, what the system answers to the calls that connect and start
  the threads, or a message of \<open>um_queue\<close>. A round that has to wait for something else
  does nothing.
\<close>

datatype login_in = Key int | Connect endian os_t | Take ui_msg_t | Nothing_read

section \<open>One round\<close>

definition login_key :: "curses_t \<Rightarrow> int \<Rightarrow> login_t \<Rightarrow> login_t" where
  "login_key cs c s0 =
     (let s = s0\<lparr>l_info := []\<rparr>
      in if c = 10 then
           (if is_nickstr (l_nick s)
            then s\<lparr>l_info := bytes ''Connecting to server...'', l_state := TO_CONNECT\<rparr>
            else s\<lparr>l_info := bytes ''Illegal nickname!''\<rparr>)
         else if is_bksp cs c then
           (if l_len s \<ge> 1 then s\<lparr>l_len := l_len s - 1, l_nick := (l_nick s)[l_len s - 1 := 0]\<rparr> else s)
         else if c = KEY_DOWN cs \<or> c = KEY_UP cs \<or> c = KEY_LEFT cs \<or> c = KEY_RIGHT cs then s
         else if \<not> is_nickchar (word_of_int c) then
           s\<lparr>l_info := cstr (bytes ''Character not allowed in nicknames: `'' @ [word_of_int c] @ [39])\<rparr>
         else if l_len s + 1 \<ge> NICKNAME_LEN then s\<lparr>l_info := bytes ''Nickname too long!''\<rparr>
         else s\<lparr>l_nick := (l_nick s)[l_len s := word_of_int c, l_len s + 1 := 0],
                l_len := l_len s + 1\<rparr>)"

text \<open>\<open>strerr\<close> is the library's \<open>strerror\<close>.\<close>

definition login_message :: "(int \<Rightarrow> cstring) \<Rightarrow> ui_msg_t \<Rightarrow> login_t \<Rightarrow> login_t" where
  "login_message strerr um s =
     (case um of
        Um_disconn _ err \<Rightarrow>
          s\<lparr>l_info := take 255 (bytes ''Disconnected: '' @ strerr err), l_fd := -1,
            l_closed := (if l_fd s \<noteq> -1 then l_closed s @ [l_fd s] else l_closed s), l_connected := False\<rparr>
      | Um_recv m \<Rightarrow>
          (case m_body m of
             Join_r r \<Rightarrow>
               (if jr_error r = ME_OK
                then s\<lparr>l_info := bytes ''OK!'', l_join := Some (msg_dup m), l_state := SUCCESS\<rparr>
                else s\<lparr>l_info := bytes ''Cannot join: '' @ bytes (msg_strerror (jr_error r)),
                       l_state := WAIT_INPUT\<rparr>)
           | _ \<Rightarrow> s\<lparr>l_info := bytes ''What'' @ [39] @ bytes ''s this? '' @ dec_int (uint (m_kind m))\<rparr>))"

text \<open>
  \<open>TO_CONNECT\<close>: a connection and its two threads, \<open>IN\<close> and \<open>OUT\<close>; \<open>info\<close> has 256 bytes.
\<close>

definition login_connect :: "endian \<Rightarrow> os_t \<Rightarrow> login_t \<Rightarrow> stop + login_t" where
  "login_connect e os s =
     (case do_connect e os (l_addr s) (l_port s) 256 of
        (Inl err, closed) \<Rightarrow>
          Inr (s\<lparr>l_info := err, l_fd := -1, l_closed := l_closed s @ closed, l_state := WAIT_INPUT\<rparr>)
      | (Inr fd, closed) \<Rightarrow>
          bind_r (create_thread os 0) (\<lambda>_.
          bind_r (create_thread os 1) (\<lambda>_.
            Inr (s\<lparr>l_fd := fd, l_threads := l_threads s + 1, l_connected := True, l_state := SEND_JOIN\<rparr>))))"

definition login_step ::
  "curses_t \<Rightarrow> (int \<Rightarrow> cstring) \<Rightarrow> login_in \<Rightarrow> login_t \<Rightarrow> stop + login_t" where
  "login_step cs strerr inp s =
     (if l_done s then Inr s
      else case l_state s of
        WAIT_INPUT \<Rightarrow> (case inp of Key c \<Rightarrow> Inr (login_key cs c s) | _ \<Rightarrow> Inr s)
      | TO_CONNECT \<Rightarrow>
          (if l_connected s then Inr (s\<lparr>l_state := SEND_JOIN\<rparr>)
           else case inp of Connect e os \<Rightarrow> login_connect e os s | _ \<Rightarrow> Inr s)
      | SEND_JOIN \<Rightarrow>
          (if \<not> l_connected s then Inl (Stop_fault AssertFailed)
           else Inr (s\<lparr>l_sent := l_sent s @ [make_join (cstr (l_nick s))],
                       l_info := bytes ''Waiting for server reply...'', l_state := WAIT_MSG\<rparr>))
      | WAIT_MSG \<Rightarrow> (case inp of Take um \<Rightarrow> Inr (login_message strerr um s) | _ \<Rightarrow> Inr s)
      | SUCCESS \<Rightarrow> Inr (s\<lparr>l_done := True\<rparr>))"

definition login_run ::
  "curses_t \<Rightarrow> (int \<Rightarrow> cstring) \<Rightarrow> login_in list \<Rightarrow> login_t \<Rightarrow> stop + login_t" where
  "login_run cs strerr inps s = fold_r (login_step cs strerr) inps s"

section \<open>The user interface\<close>

datatype ui_state_t = UI_INIT | UI_LOGIN | UI_MAIN | UI_EXIT

text \<open>What \<open>ui_init\<close>, \<open>ui_login\<close> and \<open>ui_main\<close> return; \<open>UI_EXIT\<close> ends the loop of \<open>ui\<close>.\<close>

fun ui_next :: "ui_state_t \<Rightarrow> ui_state_t option" where
  "ui_next UI_INIT = Some UI_LOGIN"
| "ui_next UI_LOGIN = Some UI_MAIN"
| "ui_next UI_MAIN = Some UI_INIT"
| "ui_next UI_EXIT = None"

section \<open>The invariant of the login screen\<close>

text \<open>
  The buffer of the nickname holds \<open>l_len\<close> characters of nicknames and zeros behind them,
  the text of \<open>info\<close> fits into its 256 bytes, and what was sent are \<open>JOIN\<close> messages with
  legal nicknames.
\<close>

definition legal_join :: "message_t \<Rightarrow> bool" where
  "legal_join m \<longleftrightarrow> (\<exists>nick. m = make_join nick \<and> is_nickstr nick)"

definition nick_ok :: "login_t \<Rightarrow> bool" where
  "nick_ok s \<longleftrightarrow> length (l_nick s) = 32 \<and> l_len s < 32 \<and>
     (\<forall>i < l_len s. is_nickchar (l_nick s ! i)) \<and> (\<forall>i < 32. l_len s \<le> i \<longrightarrow> l_nick s ! i = 0)"

definition login_inv :: "login_t \<Rightarrow> bool" where
  "login_inv s \<longleftrightarrow> nick_ok s \<and>
     length (l_info s) < 256 \<and> length (l_addr s) < 128 \<and>
     (l_state s = SEND_JOIN \<longrightarrow> l_connected s) \<and>
     (l_state s \<in> {TO_CONNECT, SEND_JOIN} \<longrightarrow> is_nickstr (l_nick s)) \<and>
     list_all legal_join (l_sent s)"

lemma is_nickstr_cstr: "is_nickstr (cstr s) = is_nickstr s"
proof -
  have "chr_at (cstr s) = chr_at s" by (cases s) auto
  then show ?thesis by (simp add: is_nickstr_def strnlen_eq nickstr_loop_iff)
qed

lemma login_inv_init: "login_inv (login_init fd args)"
  using length_printed [of ADDR_MAX_LEN "cstr (a_addr args)"]
  by (simp add: login_inv_def nick_ok_def login_init_def NICKNAME_LEN_def ADDR_MAX_LEN_def)

text \<open>The texts that are written into \<open>info\<close> without a bound on their length.\<close>

lemma dec_nat_length: "n < 10 ^ k \<Longrightarrow> 0 < k \<Longrightarrow> length (dec_nat n) \<le> k"
proof (induction n arbitrary: k rule: dec_nat.induct)
  case (1 n)
  show ?case
  proof (cases "n < 10")
    case True
    with 1(3) show ?thesis by (subst dec_nat.simps) simp
  next
    case False
    with 1(2,3) obtain k' where k: "k = Suc k'" "0 < k'" by (cases k; cases "k - 1") auto
    with 1(2) have "n div 10 < 10 ^ k'" by (simp add: less_mult_imp_div_less mult.commute)
    with 1(1) [OF False] k False show ?thesis by (subst dec_nat.simps) simp
  qed
qed

lemma kind_length: "length (dec_int (uint (k :: u16))) \<le> 5"
proof -
  have "unat k < 2 ^ LENGTH(16)" by (rule unsigned_less)
  then have "unat k < 10 ^ 5" by simp
  then show ?thesis using dec_nat_length [of "unat k" 5] by (simp add: dec_int_def)
qed

lemma strerror_length: "length (msg_strerror err) < 40"
proof -
  have d: "list_all (\<lambda>s. length s < 40) msg_err_desc" "length msg_err_desc = 15"
    by (simp_all add: msg_err_desc_def)
  have "unat (err - ME_OK) < 15" if "err \<le> ME_OTHER"
    using that by (simp add: word_le_nat_alt)
  with d show ?thesis by (auto simp: msg_strerror_def list_all_length)
qed

lemma length_cstr: "length (cstr s) \<le> length s"
  by (simp add: cstr_def length_takeWhile_le)

lemma login_key_info: "length (l_info (login_key cs c s)) < 256"
  unfolding login_key_def Let_def
  by (auto simp: bytes_def intro: le_less_trans [OF length_cstr])

lemma login_message_info: "length (l_info s) < 256 \<Longrightarrow> length (l_info (login_message strerr um s)) < 256"
  using less_trans [OF strerror_length, of 243] le_less_trans [OF kind_length, of 243]
  by (cases um) (simp_all add: login_message_def bytes_def split: msg_body_t.split)

lemma login_message_keeps:
  "l_nick (login_message strerr um s) = l_nick s" "l_len (login_message strerr um s) = l_len s"
  "l_addr (login_message strerr um s) = l_addr s" "l_sent (login_message strerr um s) = l_sent s"
  "l_state s = WAIT_MSG \<Longrightarrow> l_state (login_message strerr um s) \<notin> {TO_CONNECT, SEND_JOIN}"
  by (cases um; simp add: login_message_def split: msg_body_t.split)+

lemma nick_ok_same [simp]:
  "nick_ok (s\<lparr>l_info := t\<rparr>) = nick_ok s" "nick_ok (s\<lparr>l_state := st\<rparr>) = nick_ok s"
  by (simp_all add: nick_ok_def)

lemma nick_ok_erase:
  "nick_ok s \<Longrightarrow> 1 \<le> l_len s \<Longrightarrow>
    nick_ok (s\<lparr>l_len := l_len s - 1, l_nick := (l_nick s)[l_len s - 1 := 0]\<rparr>)"
  by (auto simp: nick_ok_def nth_list_update)

lemma nick_ok_type:
  "nick_ok s \<Longrightarrow> is_nickchar b \<Longrightarrow> l_len s + 1 < 32 \<Longrightarrow>
    nick_ok (s\<lparr>l_nick := (l_nick s)[l_len s := b, l_len s + 1 := 0], l_len := l_len s + 1\<rparr>)"
  by (auto simp: nick_ok_def nth_list_update less_Suc_eq)

lemma login_key_nick:
  assumes "nick_ok s"
  shows "nick_ok (login_key cs c s)"
  using nick_ok_erase [of "s\<lparr>l_info := []\<rparr>"] nick_ok_type [of "s\<lparr>l_info := []\<rparr>" "word_of_int c"] assms
  by (simp add: login_key_def Let_def NICKNAME_LEN_def)

lemma login_key_keeps:
  "l_addr (login_key cs c s) = l_addr s" "l_connected (login_key cs c s) = l_connected s"
  "l_sent (login_key cs c s) = l_sent s"
  "l_state (login_key cs c s) = l_state s \<or>
    l_state (login_key cs c s) = TO_CONNECT \<and> is_nickstr (l_nick (login_key cs c s))"
  by (simp_all add: login_key_def Let_def)

lemma login_key_inv: "login_inv s \<Longrightarrow> l_state s = WAIT_INPUT \<Longrightarrow> login_inv (login_key cs c s)"
  using login_key_info [of cs c s] login_key_nick [of s cs c] login_key_keeps [of cs c s]
  by (auto simp: login_inv_def)

lemma login_connect_inv:
  assumes "login_inv s" and "l_state s = TO_CONNECT"
  shows "case login_connect e os s of
    Inr s' \<Rightarrow> login_inv s' | Inl st \<Rightarrow> \<exists>msg. st = Stop_exit (Exit 1 msg)"
proof -
  obtain r closed where d: "do_connect e os (l_addr s) (l_port s) 256 = (r, closed)" by fastforce
  show ?thesis
  proof (cases r)
    case (Inl err)
    with d have "length err < 256" using do_connect_Inl [OF d [unfolded Inl]] by simp
    with assms show ?thesis by (simp add: login_connect_def d Inl login_inv_def nick_ok_def)
  next
    case (Inr fd)
    with assms show ?thesis
      by (cases "create_thread os 0"; cases "create_thread os 1")
        (auto simp: login_connect_def d login_inv_def nick_ok_def dest: create_thread_Inl)
  qed
qed

lemma login_step_result:
  assumes "login_inv s"
  shows "case login_step cs strerr inp s of
    Inr s' \<Rightarrow> login_inv s' | Inl st \<Rightarrow> \<exists>msg. st = Stop_exit (Exit 1 msg)"
proof (cases "l_done s")
  case True
  with assms show ?thesis by (simp add: login_step_def)
next
  case False
  show ?thesis
  proof (cases "l_state s")
    case WAIT_INPUT
    with assms False login_key_inv [OF assms WAIT_INPUT] show ?thesis
      by (simp add: login_step_def split: login_in.split)
  next
    case TO_CONNECT
    show ?thesis
    proof (cases "l_connected s")
      case True
      with assms False TO_CONNECT show ?thesis by (auto simp: login_step_def login_inv_def nick_ok_def)
    next
      case nc: False
      with assms False TO_CONNECT login_connect_inv [OF assms TO_CONNECT] show ?thesis
        by (cases inp) (simp_all add: login_step_def)
    qed
  next
    case SEND_JOIN
    with assms have "is_nickstr (cstr (l_nick s))" by (simp add: login_inv_def is_nickstr_cstr)
    then have "legal_join (make_join (cstr (l_nick s)))" by (auto simp: legal_join_def)
    with SEND_JOIN assms False show ?thesis
      by (simp add: login_step_def login_inv_def nick_ok_def bytes_def)
  next
    case WAIT_MSG
    have "login_inv (login_message strerr um s)" for um
      using assms WAIT_MSG login_message_info [of s strerr um] login_message_keeps [where strerr = strerr and um = um and s = s]
      by (simp add: login_inv_def nick_ok_def)
    with WAIT_MSG assms False show ?thesis by (simp add: login_step_def split: login_in.split)
  next
    case SUCCESS
    with assms False show ?thesis by (simp add: login_step_def login_inv_def nick_ok_def)
  qed
qed

end
