(* ===== verification/Sync.thy ===== *)
theory Sync imports ServerProgress ClientTable begin

text \<open>
  What the users hear from the server. \<open>directory\<close> is the server's table of users as the
  client's abstraction has it, \<open>inbox\<close> is what was sent to a descriptor since the \<open>JOIN\<close> of
  its user was answered. Every handler sends each user the changes that turn the old
  directory into the new one (\<open>tells\<close>), so that a user who takes what was sent to them
  always has the directory of the server (\<open>in_sync\<close>).
\<close>

section \<open>The directory and the messages about it\<close>

definition server_info :: "server_user_t \<Rightarrow> cstring \<times> u32 \<times> u32" where
  "server_info u = (u_nickname u, u_state u, u_score u)"

definition directory :: "server_t \<Rightarrow> roster" where
  "directory s i = (case find_id i s of None \<Rightarrow> None | Some p \<Rightarrow> map_option server_info (uheap s p))"

definition news :: "message_t list \<Rightarrow> uchange_user_t list" where
  "news ms = concat (map changes_in ms)"

text \<open>The answer to a \<open>JOIN\<close> that was accepted.\<close>

definition is_welcome :: "message_t \<Rightarrow> bool" where
  "is_welcome m = (case m_body m of Join_r r \<Rightarrow> jr_error r = ME_OK | _ \<Rightarrow> False)"

definition said :: "int \<Rightarrow> (int \<times> message_t) list \<Rightarrow> message_t list" where
  "said fd ms = map snd (filter (\<lambda>x. fst x = fd) ms)"

fun inbox_add :: "int \<Rightarrow> int \<times> message_t \<Rightarrow> message_t list \<Rightarrow> message_t list" where
  "inbox_add fd (fd', m) acc = (if fd' \<noteq> fd then acc else if is_welcome m then [] else acc @ [m])"

definition inbox :: "int \<Rightarrow> (int \<times> message_t) list \<Rightarrow> message_t list" where
  "inbox fd ms = fold (inbox_add fd) ms []"

text \<open>The messages never tell the user \<open>i\<close> that they are gone.\<close>

definition stays :: "u16 \<Rightarrow> message_t list \<Rightarrow> bool" where
  "stays i ms \<longleftrightarrow> list_all (\<lambda>v. \<not> (uu_id v = i \<and> uu_state v = 0)) (news ms)"

definition in_sync :: "server_t \<Rightarrow> bool" where
  "in_sync s \<longleftrightarrow> (\<forall>p u. p \<in> set (user_by_id s) \<longrightarrow> uheap s p = Some u \<longrightarrow>
     fold apply_change (news (inbox (u_fd u) (out s))) Map.empty = directory s \<and>
     stays (u_id u) (inbox (u_fd u) (out s)))"

lemma news_simps [simp]: "news [] = []" "news (m # ms) = changes_in m @ news ms"
  "news (ms @ ns) = news ms @ news ns"
  by (simp_all add: news_def)

lemma said_simps [simp]: "said fd [] = []" "said fd (x # ms) = (if fst x = fd then snd x # said fd ms else said fd ms)"
  "said fd (ms @ ns) = said fd ms @ said fd ns"
  by (simp_all add: said_def)

lemma inbox_append: "inbox fd (ms @ ns) = fold (inbox_add fd) ns (inbox fd ms)"
  by (simp add: inbox_def)

lemma inbox_quiet:
  "list_all (\<lambda>m. \<not> is_welcome m) (said fd ns) \<Longrightarrow> fold (inbox_add fd) ns acc = acc @ said fd ns"
  by (induction ns arbitrary: acc) (auto split: if_splits)

lemma changes_in_uchange_msg: "length es \<le> 16 \<Longrightarrow> changes_in (uchange_msg es) = es"
  by (simp add: changes_in_def uchange_msg_def unat_small_len)

lemma not_welcome_uchange [simp]: "\<not> is_welcome (uchange_msg es)"
  by (simp add: is_welcome_def uchange_msg_def)

text \<open>Changes that all tell what a directory \<open>D\<close> has.\<close>

definition tells_of :: "roster \<Rightarrow> uchange_user_t \<Rightarrow> bool" where
  "tells_of D v \<longleftrightarrow> (\<forall>R. apply_change v R = R(uu_id v := D (uu_id v)))"

lemma apply_true_changes:
  "list_all (tells_of D) vs \<Longrightarrow> fold apply_change vs R i = (if i \<in> uu_id ` set vs then D i else R i)"
proof (induction vs arbitrary: R)
  case Nil
  then show ?case by simp
next
  case (Cons v vs)
  then have v: "apply_change v R = R(uu_id v := D (uu_id v))" by (simp add: tells_of_def)
  have "fold apply_change vs (R(uu_id v := D (uu_id v))) i =
      (if i \<in> uu_id ` set vs then D i else (R(uu_id v := D (uu_id v))) i)"
    by (rule Cons.IH) (use Cons.prems in simp)
  then show ?case by (simp add: v)
qed

section \<open>The entries of the server\<close>

lemma uchange_entry_nick:
  "0 \<notin> set nick \<Longrightarrow> length nick < 32 \<Longrightarrow> take 31 (cstr (uu_nickname (uchange_entry nick i st sc))) = nick"
  by (simp add: uchange_entry_def snprintf_s_cstr NICKNAME_LEN_def cstr_id)

lemma uchange_entry_fields [simp]: "uu_id (uchange_entry nick i st sc) = i"
  "uu_score (uchange_entry nick i st sc) = sc" "uu_state (uchange_entry nick i st sc) = ucast st"
  by (simp_all add: uchange_entry_def)

lemma directory_eq:
  "users_ok s \<Longrightarrow> p \<in> set (user_by_id s) \<Longrightarrow> uheap s p = Some u \<Longrightarrow> directory s (u_id u) = Some (server_info u)"
  by (simp add: directory_def find_id_eq)

lemma directory_SomeE:
  assumes "directory s i = Some x"
  obtains p u where "p \<in> set (user_by_id s)" and "uheap s p = Some u" and "u_id u = i" and "x = server_info u"
  using assms by (auto simp: directory_def split: option.splits elim!: find_id_SomeE)

lemma entry_tells:
  assumes "users_ok s" and "p \<in> set (user_by_id s)" and "uheap s p = Some u"
    and "u_state u = UONLINE \<or> u_state u = UBATTLING"
  shows "tells_of (directory s) (entry_of s p)"
proof -
  have "user_wf u" using users_okD(8) [OF assms(1-3)] .
  then have "take 31 (cstr (uu_nickname (entry_of s p))) = u_nickname u"
    using assms(3) uchange_entry_nick [of "u_nickname u"]
    by (simp add: entry_of_def user_wf_def NICKNAME_LEN_def)
  moreover have "(ucast (u_state u) :: u16) \<noteq> 0" "ucast (ucast (u_state u) :: u16) = u_state u"
    using assms(4) by auto
  ultimately show ?thesis
    using assms(3) directory_eq [OF assms(1-3)]
    by (simp add: tells_of_def apply_change_def entry_of_def server_info_def)
qed

lemma entry_of_id: "uheap s p = Some u \<Longrightarrow> uu_id (entry_of s p) = u_id u"
  by (simp add: entry_of_def)

section \<open>What a step tells the users\<close>

text \<open>
  \<open>hears i fd A B D D' ms\<close>: the user \<open>i\<close> at \<open>fd\<close> who knows \<open>D\<close> outside the ids \<open>A\<close> knows \<open>D'\<close>
  outside the ids \<open>B\<close> after the messages \<open>ms\<close>, stays, and is not answered another \<open>JOIN\<close>.
\<close>

definition hears ::
  "u16 \<Rightarrow> int \<Rightarrow> u16 set \<Rightarrow> u16 set \<Rightarrow> roster \<Rightarrow> roster \<Rightarrow> (int \<times> message_t) list \<Rightarrow> bool" where
  "hears i fd A B D D' ms \<longleftrightarrow> list_all (\<lambda>m. \<not> is_welcome m) (said fd ms) \<and> stays i (said fd ms) \<and>
     (\<forall>R. (\<forall>j. j \<notin> A \<longrightarrow> R j = D j) \<longrightarrow>
        (\<forall>j. j \<notin> B \<longrightarrow> fold apply_change (news (said fd ms)) R j = D' j))"

lemma hears_trans: "hears i fd A B D D1 ms \<Longrightarrow> hears i fd B C D1 D2 ns \<Longrightarrow> hears i fd A C D D2 (ms @ ns)"
  by (auto simp: hears_def stays_def)

definition tells :: "u16 set \<Rightarrow> u16 set \<Rightarrow> server_t \<Rightarrow> server_t \<Rightarrow> bool" where
  "tells A B s s' \<longleftrightarrow> keeps s s' \<and> (\<exists>ms. out s' = out s @ ms \<and>
     (\<forall>p u. p \<in> set (user_by_id s) \<longrightarrow> uheap s p = Some u \<longrightarrow>
        hears (u_id u) (u_fd u) A B (directory s) (directory s') ms))"

lemma tells_trans:
  assumes "tells A B s t" and "tells B C t v"
  shows "tells A C s v"
proof -
  from assms(1) obtain ms where ms: "keeps s t" "out t = out s @ ms"
    "\<And>p u. p \<in> set (user_by_id s) \<Longrightarrow> uheap s p = Some u \<Longrightarrow>
      hears (u_id u) (u_fd u) A B (directory s) (directory t) ms" by (auto simp: tells_def)
  from assms(2) obtain ns where ns: "keeps t v" "out v = out t @ ns"
    "\<And>p u. p \<in> set (user_by_id t) \<Longrightarrow> uheap t p = Some u \<Longrightarrow>
      hears (u_id u) (u_fd u) B C (directory t) (directory v) ns" by (auto simp: tells_def)
  have "hears (u_id u) (u_fd u) A C (directory s) (directory v) (ms @ ns)"
    if p: "p \<in> set (user_by_id s)" "uheap s p = Some u" for p u
  proof -
    obtain u' where "uheap t p = Some u'" "same_identity u u'" using keeps_heap [OF ms(1) p(2)] by blast
    moreover have "p \<in> set (user_by_id t)" using ms(1) p(1) by (simp add: keeps_def)
    ultimately have "hears (u_id u) (u_fd u) B C (directory t) (directory v) ns"
      using ns(3) [of p u'] by (simp add: same_identity_def)
    with ms(3) [OF p] show ?thesis by (rule hears_trans)
  qed
  then show ?thesis using keeps_trans [OF ms(1) ns(1)] ms(2) ns(2) by (auto simp: tells_def)
qed

text \<open>Messages without news.\<close>

definition silent :: "(int \<times> message_t) list \<Rightarrow> bool" where
  "silent ms \<longleftrightarrow> list_all (\<lambda>x. \<not> is_welcome (snd x) \<and> changes_in (snd x) = []) ms"

lemma silent_simps [simp]: "silent []" "silent (x # ms) \<longleftrightarrow> \<not> is_welcome (snd x) \<and> changes_in (snd x) = [] \<and> silent ms"
  "silent (ms @ ns) \<longleftrightarrow> silent ms \<and> silent ns"
  by (auto simp: silent_def)

lemma silent_said: "silent ms \<Longrightarrow> list_all (\<lambda>m. \<not> is_welcome m) (said fd ms) \<and> news (said fd ms) = []"
  by (induction ms) auto

lemma silent_messages [simp]:
  "changes_in (turn_r_msg ch w) = []" "\<not> is_welcome (turn_r_msg ch w)"
  "changes_in (challenge_r_msg c e b) = []" "\<not> is_welcome (challenge_r_msg c e b)"
  "changes_in (relay_msg c i) = []" "\<not> is_welcome (relay_msg c i)"
  "changes_in (make_join_r nick e i key) = []" "is_welcome (make_join_r nick e i key) \<longleftrightarrow> e = ME_OK"
  by (simp_all add: changes_in_def is_welcome_def turn_r_msg_def challenge_r_msg_def relay_msg_def make_join_r_def)

text \<open>
  A step that keeps the users, sends no news and changes what is known of the users \<open>B\<close>
  at most.
\<close>

lemma directory_keeps:
  assumes "keeps s s'"
    and "\<And>q u u'. uheap s q = Some u \<Longrightarrow> uheap s' q = Some u' \<Longrightarrow> u_id u = i \<Longrightarrow>
      u_state u' = u_state u \<and> u_score u' = u_score u"
  shows "directory s' i = directory s i"
proof (cases "find_id i s")
  case None
  then show ?thesis by (simp add: directory_def find_id_keeps [OF assms(1)])
next
  case (Some q)
  then obtain u where u: "uheap s q = Some u" "u_id u = i" by (rule find_id_SomeE)
  obtain u' where "uheap s' q = Some u'" "same_identity u u'" using keeps_heap [OF assms(1) u(1)] by blast
  with Some u assms(2) [OF u(1) _ u(2), of u'] show ?thesis
    by (simp add: directory_def find_id_keeps [OF assms(1)] server_info_def same_identity_def)
qed

lemma tells_silent:
  assumes "keeps s s'" and "out s' = out s @ ms" and "silent ms" and "A \<subseteq> B"
    and "\<And>q u u'. uheap s q = Some u \<Longrightarrow> uheap s' q = Some u' \<Longrightarrow> u_id u \<notin> B \<Longrightarrow>
      u_state u' = u_state u \<and> u_score u' = u_score u"
  shows "tells A B s s'"
proof -
  have "directory s' j = directory s j" if "j \<notin> B" for j
    by (rule directory_keeps [OF assms(1)]) (use assms(5) that in blast)
  then have "hears i fd A B (directory s) (directory s') ms" for i fd
    using silent_said [OF assms(3), of fd] assms(4) by (auto simp: hears_def stays_def)
  then show ?thesis using assms(1,2) by (auto simp: tells_def)
qed

lemma tells_quiet:
  "keeps s s' \<Longrightarrow> uheap s' = uheap s \<Longrightarrow> out s' = out s @ ms \<Longrightarrow> silent ms \<Longrightarrow> tells A A s s'"
  by (rule tells_silent) simp_all

lemma tells_send_msg: "\<not> is_welcome m \<Longrightarrow> changes_in m = [] \<Longrightarrow> tells A A s (send_msg fd m s)"
  by (rule tells_quiet [of _ _ "[(fd, m)]"]) simp_all

lemma tells_refl: "tells A A s s"
  by (rule tells_quiet [of _ _ "[]"]) simp_all

lemma tells_set_user:
  assumes "uheap s p = Some u" and "same_identity u u'"
  shows "tells A (insert (u_id u) A) s (set_user p u' s)"
  by (rule tells_silent [where ms = "[]"]) (use assms keeps_set_user [OF assms] in \<open>auto split: if_splits\<close>)

text \<open>A user whose data in the directory stays as it is.\<close>

lemma tells_set_user_same:
  assumes "uheap s p = Some u" and "same_identity u u'" and "u_state u' = u_state u" and "u_score u' = u_score u"
  shows "tells A A s (set_user p u' s)"
  by (rule tells_silent [where ms = "[]"]) (use assms keeps_set_user [OF assms(1,2)] in \<open>auto split: if_splits\<close>)

section \<open>Broadcasts\<close>

lemma said_to_all:
  assumes "users_ok s" and "q \<in> set (user_by_id s)" and "uheap s q = Some v" and "u_fd v \<noteq> x"
  shows "said (u_fd v) (to_all s x m) = [m]"
proof -
  have inj: "fd_of s p = u_fd v \<longleftrightarrow> p = q" if p: "p \<in> set (user_by_id s)" for p
  proof -
    obtain u where "uheap s p = Some u" using users_ok_live [OF assms(1) p] by blast
    with find_fd_eq [OF assms(1) p] find_fd_eq [OF assms(1-3)] assms(3) show ?thesis
      by (auto simp: fd_of_def)
  qed
  have "distinct (user_by_id s)" using by_id.tree_ok_distinct [OF users_okD(1) [OF assms(1)]] .
  have "said (u_fd v) (map (\<lambda>p. (fd_of s p, m)) (filter (\<lambda>p. fd_of s p \<noteq> x) ps)) =
      (if q \<in> set ps then [m] else [])" if "distinct ps" "set ps \<subseteq> set (user_by_id s)" for ps
    using that assms(3,4) inj by (induction ps) (auto simp: fd_of_def)
  from this [of "user_by_id s"] \<open>distinct (user_by_id s)\<close> assms(2) show ?thesis
    by (simp add: to_all_def)
qed

text \<open>What is broadcast is true, and so nobody is in doubt about those users any more.\<close>

definition listed_online :: "server_t \<Rightarrow> ptr \<Rightarrow> bool" where
  "listed_online s p \<longleftrightarrow> p \<in> set (user_by_id s) \<and>
     (\<exists>u. uheap s p = Some u \<and> (u_state u = UONLINE \<or> u_state u = UBATTLING))"

lemma listed_tells: "users_ok s \<Longrightarrow> listed_online s p \<Longrightarrow> tells_of (directory s) (entry_of s p)"
  using entry_tells [of s p] by (auto simp: listed_online_def)

lemma tells_broadcast:
  assumes "users_ok s" and "broadcast_user_changes q1 q2 s = Inr s'"
    and "\<And>p. p \<in> set_option q1 \<union> set_option q2 \<Longrightarrow> listed_online s p"
    and "A \<subseteq> (\<lambda>p. u_id (the (uheap s p))) ` (set_option q1 \<union> set_option q2)"
  shows "tells A {} s s'"
proof -
  let ?es = "opt_entries s [q1, q2]"
  let ?m = "change_msg s q1 q2"
  have live: "\<And>p. p \<in> set_option q1 \<union> set_option q2 \<Longrightarrow> p \<in> dom (uheap s)"
    using assms(3) by (auto simp: listed_online_def)
  have s': "s' = s\<lparr>out := out s @ to_all s (-1) ?m\<rparr>"
    using assms(2) broadcast_eq [OF assms(1), of q1 q2] live by simp
  have len: "length ?es \<le> 16" unfolding opt_entries_def by (auto intro: order_trans [OF length_filter_le])
  have es: "set ?es = entry_of s ` (set_option q1 \<union> set_option q2)"
    by (cases q1; cases q2) (auto simp: opt_entries_def)
  have true: "list_all (tells_of (directory s)) ?es"
    unfolding list_all_iff es using assms(1,3) by (blast intro: listed_tells)
  have on: "uu_state (entry_of s p) \<noteq> 0" if p: "p \<in> set_option q1 \<union> set_option q2" for p
    using assms(3) [OF p] by (auto simp: listed_online_def entry_of_def)
  have id: "uu_id (entry_of s p) = u_id (the (uheap s p))" for p by (simp add: entry_of_def Let_def)
  have "hears (u_id v) (u_fd v) A {} (directory s) (directory s') (to_all s (-1) ?m)"
    if q: "q \<in> set (user_by_id s)" "uheap s q = Some v" for q v
  proof -
    have "u_fd v \<noteq> -1" using users_okD(8) [OF assms(1) q] by (auto simp: user_wf_def)
    then have said: "said (u_fd v) (to_all s (-1) ?m) = [?m]" by (rule said_to_all [OF assms(1) q])
    have news: "news [?m] = ?es" using changes_in_uchange_msg [OF len] by (simp add: change_msg_def)
    have d: "directory s' = directory s"
      by (rule ext) (simp add: s' directory_def find_id_def split: option.split)
    have "fold apply_change ?es R j = directory s j" if R: "\<forall>j. j \<notin> A \<longrightarrow> R j = directory s j" for R j
      using apply_true_changes [OF true, of R j] R assms(4) by (auto simp: es image_image id)
    then show ?thesis using on unfolding hears_def said news d
      by (simp add: stays_def list_all_iff change_msg_def changes_in_uchange_msg [OF len] es)
  qed
  moreover have "keeps s s'" by (rule keeps_only_heap) (simp_all add: s')
  ultimately show ?thesis by (auto simp: tells_def s')
qed

section \<open>Battles\<close>

lemma listed_online_set_user:
  "listed_online s q \<Longrightarrow> u_state u' = UONLINE \<or> u_state u' = UBATTLING \<Longrightarrow> listed_online (set_user p u' s) q"
  by (auto simp: listed_online_def)

lemma listed_online_cong:
  "uheap s' = uheap s \<Longrightarrow> user_by_id s' = user_by_id s \<Longrightarrow> listed_online s' q = listed_online s q"
  by (simp add: listed_online_def)

lemma listed_online_all: "server_inv s \<Longrightarrow> p \<in> set (user_by_id s) \<Longrightarrow> listed_online s p"
  using users_ok_live [OF server_invD(1), of s p] server_invD(3) [of s]
  by (auto simp: listed_online_def states_ok_def)

lemma same_identity_score [simp]: "same_identity u (u\<lparr>u_score := x\<rparr>)"
  by (simp add: same_identity_def)

lemma same_identity_state [simp]: "same_identity u (u\<lparr>u_state := x\<rparr>)"
  by (simp add: same_identity_def)

text \<open>Writing the score or the state of a user who is already in doubt.\<close>

definition writes :: "u16 set \<Rightarrow> server_t \<Rightarrow> server_t \<Rightarrow> bool" where
  "writes I s t \<longleftrightarrow> tells I I s t \<and> keeps s t \<and> (\<forall>q. listed_online s q \<longrightarrow> listed_online t q)"

lemma writes_trans: "writes I s t \<Longrightarrow> writes I t v \<Longrightarrow> writes I s v"
  unfolding writes_def by (blast intro: tells_trans keeps_trans)

lemma writes_set_user:
  assumes "uheap s p = Some u" and "same_identity u u'" and "u_id u \<in> I"
    and "listed_online s p \<Longrightarrow> u_state u' = UONLINE \<or> u_state u' = UBATTLING"
  shows "writes I s (set_user p u' s)"
  unfolding writes_def
proof (intro conjI allI impI)
  show "tells I I s (set_user p u' s)"
    using tells_set_user [OF assms(1,2), of I] assms(3) by (simp add: insert_absorb)
  show "keeps s (set_user p u' s)" by (rule keeps_set_user [OF assms(1,2)])
  fix q assume q: "listed_online s q"
  show "listed_online (set_user p u' s) q"
  proof (cases "q = p")
    case True
    with q assms(4) show ?thesis by (intro listed_online_set_user) simp_all
  next
    case False
    with q show ?thesis by (auto simp: listed_online_def)
  qed
qed

lemma writes_refl: "writes I s s"
  by (simp add: writes_def tells_refl)

lemma add_score_writes:
  assumes "add_score p d s = Inr t" and "u_id (the (uheap s p)) \<in> I"
  shows "writes I s t"
proof -
  obtain u where u: "uheap s p = Some u" "t = set_user p (u\<lparr>u_score := u_score u + d\<rparr>) s"
    using assms(1) by (auto simp: add_score_def bind_r_eq_Inr deref_u_Inr)
  then show ?thesis
    using writes_set_user [OF u(1), of "u\<lparr>u_score := u_score u + d\<rparr>" I] assms(2)
    by (auto simp: listed_online_def)
qed

lemma leave_battle_writes:
  assumes "leave_battle p s = Inr t" and "u_id (the (uheap s p)) \<in> I"
  shows "writes I s t"
proof -
  obtain u where u: "uheap s p = Some u"
    "t = (if u_state u = UBATTLING then set_user p (u\<lparr>u_state := UONLINE\<rparr>) s else s)"
    using assms(1) by (auto simp: leave_battle_def bind_r_eq_Inr deref_u_Inr)
  then show ?thesis
    using writes_set_user [OF u(1), of "u\<lparr>u_state := UONLINE\<rparr>" I] assms(2) writes_refl by simp
qed

lemma keeps_id: "keeps s t \<Longrightarrow> p \<in> dom (uheap s) \<Longrightarrow> u_id (the (uheap t p)) = u_id (the (uheap s p))"
  using keeps_heap [of s t p] by (auto simp: same_identity_def)

lemma judge_finish_tells:
  assumes "users_ok s" and "listed_online s p1" and "listed_online s p2"
    and "judge_finish pch p1 p2 w s = Inr s'"
  shows "tells {} {} s s'"
proof -
  let ?s2 = "snd (random_num (snd (random_num s)))"
  let ?I = "{u_id (the (uheap s p1)), u_id (the (uheap s p2))}"
  obtain u1 sa s3 s4 s5 s6 a b x y where st: "add_score a x ?s2 = Inr sa" "add_score b y sa = Inr s3"
    "(a, b) = (p1, p2) \<or> (a, b) = (p2, p1)" "leave_battle p1 s3 = Inr s4" "leave_battle p2 s4 = Inr s5"
    "broadcast_user_changes (Some p1) (Some p2) s5 = Inr s6" "ch_unlink pch s6 = Inr s'"
    using assms(4) by (auto simp: judge_finish_def bind_r_eq_Inr case_prod_beta Let_def split: if_splits)
  have k2: "keeps s ?s2" by (rule keeps_only_heap) simp_all
  have dom: "p1 \<in> dom (uheap s)" "p2 \<in> dom (uheap s)" using assms(2,3) by (auto simp: listed_online_def)
  have id: "u_id (the (uheap t p1)) \<in> ?I" "u_id (the (uheap t p2)) \<in> ?I" if "keeps s t" for t
    using keeps_id [OF that] dom by simp_all
  have w0: "writes ?I s ?s2"
    unfolding writes_def using k2 listed_online_cong [of ?s2 s]
    by (auto intro!: tells_quiet [where ms = "[]"])
  have w1: "writes ?I s sa"
    by (rule writes_trans [OF w0 add_score_writes [OF st(1)]]) (use st(3) id [OF k2] in auto)
  have w2: "writes ?I s s3"
    by (rule writes_trans [OF w1 add_score_writes [OF st(2)]])
      (use st(3) id [of sa] w1 in \<open>auto simp: writes_def\<close>)
  have w3: "writes ?I s s4"
    by (rule writes_trans [OF w2 leave_battle_writes [OF st(4)]]) (use id [of s3] w2 in \<open>simp add: writes_def\<close>)
  have w4: "writes ?I s s5"
    by (rule writes_trans [OF w3 leave_battle_writes [OF st(5)]]) (use id [of s4] w3 in \<open>simp add: writes_def\<close>)
  then have k: "keeps s s5" and l: "listed_online s5 p1" "listed_online s5 p2" and t: "tells ?I ?I s s5"
    using assms(2,3) by (simp_all add: writes_def)
  have "tells ?I {} s5 s6"
    by (rule tells_broadcast [OF users_ok_keeps [OF assms(1) k] st(6)])
      (use l keeps_id [OF k] dom in auto)
  moreover have "tells {} {} s6 s'"
    using st(7) by (intro tells_quiet [where ms = "[]"] keeps_only_heap)
      (auto simp: ch_unlink_def bind_r_eq_Inr)
  moreover have "tells {} ?I s s" by (rule tells_silent [where ms = "[]"]) auto
  ultimately show ?thesis using t by (blast intro: tells_trans)
qed

lemma judge_turn_tells:
  assumes "users_ok s" and "\<And>p. p \<in> set (user_by_id s) \<Longrightarrow> listed_online s p"
    and "judge_turn pch f s = Inr s'"
  shows "tells {} {} s s'"
proof -
  obtain ch where ch: "cheap s pch = Some ch"
    using assms(3) by (auto simp: judge_turn_def bind_r_eq_Inr deref_c_Inr)
  obtain p1 p2 where p: "find_id (user1 ch) s = Some p1" "find_id (user2 ch) s = Some p2"
    using judge_turn_null [OF ch, of f] assms(3)
    by (cases "find_id (user1 ch) s"; cases "find_id (user2 ch) s") auto
  let ?mid = "judge_mid pch f ch p1 p2 s"
  have k: "keeps s ?mid" by (rule keeps_only_heap) (simp_all add: judge_mid_def Let_def)
  have t: "tells {} {} s ?mid"
    by (rule tells_quiet [OF k], simp add: judge_mid_def Let_def, simp add: judge_mid_def Let_def, simp)
  have l: "listed_online ?mid q = listed_online s q" for q
    by (rule listed_online_cong) (simp_all add: judge_mid_def Let_def)
  have "p1 \<in> set (user_by_id s)" "p2 \<in> set (user_by_id s)" using p by (auto elim!: find_id_SomeE)
  with assms(2) l have "listed_online ?mid p1" "listed_online ?mid p2" by simp_all
  with judge_finish_tells [OF users_ok_keeps [OF assms(1) k]] t assms(3) judge_turn_eq [OF ch p, of f]
  show ?thesis by (auto split: option.splits intro: tells_trans)
qed

section \<open>Challenges, turns and chat\<close>

lemma same_identity_chid [simp]: "same_identity u (u\<lparr>u_chid := x\<rparr>)" "same_identity u (u\<lparr>u_state := y, u_chid := x\<rparr>)"
  by (simp_all add: same_identity_def)

lemma challenge_start_tells:
  assumes "server_inv s" and "challenge_start fd c p1 p2 s = Inr s'"
  shows "tells {} {} s s'"
proof -
  obtain usr1 usr2 where u: "uheap s p1 = Some usr1" "uheap s p2 = Some usr2"
    using assms(2) by (auto simp: challenge_start_def bind_r_eq_Inr deref_u_Inr)
  show ?thesis
  proof (cases "u_state usr1 \<noteq> UONLINE \<or> u_state usr2 \<noteq> UONLINE \<or> u_id usr1 = u_id usr2")
    case True
    with assms(2) u have "s' = send_msg fd (challenge_r_msg c ENGAGED False) s \<or>
        s' = send_msg fd (challenge_r_msg c CHLSELF False) s"
      by (simp add: challenge_start_def split: if_splits)
    then show ?thesis by (elim disjE) (simp_all add: tells_send_msg)
  next
    case False
    with assms(2) u obtain pch s1 where a: "add_challenge s = Inr (pch, s1)"
      by (auto simp: challenge_start_def bind_r_eq_Inr)
    then obtain i where i: "brk s1 = Suc (brk s)" "ch_added (brk s) (zero_challenge\<lparr>ch_id := i\<rparr>) s s1" "pch = brk s"
      using add_challenge_cases [OF server_invD(2) [OF assms(1)]] by auto
    have added: "cheap s1 pch = Some (zero_challenge\<lparr>ch_id := i\<rparr>)" "uheap s1 = uheap s" "out s1 = out s"
      "user_by_id s1 = user_by_id s" "user_by_fd s1 = user_by_fd s" "user_by_nick s1 = user_by_nick s"
      "user_cnt s1 = user_cnt s"
      using i(2,3) by (simp_all add: ch_added_def)
    let ?ch = "zero_challenge\<lparr>ch_id := i, ch_state := ASKING, user1 := c_id1 c, user2 := c_id2 c,
          hp1 := MAXHP, hp2 := MAXHP, maxhp1 := MAXHP, maxhp2 := MAXHP\<rparr>"
    have s': "s' = send_msg (u_fd usr2) (relay_msg c i) (set_user p1 (usr1\<lparr>u_chid := i\<rparr>) (set_ch pch ?ch s1))"
      using assms(2) u False a added(1) by (simp add: challenge_start_def)
    have "keeps s (set_ch pch ?ch s1)" by (rule keeps_only_heap) (use added(2-) i(1) in simp_all)
    then have "tells {} {} s (set_ch pch ?ch s1)"
      by (rule tells_quiet [where ms = "[]"]) (use added(2,3) in simp_all)
    moreover have "tells {} {} (set_ch pch ?ch s1) (set_user p1 (usr1\<lparr>u_chid := i\<rparr>) (set_ch pch ?ch s1))"
      by (rule tells_set_user_same [of _ _ usr1]) (use u added(2) in simp_all)
    moreover have "tells {} {} t (send_msg (u_fd usr2) (relay_msg c i) t)" for t
      by (simp add: tells_send_msg)
    ultimately show ?thesis
      unfolding s' by (blast intro: tells_trans)
  qed
qed

lemma tells_ch_by_id: "tells {} {} s (s\<lparr>ch_by_id := t\<rparr>)"
  by (rule tells_quiet [where ms = "[]"], rule keeps_only_heap) simp_all

lemma tells_set_ch: "tells {} {} s (set_ch p c s)"
  by (rule tells_quiet [where ms = "[]"]) simp_all

lemma challenge_cancel_tells:
  assumes "challenge_cancel fd c p1 s = Inr s'"
  shows "tells {} {} s s'"
proof -
  obtain usr1 where u: "uheap s p1 = Some usr1"
    using assms by (auto simp: challenge_cancel_def bind_r_eq_Inr deref_u_Inr)
  let ?s1 = "set_user p1 (usr1\<lparr>u_chid := 0\<rparr>) s"
  have t1: "tells {} {} s (?s1\<lparr>ch_by_id := t\<rparr>)" for t
    by (rule tells_trans [OF tells_set_user_same [OF u] tells_ch_by_id]) simp_all
  have t2: "tells {} {} s (send_msg fd' (challenge_r_msg c e False) (?s1\<lparr>ch_by_id := t\<rparr>))" for fd' e t
    by (rule tells_trans [OF t1 tells_send_msg]) simp_all
  from assms u show ?thesis
    by (auto simp: challenge_cancel_def bind_r_eq_Inr ch_unlink_def tells_refl t1 t2
        split: if_splits option.splits)
qed

lemma challenge_reject_tells:
  assumes "challenge_reject c p1 p2 pch s = Inr s'"
  shows "tells {} {} s s'"
proof -
  obtain usr1 ch where u: "uheap s p1 = Some usr1" "cheap s pch = Some ch"
    using assms by (auto simp: challenge_reject_def bind_r_eq_Inr deref_u_Inr deref_c_Inr)
  let ?s1 = "send_msg (u_fd usr1) (challenge_r_msg c REJECTED False) s"
  from assms u have "s' = s \<or> (\<exists>t. s' = ch_free pch (?s1\<lparr>ch_by_id := t\<rparr>))"
    by (auto simp: challenge_reject_def bind_r_eq_Inr ch_unlink_def split: if_splits)
  moreover have "tells {} {} s (ch_free pch (?s1\<lparr>ch_by_id := t\<rparr>))" for t
    by (rule tells_quiet [where ms = "[(u_fd usr1, challenge_r_msg c REJECTED False)]"], rule keeps_only_heap)
      (simp_all add: ch_free_def)
  ultimately show ?thesis by (auto simp: tells_refl)
qed

lemma challenge_accept_tells:
  assumes "server_inv s" and "p1 \<in> set (user_by_id s)" and "p2 \<in> set (user_by_id s)"
    and "challenge_accept fd c p1 p2 pch s = Inr s'"
  shows "tells {} {} s s'"
proof -
  obtain usr1 usr2 ch where u: "uheap s p1 = Some usr1" "uheap s p2 = Some usr2" "cheap s pch = Some ch"
    using assms(4) by (auto simp: challenge_accept_def bind_r_eq_Inr deref_u_Inr deref_c_Inr)
  show ?thesis
  proof (cases "u_state usr1 = UONLINE \<and> u_state usr2 = UONLINE")
    case False
    with challenge_accept_engaged [OF u, of fd c] assms(4) show ?thesis
      by (auto simp: tells_send_msg)
  next
    case True
    let ?I = "{u_id usr1, u_id usr2}"
    let ?s1 = "set_ch pch (ch\<lparr>ch_state := STARTED\<rparr>) s"
    let ?s2 = "set_user p1 (usr1\<lparr>u_state := UBATTLING, u_chid := ch_id ch\<rparr>) ?s1"
    obtain usr2' where u2: "uheap ?s2 p2 = Some usr2'" "u_id usr2' = u_id usr2"
      using u by (cases "p2 = p1") auto
    let ?s3 = "set_user p2 (usr2'\<lparr>u_state := UBATTLING, u_chid := ch_id ch\<rparr>) ?s2"
    obtain s4 ch' where b: "broadcast_user_changes (Some p1) (Some p2) ?s3 = Inr s4" and
      j: "judge_turn pch (-1) (set_ch pch (ch'\<lparr>turn_no := 0\<rparr>)
        (send_msg (u_fd usr2) (challenge_r_msg c ME_OK False)
          (send_msg (u_fd usr1) (challenge_r_msg c ME_OK True) s4))) = Inr s'"
      using assms(4) u True u2(1) by (auto simp: challenge_accept_def bind_r_eq_Inr Let_def)
    let ?s7 = "set_ch pch (ch'\<lparr>turn_no := 0\<rparr>) (send_msg (u_fd usr2) (challenge_r_msg c ME_OK False)
          (send_msg (u_fd usr1) (challenge_r_msg c ME_OK True) s4))"
    have w1: "writes ?I s ?s1"
      unfolding writes_def using listed_online_cong [of ?s1 s]
      by (auto intro!: tells_quiet [where ms = "[]"])
    have w2: "writes ?I ?s1 ?s2" by (rule writes_set_user [of _ _ usr1]) (use u in simp_all)
    have w3: "writes ?I ?s2 ?s3" by (rule writes_set_user [OF u2(1)]) (use u2(2) in simp_all)
    have w: "writes ?I s ?s3" using w1 w2 w3 by (blast intro: writes_trans)
    then have k: "keeps s ?s3" and l: "\<And>q. listed_online s q \<Longrightarrow> listed_online ?s3 q" and t: "tells ?I ?I s ?s3"
      unfolding writes_def by blast+
    have ok: "users_ok ?s3" by (rule users_ok_keeps [OF server_invD(1) [OF assms(1)] k])
    have on: "listed_online ?s3 q" if "q \<in> set (user_by_id s)" for q
      using l listed_online_all [OF assms(1) that] .
    have id: "u_id (the (uheap ?s3 p1)) = u_id usr1" "u_id (the (uheap ?s3 p2)) = u_id usr2"
      using u u2(2) by (cases "p1 = p2"; simp)+
    have s4: "s4 = ?s3\<lparr>out := out ?s3 @ to_all ?s3 (-1) (change_msg ?s3 (Some p1) (Some p2))\<rparr>"
      using b broadcast_eq [OF ok, of "Some p1" "Some p2"] on assms(2,3) by auto
    have tb: "tells ?I {} ?s3 s4"
      by (rule tells_broadcast [OF ok b]) (use on assms(2,3) id in auto)
    have "tells {} {} x (send_msg fd' (challenge_r_msg c e b) x)" for x fd' e b
      by (simp add: tells_send_msg)
    then have t7: "tells {} {} s4 ?s7" by (blast intro: tells_trans tells_set_ch)
    have "users_ok ?s7" using ok by (simp add: s4 users_ok_def)
    moreover have "listed_online ?s7 q" if "q \<in> set (user_by_id ?s7)" for q
      using on [of q] that listed_online_cong [of ?s7 ?s3 q] by (simp add: s4)
    ultimately have tj: "tells {} {} ?s7 s'" using j by (rule judge_turn_tells)
    have "tells {} ?I s s" by (rule tells_silent [where ms = "[]"]) auto
    with t tb t7 tj show ?thesis by (blast intro: tells_trans)
  qed
qed

lemma handle_challenge_tells:
  assumes "server_inv s" and "handle_challenge fd c s = Inr s'"
  shows "tells {} {} s s'"
proof (cases "find_id (c_id1 c) s = None \<or> find_id (c_id2 c) s = None")
  case True
  with assms(2) have "s' = send_msg fd (challenge_r_msg c NXID False) s"
    by (auto simp: handle_challenge_def split: option.splits)
  then show ?thesis by (simp add: tells_send_msg)
next
  case False
  then obtain p1 p2 where p: "find_id (c_id1 c) s = Some p1" "find_id (c_id2 c) s = Some p2" by auto
  obtain usr1 where u1: "uheap s p1 = Some usr1" "p1 \<in> set (user_by_id s)"
    using p(1) by (rule find_id_SomeE)
  obtain usr2 where u2: "uheap s p2 = Some usr2" "p2 \<in> set (user_by_id s)"
    using p(2) by (rule find_id_SomeE)
  have msg: "tells {} {} s (send_msg fd (challenge_r_msg c e b) s)" for e b
    by (simp add: tells_send_msg)
  from assms(2) p u1(1) u2(1) consider e where "s' = send_msg fd (challenge_r_msg c e False) s" | "s' = s"
    | "challenge_start fd c p1 p2 s = Inr s'" | "challenge_cancel fd c p1 s = Inr s'"
    | pch where "challenge_accept fd c p1 p2 pch s = Inr s'" | pch where "challenge_reject c p1 p2 pch s = Inr s'"
    by (auto simp: handle_challenge_def bind_r_eq_Inr split: option.splits if_splits)
  then show ?thesis
    by cases (simp_all add: msg tells_refl challenge_start_tells [OF assms(1)] challenge_cancel_tells
        challenge_accept_tells [OF assms(1) u1(2) u2(2)] challenge_reject_tells)
qed

lemma handle_turn_tells:
  assumes "server_inv s" and "handle_turn fd t s = Inr s'"
  shows "tells {} {} s s'"
proof -
  from assms(2) have "s' = s \<or> (\<exists>pch ch. s' = set_ch pch (record_action t ch) s \<or>
      judge_turn pch (-1) (set_ch pch (record_action t ch) s) = Inr s')"
    by (auto simp: handle_turn_def bind_r_eq_Inr Let_def split: option.splits if_splits)
  moreover have "tells {} {} s s'" if "judge_turn pch f (set_ch pch ch s) = Inr s'" for pch ch f
  proof (rule tells_trans [OF tells_set_ch judge_turn_tells [OF _ _ that]])
    show "users_ok (set_ch pch ch s)" using server_invD(1) [OF assms(1)] by simp
    show "listed_online (set_ch pch ch s) p" if "p \<in> set (user_by_id (set_ch pch ch s))" for p
      using listed_online_all [OF assms(1), of p] that listed_online_cong [of "set_ch pch ch s" s p] by simp
  qed
  ultimately show ?thesis by (auto simp: tells_refl tells_set_ch)
qed

lemma handle_sendmsg_tells:
  assumes "server_inv s" and "handle_sendmsg sm msg s = Inr s'"
  shows "tells {} {} s s'"
proof (cases "\<exists>p u. find_id (sm_id sm) s = Some p \<and> uheap s p = Some u \<and> u_key u = sm_key sm")
  case True
  then obtain p u where u: "find_id (sm_id sm) s = Some p" "uheap s p = Some u" "u_key u = sm_key sm" by blast
  let ?m = "msg\<lparr>m_body := Sendmsg (sm\<lparr>sm_key := 0\<rparr>)\<rparr>"
  have "s' = s\<lparr>out := out s @ to_all s (-1) ?m\<rparr>"
    using handle_sendmsg_eq [OF server_invD(1) [OF assms(1)] u, of msg] assms(2) by simp
  moreover have "silent (to_all s (-1) ?m)"
    by (simp add: silent_def to_all_def list_all_iff is_welcome_def changes_in_def)
  ultimately show ?thesis by (intro tells_quiet keeps_only_heap) simp_all
next
  case False
  with assms(2) have "s' = s"
    by (auto simp: handle_sendmsg_def bind_r_eq_Inr deref_u_Inr split: option.splits if_splits)
  then show ?thesis by (simp add: tells_refl)
qed

section \<open>In sync\<close>

lemma in_sync_tells:
  assumes "in_sync s" and "tells {} {} s s'"
  shows "in_sync s'"
  unfolding in_sync_def
proof (intro allI impI)
  fix p u' assume p: "p \<in> set (user_by_id s')" "uheap s' p = Some u'"
  from assms(2) obtain ms where ms: "keeps s s'" "out s' = out s @ ms"
    "\<And>p u. p \<in> set (user_by_id s) \<Longrightarrow> uheap s p = Some u \<Longrightarrow>
      hears (u_id u) (u_fd u) {} {} (directory s) (directory s') ms" by (auto simp: tells_def)
  obtain u where u: "uheap s p = Some u" "u_id u' = u_id u" "u_fd u' = u_fd u"
    using keeps_heap_back [OF ms(1) p(2)] by (auto simp: same_identity_def)
  have p': "p \<in> set (user_by_id s)" using ms(1) p(1) by (simp add: keeps_def)
  have "fold apply_change (news (inbox (u_fd u) (out s))) Map.empty = directory s"
    "stays (u_id u) (inbox (u_fd u) (out s))" using assms(1) p' u(1) by (auto simp: in_sync_def)
  moreover have "fold apply_change (news (said (u_fd u) ms)) (directory s) = directory s'"
    "list_all (\<lambda>m. \<not> is_welcome m) (said (u_fd u) ms)" "stays (u_id u) (said (u_fd u) ms)"
    using ms(3) [OF p' u(1)] by (auto simp: hears_def)
  ultimately show "fold apply_change (news (inbox (u_fd u') (out s'))) Map.empty = directory s' \<and>
      stays (u_id u') (inbox (u_fd u') (out s'))"
    by (simp add: u(2,3) ms(2) inbox_append inbox_quiet) (simp add: stays_def)
qed

lemma directory_iff:
  assumes "users_ok s"
  shows "directory s i = Some x \<longleftrightarrow>
    (\<exists>p u. p \<in> set (user_by_id s) \<and> uheap s p = Some u \<and> u_id u = i \<and> x = server_info u)"
  using directory_eq [OF assms] by (auto elim!: directory_SomeE)

lemma directory_dom:
  assumes "users_ok s"
  shows "dom (directory s) = uu_id ` set (map (entry_of s) (user_by_id s))"
proof (intro equalityI subsetI)
  fix i assume "i \<in> dom (directory s)"
  then obtain x where "directory s i = Some x" by blast
  then obtain p u where "p \<in> set (user_by_id s)" "uheap s p = Some u" "u_id u = i"
    by (rule directory_SomeE)
  then have "i = uu_id (entry_of s p)" "entry_of s p \<in> set (map (entry_of s) (user_by_id s))"
    by (simp_all add: entry_of_id)
  then show "i \<in> uu_id ` set (map (entry_of s) (user_by_id s))" by blast
next
  fix i assume "i \<in> uu_id ` set (map (entry_of s) (user_by_id s))"
  then obtain p where p: "p \<in> set (user_by_id s)" "i = uu_id (entry_of s p)" by auto
  obtain u where u: "uheap s p = Some u" using users_ok_live [OF assms p(1)] by blast
  from directory_eq [OF assms p(1) u] p(2) entry_of_id [OF u] show "i \<in> dom (directory s)" by auto
qed

lemma quit_tail_in_sync:
  assumes "users_ok s" and "in_sync s" and "p \<in> set (user_by_id s)" and "quit_tail p s = Inr s'"
  shows "in_sync s'"
proof -
  obtain u where u: "uheap s p = Some u" using users_ok_live [OF assms(1,3)] by blast
  let ?s1 = "set_user p (u\<lparr>u_state := UOFFLINE\<rparr>) s"
  have k: "keeps s ?s1" by (rule keeps_set_user [OF u]) simp
  have ok1: "users_ok ?s1" by (rule users_ok_keeps [OF assms(1) k])
  let ?m = "change_msg ?s1 (Some p) None"
  let ?t = "?s1\<lparr>out := out s @ to_all ?s1 (-1) ?m\<rparr>"
  have "broadcast_user_changes (Some p) None ?s1 = Inr ?t"
    using broadcast_eq [OF ok1, of "Some p" None] by simp
  with assms(4) u have d: "user_del_and_destroy p ?t = Inr s'" by (simp add: quit_tail_def)
  have "users_ok ?t" "p \<in> set (user_by_id ?t)" using ok1 assms(3) by simp_all
  then obtain s'' where s'': "user_del_and_destroy p ?t = Inr s''" "users_ok s''"
    "set (user_by_id s'') = set (user_by_id ?t) - {p}" "uheap s'' = (uheap ?t)(p := None)" "out s'' = out ?t"
    using user_del_eq [of ?t p] by blast
  from d s''(1) have eq: "s'' = s'" by simp
  have s': "users_ok s'" "set (user_by_id s') = set (user_by_id s) - {p}"
    "uheap s' = (uheap s)(p := None)" "out s' = out s @ to_all ?s1 (-1) ?m"
    using s''(2-5) unfolding eq by simp_all
  have dir: "directory s' = (directory s)(u_id u := None)"
  proof (rule map_eqI_Some)
    fix i x
    show "directory s' i = Some x \<longleftrightarrow> ((directory s)(u_id u := None)) i = Some x"
    proof
      assume "directory s' i = Some x"
      then obtain q v where q: "q \<in> set (user_by_id s)" "q \<noteq> p" "uheap s q = Some v" "u_id v = i"
        "x = server_info v" unfolding directory_iff [OF s'(1)] s'(2,3) by auto
      moreover have "u_id u \<noteq> i" using user_ids_unique [OF assms(1) assms(3) q(1) u q(3)] q(2,4) by auto
      ultimately show "((directory s)(u_id u := None)) i = Some x"
        using directory_eq [OF assms(1) q(1,3)] by simp
    next
      assume "((directory s)(u_id u := None)) i = Some x"
      then have i: "i \<noteq> u_id u" "directory s i = Some x" by (simp_all split: if_splits)
      from i(2) obtain q v where q: "q \<in> set (user_by_id s)" "uheap s q = Some v" "u_id v = i"
        "x = server_info v" by (rule directory_SomeE)
      moreover have "q \<noteq> p" using i(1) q(2,3) u by auto
      ultimately show "directory s' i = Some x" unfolding directory_iff [OF s'(1)] s'(2,3) by auto
    qed
  qed
  have e: "apply_change (entry_of ?s1 p) R = R(u_id u := None)" "uu_id (entry_of ?s1 p) = u_id u" for R
    by (simp_all add: apply_change_def entry_of_def)
  have m: "changes_in ?m = [entry_of ?s1 p]" "\<not> is_welcome ?m"
    by (simp_all add: change_msg_def changes_in_uchange_msg opt_entries_def)
  show ?thesis
    unfolding in_sync_def
  proof (intro allI impI)
    fix q v assume q: "q \<in> set (user_by_id s')" "uheap s' q = Some v"
    then have q': "q \<in> set (user_by_id s)" "uheap s q = Some v" "q \<noteq> p" using s' by auto
    then have "said (u_fd v) (to_all ?s1 (-1) ?m) = [?m]"
      using users_okD(8) [OF assms(1) q'(1,2)] by (intro said_to_all [OF ok1]) (auto simp: user_wf_def)
    then have i: "inbox (u_fd v) (out s') = inbox (u_fd v) (out s) @ [?m]"
      using m(2) inbox_quiet [of "u_fd v" "to_all ?s1 (-1) ?m"] by (simp add: s'(4) inbox_append)
    have "u_id u \<noteq> u_id v" using user_ids_unique [OF assms(1) assms(3) q'(1) u q'(2)] q'(3) by blast
    moreover have "fold apply_change (news (inbox (u_fd v) (out s))) Map.empty = directory s"
      "stays (u_id v) (inbox (u_fd v) (out s))" using assms(2) q' by (auto simp: in_sync_def)
    ultimately show "fold apply_change (news (inbox (u_fd v) (out s'))) Map.empty = directory s' \<and>
        stays (u_id v) (inbox (u_fd v) (out s'))"
      unfolding i by (simp add: m e dir stays_def)
  qed
qed

lemma quit_user_in_sync:
  assumes "server_inv s" and "in_sync s" and "p \<in> set (user_by_id s)" and "quit_user p s = Inr s'"
  shows "in_sync s'"
proof -
  note inv = server_invD [OF assms(1)]
  obtain u where u: "uheap s p = Some u" using users_ok_live [OF inv(1) assms(3)] by blast
  obtain s1 where
    s1: "(if u_state u = UBATTLING then
            (case find_ch (u_chid u) s of None \<Rightarrow> Inr s
             | Some pch \<Rightarrow> judge_turn pch (uint (u_id u)) s)
          else Inr s) = Inr s1"
    and t: "quit_tail p s1 = Inr s'"
    using assms(4) quit_user_eq [OF inv(1) assms(3) u] by (auto simp: bind_r_eq_Inr)
  have "server_inv s1 \<and> user_by_id s1 = user_by_id s \<and> tells {} {} s s1"
  proof (cases "s1 = s")
    case True
    with assms(1) show ?thesis by (simp add: tells_refl)
  next
    case False
    with s1 obtain pch where pch: "find_ch (u_chid u) s = Some pch" and
      j: "judge_turn pch (uint (u_id u)) s = Inr s1" by (auto split: if_splits option.splits)
    have p: "pch \<in> set (ch_by_id s)" using pch by (auto elim: find_ch_SomeE)
    show ?thesis
      using judge_turn_inv [OF assms(1) p j] judge_turn_by_id [OF assms(1) p j]
        judge_turn_tells [OF inv(1) listed_online_all [OF assms(1)] j] by simp
  qed
  with in_sync_tells [OF assms(2)] quit_tail_in_sync [of s1 p s'] t assms(3) show ?thesis
    by (simp add: server_invD(1))
qed

lemma fold_said_to_fd: "said fd (map (\<lambda>b. (fd, f b)) bs) = map f bs"
  by (induction bs) auto

lemma said_other: "(\<And>x. x \<in> set ms \<Longrightarrow> fst x \<noteq> fd) \<Longrightarrow> said fd ms = []"
  by (auto simp: said_def filter_empty_conv)

lemma handle_join_in_sync:
  assumes "server_inv s" and "in_sync s" and "0 \<le> fd" and "handle_join fd j s = Inr s'"
  shows "in_sync s'"
proof -
  note inv = server_invD [OF assms(1)]
  obtain r err s1 where a: "user_add fd (j_nickname j) s = Inr (r, err, s1)"
    using assms(4) by (auto simp: handle_join_def bind_r_eq_Inr)
  note c = user_add_cases [OF inv(1) assms(3) a]
  have inv1: "server_inv s1" by (rule user_add_inv [OF assms(1,3) a])
  note ok1 = server_invD(1) [OF inv1]
  have new: "brk s \<notin> set (user_by_id s)" using brk_not_in_trees [OF inv(1)] by simp
  have old: "uheap s1 q = uheap s q" if "q \<in> set (user_by_id s)" for q using c new that by metis
  show ?thesis
  proof (cases "err = ME_OK")
    case False
    then have set: "set (user_by_id s1) = set (user_by_id s)" using c by auto
    have s': "s' = send_msg fd (make_join_r (j_nickname j) err 0 0) s1"
      using handle_join_err [OF a False] assms(4) by simp
    have "directory s1 i = Some x \<longleftrightarrow> directory s i = Some x" for i x
      unfolding directory_iff [OF ok1] directory_iff [OF inv(1)] set using old by metis
    then have "directory s1 = directory s" by (rule map_eqI_Some)
    with assms(2) set old c have "in_sync s1" by (auto simp: in_sync_def)
    moreover have "tells {} {} s1 s'" unfolding s' by (rule tells_send_msg) (simp_all add: False)
    ultimately show ?thesis by (rule in_sync_tells)
  next
    case True
    then obtain u where u: "r = Some (brk s)" "set (user_by_id s1) = insert (brk s) (set (user_by_id s))"
      "uheap s1 (brk s) = Some u" "u_fd u = fd" using c by auto
    let ?p = "brk s"
    have "user_add fd (j_nickname j) s = Inr (Some ?p, ME_OK, s1)" using a True u(1) by simp
    from handle_join_ok [OF inv(1) assms(3) this] assms(4)
    have s': "s' = s1\<lparr>out := out s1 @ join_outs s1 fd (j_nickname j) ?p\<rparr>" by simp
    obtain bs b where b: "batch [] (map (entry_of s1) (user_by_id s1)) = (bs, b)" by fastforce
    have outs: "out s' = out s @ [(fd, make_join_r (j_nickname j) ME_OK (u_id u) (u_key u))] @
        map (\<lambda>b. (fd, uchange_msg b)) (bs @ [b]) @ to_all s1 fd (uchange_msg [entry_of s1 ?p])"
      using c u(3) b by (simp add: s' join_outs_def)
    have p: "?p \<in> set (user_by_id s1)" using u(2) by simp
    have dir: "directory s' = directory s1"
      by (rule ext) (simp add: s' directory_def find_id_def split: option.split)
    have true: "tells_of (directory s1) (entry_of s1 q)" if "q \<in> set (user_by_id s1)" for q
      using listed_tells [OF ok1 listed_online_all [OF inv1 that]] .
    have on: "uu_state (entry_of s1 q) \<noteq> 0" if "q \<in> set (user_by_id s1)" for q
      using listed_online_all [OF inv1 that] by (auto simp: listed_online_def entry_of_def)
    show ?thesis
      unfolding in_sync_def
    proof (intro allI impI)
      fix q v assume q: "q \<in> set (user_by_id s')" "uheap s' q = Some v"
      then have q1: "q \<in> set (user_by_id s1)" "uheap s1 q = Some v" by (simp_all add: s')
      show "fold apply_change (news (inbox (u_fd v) (out s'))) Map.empty = directory s' \<and>
          stays (u_id v) (inbox (u_fd v) (out s'))"
      proof (cases "q = ?p")
        case False
        with q1 u(2) old have q0: "q \<in> set (user_by_id s)" "uheap s q = Some v" by auto
        have fd: "u_fd v \<noteq> fd"
          using find_fd_eq [OF ok1 q1] find_fd_eq [OF ok1 p u(3)] u(4) False by auto
        then have said: "said (u_fd v) (to_all s1 fd (uchange_msg [entry_of s1 ?p])) = [uchange_msg [entry_of s1 ?p]]"
          by (rule said_to_all [OF ok1 q1])
        let ?rest = "[(fd, make_join_r (j_nickname j) ME_OK (u_id u) (u_key u))] @
          map (\<lambda>b. (fd, uchange_msg b)) (bs @ [b]) @ to_all s1 fd (uchange_msg [entry_of s1 ?p])"
        have "said (u_fd v) (map (\<lambda>b. (fd, uchange_msg b)) (bs @ [b])) = []"
          by (rule said_other) (use fd in auto)
        with said fd have rest: "said (u_fd v) ?rest = [uchange_msg [entry_of s1 ?p]]" by simp
        then have i: "inbox (u_fd v) (out s') = inbox (u_fd v) (out s) @ [uchange_msg [entry_of s1 ?p]]"
          using inbox_quiet [of "u_fd v" ?rest] by (simp only: outs inbox_append) simp
        have old_sync: "fold apply_change (news (inbox (u_fd v) (out s))) Map.empty = directory s"
          "stays (u_id v) (inbox (u_fd v) (out s))" using assms(2) q0 by (auto simp: in_sync_def)
        have "apply_change (entry_of s1 ?p) (directory s) = directory s1"
        proof
          fix i
          have e: "apply_change (entry_of s1 ?p) (directory s) i =
              (if i = u_id u then directory s1 i else directory s i)"
            using true [OF p] u(3) by (simp add: tells_of_def entry_of_id)
          show "apply_change (entry_of s1 ?p) (directory s) i = directory s1 i"
          proof (cases "i = u_id u")
            case True
            with e show ?thesis by simp
          next
            case False
            have "directory s i = Some x \<longleftrightarrow> directory s1 i = Some x" for x
              unfolding directory_iff [OF ok1] directory_iff [OF inv(1)] u(2) using old u(3) False new by fastforce
            then have "directory s i = directory s1 i" by (metis not_Some_eq)
            with e False show ?thesis by simp
          qed
        qed
        with old_sync on [OF p] show ?thesis
          unfolding i dir by (simp add: changes_in_uchange_msg stays_def)
      next
        case True
        have said: "said fd (to_all s1 fd (uchange_msg [entry_of s1 ?p])) = []"
          by (rule said_other) (auto simp: to_all_def)
        have v: "u_fd v = fd" "v = u" using True q1 u(3,4) by auto
        let ?batches = "map (\<lambda>b. (fd, uchange_msg b)) (bs @ [b]) @ to_all s1 fd (uchange_msg [entry_of s1 ?p])"
        have sb: "said fd ?batches = map uchange_msg (bs @ [b])"
          using said fold_said_to_fd [of fd uchange_msg "bs @ [b]"] by simp
        have nw: "list_all (\<lambda>m. \<not> is_welcome m) (said fd ?batches)"
          unfolding sb by (simp add: list_all_iff)
        have "inbox fd (out s') = fold (inbox_add fd) ?batches []"
          by (simp only: outs inbox_append) (simp add: inbox_append)
        also have "\<dots> = map uchange_msg (bs @ [b])"
          using inbox_quiet [OF nw, of "[]"] unfolding sb append_Nil .
        finally have i: "inbox fd (out s') = map uchange_msg (bs @ [b])" .
        have "length c \<le> 16" if "c \<in> set (bs @ [b])" for c
          using batch_full [OF b] that by (auto simp: list_all_iff)
        then have "news (map uchange_msg (bs @ [b])) = concat (bs @ [b])"
          unfolding news_def map_map comp_def
          by (metis (no_types, lifting) changes_in_uchange_msg map_idI)
        also have "\<dots> = map (entry_of s1) (user_by_id s1)" using batch_concat [OF b] by simp
        finally have n: "news (inbox fd (out s')) = map (entry_of s1) (user_by_id s1)" by (simp only: i)
        have ids: "uu_id ` set (map (entry_of s1) (user_by_id s1)) = dom (directory s1)"
          by (rule directory_dom [OF ok1, symmetric])
        have "fold apply_change (map (entry_of s1) (user_by_id s1)) Map.empty i = directory s1 i" for i
          using apply_true_changes [of "directory s1" "map (entry_of s1) (user_by_id s1)" Map.empty i] true
          unfolding ids by (cases "directory s1 i") (auto simp: list_all_iff)
        then show ?thesis unfolding v(1) n dir stays_def using on by (auto simp: list_all_iff fun_eq_iff)
      qed
    qed
  qed
qed

text \<open>Every entry of the queue keeps the users in sync.\<close>

lemma handle_entry_in_sync:
  assumes "server_inv s" and "in_sync s" and "entry_ok en" and "handle_entry en s = Inr s'"
  shows "in_sync s'"
proof (cases en)
  case (EDISCONN fd)
  show ?thesis
  proof (cases "find_fd fd s")
    case None
    with EDISCONN assms(2,4) show ?thesis by (simp add: handle_entry_def handle_disconnect_def)
  next
    case (Some p)
    then have "p \<in> set (user_by_id s)"
      using users_okD(4) [OF server_invD(1) [OF assms(1)]] by (auto elim: find_fd_SomeE)
    with Some EDISCONN assms(4) quit_user_in_sync [OF assms(1,2)] show ?thesis
      by (simp add: handle_entry_def handle_disconnect_def)
  qed
next
  case (EMSG fd m)
  have fd: "0 \<le> fd" using assms(3) EMSG by (simp add: entry_ok_def)
  note h = assms(4) [unfolded EMSG handle_entry_def queue_entry_t.case]
  show ?thesis
  proof (cases "m_body m")
    case (Join j)
    with h handle_join_in_sync [OF assms(1,2) fd] show ?thesis by simp
  next
    case (Quit q)
    with h have q: "handle_quit q s = Inr s'" by simp
    show ?thesis
    proof (cases "s' = s")
      case False
      with q obtain p where p: "find_id (qt_id q) s = Some p" "quit_user p s = Inr s'"
        by (auto simp: handle_quit_def bind_r_eq_Inr split: option.splits if_splits)
      then have "p \<in> set (user_by_id s)" by (auto elim: find_id_SomeE)
      with p(2) quit_user_in_sync [OF assms(1,2)] show ?thesis by blast
    qed (simp add: assms(2))
  next
    case (Challenge c)
    with h in_sync_tells [OF assms(2) handle_challenge_tells [OF assms(1)]] show ?thesis by simp
  next
    case (Turn t)
    with h in_sync_tells [OF assms(2) handle_turn_tells [OF assms(1)]] show ?thesis by simp
  next
    case (Sendmsg sm)
    with h in_sync_tells [OF assms(2) handle_sendmsg_tells [OF assms(1)]] show ?thesis by simp
  qed (use h assms(2) in simp_all)
qed

lemma handle_entry_inv:
  assumes "server_inv s" and "entry_ok en" and "handle_entry en s = Inr s'"
  shows "server_inv s'"
  using handle_entry_safe [OF assms(1,2)] assms(3) by (simp add: safe_resultD)

lemma server_run_in_sync:
  assumes "server_inv s" and "in_sync s" and "list_all entry_ok es" and "server_run es s = Inr s'"
  shows "in_sync s'"
proof -
  have "server_inv s' \<and> in_sync s'"
  proof (rule fold_r_invariant [where P = "\<lambda>s. server_inv s \<and> in_sync s"])
    show "fold_r handle_entry es s = Inr s'" using assms(4) by (simp add: server_run_def)
    show "server_inv s \<and> in_sync s" using assms(1,2) ..
    fix en t t' assume "en \<in> set es" "handle_entry en t = Inr t'" "server_inv t \<and> in_sync t"
    moreover from this(1) assms(3) have "entry_ok en" by (simp add: list_all_iff)
    ultimately show "server_inv t' \<and> in_sync t'"
      using handle_entry_inv [of t en t'] handle_entry_in_sync [of t en t'] by blast
  qed
  then show ?thesis ..
qed

lemma in_sync_init: "in_sync (model_init s)"
  by (simp add: in_sync_def model_init_def)

end
