(* ===== verification/ClientProps.thy ===== *)
theory ClientProps imports ClientScenes ClientLogin Sync ServerProps begin

text \<open>
  What the client guarantees, and where it fails: the properties of \<open>client/client.c\<close>, on
  its own and together with the server, each with a concrete instance.
\<close>

section \<open>In sync with the server\<close>

lemma um_changes_recv: "concat (map um_changes (map Um_recv ms)) = news ms"
  by (induction ms) (simp_all add: um_changes_def)

lemma um_quits_recv: "list_ex (um_quits i) (map Um_recv ms) \<longleftrightarrow> \<not> stays i ms"
  by (induction ms) (auto simp: um_quits_def stays_def list_ex_iff list_all_iff)

text \<open>
  C1: the user list of every client is the server's. From the empty server, whatever
  clients send: a client that takes the messages sent to its descriptor since its \<open>JOIN\<close> was
  accepted, in their order, never faults, stays on its main screen, and has the nickname,
  the state and the score of exactly the users the server has.
\<close>

theorem clients_in_sync:
  assumes "uheap s = Map.empty" and "cheap s = Map.empty" and "out s = []"
    and "list_all entry_ok es" and "server_run es (model_init s) = Inr s'"
    and "find_id i s' = Some p" and "uheap s' p = Some u"
    and "ui_main_init cs jm junk = Inr c" and "g_id (cl_gs c) = i"
  shows "\<exists>d. fold_flow handle_um (map Um_recv (inbox (u_fd u) (out s'))) c = Inr (Go d) \<and>
    roster d = directory s' \<and> ready d"
proof -
  have init: "server_inv (model_init s)" by (rule server_inv_init [OF assms(1-3)])
  have inv: "server_inv s'"
    using server_run_safe [OF init assms(4)] assms(5) by (simp add: safe_resultD)
  have sync: "in_sync s'" by (rule server_run_in_sync [OF init in_sync_init assms(4,5)])
  have p: "p \<in> set (user_by_id s')" "u_id u = i" using assms(6,7) by (auto elim: find_id_SomeE)
  let ?ms = "inbox (u_fd u) (out s')"
  have s: "fold apply_change (news ?ms) Map.empty = directory s'" "stays i ?ms"
    using sync p assms(7) by (auto simp: in_sync_def)
  note c = ui_main_init_ok [OF assms(8)]
  obtain r where r: "fold_flow handle_um (map Um_recv ?ms) c = Inr r" "kept (news ?ms) (\<not> stays i ?ms) c r"
    using handle_ums_ok [OF c(1), of "map Um_recv ?ms"] unfolding um_changes_recv um_quits_recv assms(9)
    by blast
  then obtain d where d: "r = Go d" using s(2) by (cases r) (simp_all add: kept_def)
  have k: "client_inv d" "roster d = directory s'" "g_id (cl_gs d) = i" "news ?ms \<noteq> [] \<Longrightarrow> cl_list_updated d"
    using r(2) s(1) assms(9) by (simp_all add: d kept_def c(3))
  have l: "directory s' i \<noteq> None" using directory_eq [OF server_invD(1) [OF inv] p(1) assms(7)] p(2) by simp
  have "news ?ms \<noteq> []"
  proof
    assume "news ?ms = []"
    with s(1) have "directory s' = Map.empty" by simp
    with l show False by simp
  qed
  with k l have "ready d" by (simp add: ready_def listed_def)
  with r(1) d k(2) show ?thesis by blast
qed

text \<open>Bob joins the empty server and opens his main screen.\<close>

lemma bob_joins:
  "\<exists>s1. server_run [EMSG 6 hello] (model_init blank) = Inr s1 \<and>
    (\<exists>u m. find_id 6 s1 = Some 0 \<and> uheap s1 0 = Some u \<and> u_fd u = 6 \<and> inbox 6 (out s1) = [m])"
proof -
  have ok: "users_ok (model_init blank)" using server_inv_init [of blank] by (simp add: server_invD(1))
  have id: "join_id 6 = 6" by (simp add: join_id_def c_rem_def UINT16_MAX_def)
  have "\<not> join_blocked 6 (j_nickname hello_join) (model_init blank)"
    by (simp add: join_blocked_def nick_taken_def MAX_USER_COUNT_def model_init_def find_fd_def find_id_def tfind_def)
  moreover have "find_id (join_id 6) (model_init blank) = None" "find_fd 6 (model_init blank) = None"
    by (simp_all add: model_init_def find_fd_def find_id_def tfind_def)
  moreover have "brk (model_init blank) = 0" by (simp add: model_init_def blank_def)
  ultimately obtain s1 where a: "user_add 6 (j_nickname hello_join) (model_init blank) = Inr (Some 0, ME_OK, s1)"
    using user_add_outcome [OF ok, of 6 "j_nickname hello_join"] by auto
  note c = user_add_cases [OF ok _ a]
  then obtain u where u: "uheap s1 0 = Some u" "u_id u = 6" "u_fd u = 6" "set (user_by_id s1) = {0}" "users_ok s1"
    "out s1 = []"
    using id \<open>brk (model_init blank) = 0\<close> by (auto simp: model_init_def)
  have "distinct (user_by_id s1)" using u(5) by (auto intro: by_id.tree_ok_distinct simp: users_ok_def)
  with u(4) have alone: "user_by_id s1 = [0]"
    by (cases "user_by_id s1"; cases "tl (user_by_id s1)") auto
  let ?s1 = "s1\<lparr>out := out s1 @ join_outs s1 6 (j_nickname hello_join) 0\<rparr>"
  have "handle_join 6 hello_join (model_init blank) = Inr ?s1" by (rule handle_join_ok [OF ok _ a]) simp
  then have "server_run [EMSG 6 hello] (model_init blank) = Inr ?s1"
    by (simp add: server_run_def handle_entry_def)
  moreover have "find_id 6 ?s1 = Some 0" using find_id_eq [of ?s1 0 u] u by simp
  moreover have "is_welcome (make_join_r n ME_OK i k)" for n i k by (simp add: is_welcome_def make_join_r_def)
  then have "inbox 6 (out ?s1) = [uchange_msg [entry_of s1 0]]"
    by (simp add: u(6) alone join_outs_def u(1-3) inbox_def to_all_def fd_of_def)
  ultimately show ?thesis using u(1,3) by auto
qed

theorem clients_in_sync_witness:
  "\<exists>s' u d. server_run [EMSG 6 hello] (model_init blank) = Inr s' \<and> uheap s' 0 = Some u \<and>
    fold_flow handle_um (map Um_recv (inbox (u_fd u) (out s'))) fresh_client = Inr (Go d) \<and>
    roster d = directory s' \<and> ready d"
proof -
  obtain s' u where s': "server_run [EMSG 6 hello] (model_init blank) = Inr s'" "find_id 6 s' = Some 0"
    "uheap s' 0 = Some u" using bob_joins by blast
  have "list_all entry_ok [EMSG 6 hello]" by (simp add: entry_ok_def)
  from clients_in_sync [OF blank_fields this s' fresh_client_init fresh_client_gs(1)] s'
  show ?thesis by blast
qed

section \<open>The main loop\<close>



section \<open>The user list\<close>

lemma first_u16_0: "first_u16 e 0 = 0"
  by (cases e) (simp_all add: first_u16_def enc32_def dec16_def be32_def be16_def hi8_def lo8_def hi16_def lo16_def mk16_def)

text \<open>The items made of the users of a consistent table.\<close>

lemma items_of_table:
  fixes self :: u16 and sb :: sort_by_t
  assumes "table_ok c"
  defines "us \<equiv> users_of (cl_heap c) (cl_tree c)"
  defines "items \<equiv> sorted_items sb (map (item_of self) us)"
  shows "it_cmd ` set items = {Uc_chl_user i sc (nick_copy n) |i n st sc. roster c i = Some (n, st, sc)}"
    and "distinct (map it_cmd items)"
    and "\<forall>i n st sc. roster c i = Some (n, st, sc) \<longrightarrow> small_score sc \<Longrightarrow>
      sorted_wrt (\<lambda>x y. cmp_item_for_sort sb x y \<le> 0) items"
proof -
  have tree: "set (cl_tree c) = dom (cl_heap c)" "tree_ok cmp_by_id (cl_heap c) (cl_tree c)"
    using assms(1) by (auto simp: table_ok_def)
  have us: "set us = ran (cl_heap c)"
    by (auto simp: us_def users_of_def tree(1) ran_def dom_def image_iff) (metis option.sel)+
  have set: "set items = item_of self ` ran (cl_heap c)" by (simp add: items_def sorted_items_eq us)
  have cmd: "it_cmd (item_of self u) = Uc_chl_user (u_id u) (u_score u) (nick_copy (u_nickname u))" for u
    by (simp add: item_of_def)
  have ran: "u \<in> ran (cl_heap c) \<Longrightarrow> roster c (u_id u) = Some (info_of u)" for u
    by (auto simp: roster_Some_iff [OF assms(1)] ran_def)
  show "it_cmd ` set items = {Uc_chl_user i sc (nick_copy n) |i n st sc. roster c i = Some (n, st, sc)}"
    by (auto simp: set cmd image_image roster_Some_iff [OF assms(1)] info_of_def ran_def) blast
  have "inj_on (\<lambda>p. it_cmd (item_of self (the (cl_heap c p)))) (set (cl_tree c))"
  proof (rule inj_onI)
    fix p q assume pq: "p \<in> set (cl_tree c)" "q \<in> set (cl_tree c)"
      "it_cmd (item_of self (the (cl_heap c p))) = it_cmd (item_of self (the (cl_heap c q)))"
    then obtain u v where "cl_heap c p = Some u" "cl_heap c q = Some v" by (auto simp: tree(1))
    with pq(3) same_id_same_user [OF assms(1), of p u q v] show "p = q" by (simp add: cmd)
  qed
  with by_id.tree_ok_distinct [OF tree(2)] have "distinct (map it_cmd (map (item_of self) us))"
    by (simp add: us_def users_of_def distinct_map comp_def)
  moreover have "mset (map it_cmd items) = mset (map it_cmd (map (item_of self) us))"
    by (simp only: items_def mset_map sorted_items_mset)
  ultimately show "distinct (map it_cmd items)" using mset_eq_imp_distinct_iff by fastforce
  assume small: "\<forall>i n st sc. roster c i = Some (n, st, sc) \<longrightarrow> small_score sc"
  have "\<forall>i \<in> set (map (item_of self) us). small_score (chl_score (it_cmd i))"
    using small ran by (fastforce simp: us cmd info_of_def)
  then show "sorted_wrt (\<lambda>x y. cmp_item_for_sort sb x y \<le> 0) items"
    by (simp add: items_def sorted_items_eq sort_items_sorted)
qed



end
