(* ===== verification/ClientDuel.thy ===== *)
theory ClientDuel imports ClientScenes Sync ServerProps begin

text \<open>
  The client as a partner of the server: whose messages it sends, when it acts, and what
  the server makes of its answers to challenges.
\<close>

section \<open>Steps of the loop\<close>

lemma fold_flow_bound:
  fixes pot :: "'s \<Rightarrow> nat"
  assumes "fold_flow f xs s = Inr r"
    and "\<And>x s r. x \<in> set xs \<Longrightarrow> f x s = Inr r \<Longrightarrow> pot (flow_state r) \<le> pot s + w x"
  shows "pot (flow_state r) \<le> pot s + sum_list (map w xs)"
  using assms
proof (induction xs arbitrary: s)
  case (Cons x xs)
  from Cons.prems(1) obtain r1 where r1: "f x s = Inr r1"
    "(case r1 of Go s' \<Rightarrow> fold_flow f xs s' | Leave s' \<Rightarrow> Inr (Leave s')) = Inr r"
    by (auto simp: bind_r_eq_Inr)
  have b: "pot (flow_state r1) \<le> pot s + w x" using Cons.prems(2) r1(1) by simp
  show ?case
  proof (cases r1)
    case (Leave s')
    with r1(2) b show ?thesis by auto
  next
    case (Go s')
    with r1(2) Cons.IH [of s'] Cons.prems(2) b show ?thesis by fastforce
  qed
qed auto

lemma fold_flow_invariant:
  assumes "fold_flow f xs s = Inr r" and "P s"
    and "\<And>x s r. x \<in> set xs \<Longrightarrow> f x s = Inr r \<Longrightarrow> P s \<Longrightarrow> P (flow_state r)"
  shows "P (flow_state r)"
  using assms
proof (induction xs arbitrary: s)
  case (Cons x xs)
  from Cons.prems(1) obtain r1 where r1: "f x s = Inr r1"
    "(case r1 of Go s' \<Rightarrow> fold_flow f xs s' | Leave s' \<Rightarrow> Inr (Leave s')) = Inr r"
    by (auto simp: bind_r_eq_Inr)
  have p: "P (flow_state r1)" using Cons.prems(3) [OF _ r1(1) Cons.prems(2)] by simp
  show ?case
  proof (cases r1)
    case (Leave s')
    with r1(2) p show ?thesis by auto
  next
    case (Go s')
    have "P s'" using p Go by simp
    moreover have "fold_flow f xs s' = Inr r" using r1(2) Go by simp
    ultimately show ?thesis using Cons.IH Cons.prems(3) by auto
  qed
qed auto

text \<open>What a part of the loop leaves of the game and of the messages sent.\<close>

definition same_game :: "client_t \<Rightarrow> client_t \<Rightarrow> bool" where
  "same_game c d \<longleftrightarrow> cl_sent d = cl_sent c \<and> g_id (cl_gs d) = g_id (cl_gs c) \<and>
     g_key (cl_gs d) = g_key (cl_gs c) \<and> g_acted (cl_gs d) = g_acted (cl_gs c) \<and>
     g_opponent_id (cl_gs d) = g_opponent_id (cl_gs c) \<and> cl_waiting d = cl_waiting c"

lemma same_game_refl [simp]: "same_game c c"
  by (simp add: same_game_def)

lemma same_game_trans: "same_game c d \<Longrightarrow> same_game d e \<Longrightarrow> same_game c e"
  by (simp add: same_game_def)

lemma table_change_game: "table_change v c = Inr d \<Longrightarrow> same_game c d"
  by (auto simp: table_change_def Let_def bind_r_eq_Inr same_game_def say_chat_def
      split: if_splits option.splits prod.splits)

lemma on_change_game: "on_change v c = Inr r \<Longrightarrow> same_game c (flow_state r)"
proof -
  assume r: "on_change v c = Inr r"
  show ?thesis
  proof (cases "uu_id v = g_id (cl_gs c) \<and> uu_state v = 0")
    case True
    with r show ?thesis by (auto simp: on_change_def)
  next
    case False
    define c1 where "c1 = (if uu_id v = g_id (cl_gs c) then
        set_gs (\<lambda>gs. gs\<lparr>g_nickname := nick_copy (cstr (uu_nickname v)), g_state := ucast (uu_state v)\<rparr>)
          (c\<lparr>cl_state_updated := True\<rparr>) else c)"
    define c2 where "c2 = (if uu_id v = g_opponent_id (cl_gs c1) then
        set_gs (\<lambda>gs. gs\<lparr>g_opponent_name := nick_copy (cstr (uu_nickname v))\<rparr>)
          (c1\<lparr>cl_state_updated := True\<rparr>) else c1)"
    have "same_game c c2" by (simp add: same_game_def c2_def c1_def set_gs_def)
    moreover from r False obtain d where "table_change v c2 = Inr d" "r = Go d"
      unfolding on_change_def Let_def c1_def [symmetric] c2_def [symmetric] by (auto simp: bind_r_eq_Inr)
    ultimately show ?thesis using table_change_game same_game_trans by fastforce
  qed
qed

lemma on_uchange_game: "on_uchange u c = Inr r \<Longrightarrow> same_game c (flow_state r)"
  unfolding on_uchange_def
  by (erule fold_flow_invariant [where P = "same_game c"]) (auto intro: same_game_trans on_change_game)

lemma refresh_list_game: "refresh_list cs e c = Inr d \<Longrightarrow> same_game c d"
  by (auto simp: refresh_list_def Let_def bind_r_eq_Inr same_game_def split: if_splits focusable_t.splits)

lemma draw_states_game: "draw_states c = Inr d \<Longrightarrow> same_game c d"
  by (auto simp: draw_states_def Let_def bind_r_eq_Inr same_game_def split: if_splits)

lemma move_focus_game: "same_game c (move_focus cs new c)"
  by (simp add: move_focus_def same_game_def case_prod_beta Let_def)

lemma ui_round_cases:
  assumes "ui_round cs e inp c = Inr r"
  obtains (leave) c' where "fold_flow handle_um (fst inp) c = Inr (Leave c')" and "r = Leave c'"
  | (go) c1 c3 where "fold_flow handle_um (fst inp) c = Inr (Go c1)" and "same_game c1 c3"
      and "fold_flow (handle_key cs) (snd inp) c3 = Inr r"
proof -
  from assms obtain r1 where r1: "fold_flow handle_um (fst inp) c = Inr r1"
    "(case r1 of Leave c' \<Rightarrow> Inr (Leave c') | Go c1 \<Rightarrow> bind_r (refresh_list cs e c1) (\<lambda>c2.
       bind_r (draw_states c2) (fold_flow (handle_key cs) (snd inp)))) = Inr r"
    unfolding ui_round_def by (rule bind_r_InrE) blast
  show thesis
  proof (cases r1)
    case (Leave c')
    with r1 have "fold_flow handle_um (fst inp) c = Inr (Leave c')" "r = Leave c'" by auto
    then show thesis by (rule leave)
  next
    case (Go c1)
    with r1(2) obtain c2 c3 where "refresh_list cs e c1 = Inr c2" "draw_states c2 = Inr c3"
      "fold_flow (handle_key cs) (snd inp) c3 = Inr r" by (auto simp: bind_r_eq_Inr)
    with go [of c1 c3] r1(1) Go same_game_trans [OF refresh_list_game draw_states_game] show thesis by blast
  qed
qed

lemma lobby_client_gs: "g_id (cl_gs lobby_client) = 6" "g_key (cl_gs lobby_client) = 22"
  "g_opponent_id (cl_gs lobby_client) = 0" "g_acted (cl_gs lobby_client)" "cl_waiting lobby_client = W_NONE"
  "cl_sent lobby_client = []"
proof -
  have "\<exists>u. on_uchange u fresh_client = Inr (Go lobby_client)"
    using lobby_client_kept(1) by (auto simp: handle_um_def two_users_def uchange_msg_def)
  then have "same_game fresh_client lobby_client" using on_uchange_game by fastforce
  then show "g_id (cl_gs lobby_client) = 6" "g_key (cl_gs lobby_client) = 22"
    "g_opponent_id (cl_gs lobby_client) = 0" "g_acted (cl_gs lobby_client)" "cl_waiting lobby_client = W_NONE"
    "cl_sent lobby_client = []"
    using fresh_client_gs by (simp_all add: same_game_def)
qed

section \<open>Whose messages the client sends\<close>

text \<open>
  The message comes from the user \<open>i\<close> with the key \<open>k\<close>, in the part that the server takes as
  its sender: for a challenge that is the user whose key must come with the action.
\<close>

definition signed :: "u16 \<Rightarrow> u32 \<Rightarrow> message_t \<Rightarrow> bool" where
  "signed i k m = (case m_body m of
     Challenge c \<Rightarrow> c_key c = k \<and> challenge_signer (c_action c) (c_id1 c) (c_id2 c) = Some i
   | Turn t \<Rightarrow> t_user t = i \<and> t_key t = k
   | Sendmsg sm \<Rightarrow> sm_id sm = i \<and> sm_key sm = k
   | Quit q \<Rightarrow> qt_id q = i \<and> qt_key q = k
   | _ \<Rightarrow> False)"

text \<open>The requests that are relayed are for the user \<open>i\<close>.\<close>

definition addressed :: "u16 \<Rightarrow> ui_msg_t \<Rightarrow> bool" where
  "addressed i um = (case um of Um_recv m \<Rightarrow> (case m_body m of Challenge c \<Rightarrow> c_id2 c = i | _ \<Rightarrow> True)
     | Um_disconn _ _ \<Rightarrow> True)"

definition signs :: "u16 \<Rightarrow> u32 \<Rightarrow> client_t \<Rightarrow> bool" where
  "signs i k c \<longleftrightarrow> g_id (cl_gs c) = i \<and> g_key (cl_gs c) = k \<and> list_all (signed i k) (cl_sent c)"

lemma signs_same_game: "same_game c d \<Longrightarrow> signs i k c \<Longrightarrow> signs i k d"
  by (simp add: signs_def same_game_def)

lemma signed_simps [simp]:
  "signed i k (reply_challenge a h x y k') \<longleftrightarrow> k' = k \<and> challenge_signer a x y = Some i"
  "signed i k (turn_message gs act) \<longleftrightarrow> g_id gs = i \<and> g_key gs = k"
  "signed i k (quit_message gs) \<longleftrightarrow> g_id gs = i \<and> g_key gs = k"
  "signed i k (fst (chat_message cs gs f)) \<longleftrightarrow> g_id gs = i \<and> g_key gs = k"
  by (simp_all add: signed_def reply_challenge_def turn_message_def quit_message_def chat_message_def Let_def)

lemma challenge_signer_simps [simp]:
  "challenge_signer C_START x y = Some x" "challenge_signer C_CANCEL x y = Some x"
  "challenge_signer C_ACCEPT x y = Some y" "challenge_signer C_REJECT x y = Some y"
  by (simp_all add: challenge_signer_def)

lemma handle_um_signs:
  assumes "handle_um um c = Inr r" and "addressed i um" and "signs i k c"
  shows "signs i k (flow_state r)"
proof (cases um)
  case (Um_disconn a b)
  with assms show ?thesis by (auto simp: handle_um_def)
next
  case (Um_recv m)
  note h = assms(1) [unfolded handle_um_def Um_recv ui_msg_t.case]
  show ?thesis
  proof (cases "m_body m")
    case (Sendmsg sm)
    with h assms(3) show ?thesis by (auto simp: bind_r_eq_Inr on_sendmsg_def signs_def say_defs)
  next
    case (Turn_r t)
    with h assms(3) show ?thesis by (auto simp: on_turn_r_def Let_def signs_def say_defs)
  next
    case (Challenge ch)
    have "signs i k d" if "on_challenge ch c = Inr d" for d
      using that assms(2,3) Um_recv Challenge
      by (auto simp: on_challenge_def bind_r_eq_Inr signs_def say_defs addressed_def split: if_splits)
    with h Challenge show ?thesis by (auto simp: bind_r_eq_Inr)
  next
    case (Challenge_r ch)
    have "signs i k d" if "on_challenge_r ch c = Inr d" for d
      using that assms(3) by (auto simp: on_challenge_r_def Let_def bind_r_eq_Inr signs_def say_defs split: if_splits)
    with h Challenge_r show ?thesis by (auto simp: bind_r_eq_Inr)
  next
    case (Uchange u)
    with h have "on_uchange u c = Inr r" by simp
    from signs_same_game [OF on_uchange_game [OF this] assms(3)] show ?thesis .
  qed (use h assms(3) in auto)
qed

lemma on_command_signs:
  assumes "on_command cs cmd c = Inr r" and "signs i k c"
  shows "signs i k (flow_state r)"
  using assms
  by (cases cmd) (auto simp: on_command_def Let_def signs_def say_defs case_prod_beta split: if_splits focusable_t.splits)

lemma handle_key_cases:
  assumes "handle_key cs key c = Inr r"
  obtains (cancel) "cl_waiting c = W_CANCEL" and
      "r = Go ((send_out (reply_challenge C_CANCEL 0 (g_id (cl_gs c)) (g_opponent_id (cl_gs c)) (g_key (cl_gs c))) c)
        \<lparr>cl_popup := None, cl_waiting := W_NONE\<rparr>)"
  | (answer) a where "cl_waiting c = W_ACCEPT" and "a = C_ACCEPT \<or> a = C_REJECT" and
      "r = Go ((send_out (reply_challenge a (g_chid (cl_gs c)) (g_opponent_id (cl_gs c)) (g_id (cl_gs c))
        (g_key (cl_gs c))) c)\<lparr>cl_popup := None, cl_waiting := W_NONE\<rparr>)"
  | (quiet) d where "same_game c d" and "r = Go d"
  | (command) d cmd where "same_game c d" and "on_command cs cmd d = Inr r"
proof (cases "cl_waiting c")
  case W_CANCEL
  with assms cancel show thesis by (simp add: handle_key_def Let_def)
next
  case W_ACCEPT
  have "C_ACCEPT = C_ACCEPT \<or> C_ACCEPT = C_REJECT" "C_REJECT = C_ACCEPT \<or> C_REJECT = C_REJECT" by simp_all
  with assms W_ACCEPT answer [of C_ACCEPT] answer [of C_REJECT] quiet [of c] show thesis
    by (auto simp: handle_key_def Let_def split: if_splits)
next
  case W_NONE
  show thesis
  proof (cases "key = 9 \<or> key = KEY_BTAB cs")
    case True
    with assms W_NONE quiet move_focus_game [of c cs] show thesis
      by (auto simp: handle_key_def split: if_splits)
  next
    case False
    with assms W_NONE obtain cmd foc where k: "(case cmd of None \<Rightarrow> Inr (Go (c\<lparr>cl_foci := (cl_foci c)[cl_focus_idx c := foc]\<rparr>))
      | Some u \<Rightarrow> on_command cs u (c\<lparr>cl_foci := (cl_foci c)[cl_focus_idx c := foc]\<rparr>)) = Inr r"
      by (auto simp: handle_key_def bind_r_eq_Inr Let_def)
    have g: "same_game c (c\<lparr>cl_foci := (cl_foci c)[cl_focus_idx c := foc]\<rparr>)" by (simp add: same_game_def)
    show thesis
    proof (cases cmd)
      case None
      with k quiet [OF g] show thesis by auto
    next
      case (Some u)
      with k command [OF g] show thesis by simp
    qed
  qed
qed

lemma handle_key_signs:
  assumes "handle_key cs key c = Inr r" and "signs i k c"
  shows "signs i k (flow_state r)"
  using assms(1)
proof (cases rule: handle_key_cases)
  case (answer a)
  with assms(2) show ?thesis by (auto simp: signs_def say_defs)
next
  case (command d cmd)
  with assms(2) signs_same_game on_command_signs show ?thesis by blast
qed (use assms(2) signs_same_game in \<open>auto simp: signs_def say_defs\<close>)

lemma ui_round_signs:
  assumes "ui_round cs e inp c = Inr r" and "list_all (addressed i) (fst inp)" and "signs i k c"
  shows "signs i k (flow_state r)"
proof -
  have um: "signs i k (flow_state x)" if "fold_flow handle_um (fst inp) c = Inr x" for x
    using that assms(3)
    by (rule fold_flow_invariant) (use handle_um_signs assms(2) in \<open>auto simp: list_all_iff\<close>)
  from assms(1) show ?thesis
  proof (cases rule: ui_round_cases)
    case (leave c')
    with um show ?thesis by simp
  next
    case (go c1 c3)
    have "signs i k c3" using um [OF go(1)] signs_same_game [OF go(2)] by simp
    with go(3) show ?thesis by (rule fold_flow_invariant) (rule handle_key_signs)
  qed
qed



section \<open>One turn for each turn\<close>

definition is_turn :: "message_t \<Rightarrow> bool" where
  "is_turn m = (case m_body m of Turn _ \<Rightarrow> True | _ \<Rightarrow> False)"

definition turns_sent :: "client_t \<Rightarrow> nat" where
  "turns_sent c = length (filter is_turn (cl_sent c))"

text \<open>\<open>TURN_R\<close> messages that ask for an action.\<close>

definition asks_turn :: "ui_msg_t \<Rightarrow> nat" where
  "asks_turn um = (case um of Um_recv m \<Rightarrow> (case m_body m of Turn_r r \<Rightarrow> of_bool (tr_fin r = 0) | _ \<Rightarrow> 0)
     | Um_disconn _ _ \<Rightarrow> 0)"

definition may_turn :: "client_t \<Rightarrow> nat" where
  "may_turn c = turns_sent c + of_bool (\<not> g_acted (cl_gs c))"

lemma may_turn_same_game: "same_game c d \<Longrightarrow> may_turn d = may_turn c"
  by (simp add: may_turn_def turns_sent_def same_game_def)

lemma is_turn_simps [simp]: "\<not> is_turn (reply_challenge a h x y k)" "is_turn (turn_message gs act)"
  "\<not> is_turn (fst (chat_message cs gs f))"
  by (simp_all add: is_turn_def reply_challenge_def turn_message_def chat_message_def Let_def)

lemma handle_um_turns:
  assumes "handle_um um c = Inr r"
  shows "may_turn (flow_state r) \<le> may_turn c + asks_turn um"
proof (cases um)
  case (Um_disconn a b)
  with assms show ?thesis by (auto simp: handle_um_def)
next
  case (Um_recv m)
  note h = assms(1) [unfolded handle_um_def Um_recv ui_msg_t.case]
  show ?thesis
  proof (cases "m_body m")
    case (Sendmsg sm)
    with h show ?thesis by (auto simp: bind_r_eq_Inr on_sendmsg_def may_turn_def turns_sent_def say_defs)
  next
    case (Turn_r t)
    with h show ?thesis unfolding Um_recv
      by (auto simp: on_turn_r_def Let_def may_turn_def turns_sent_def say_defs asks_turn_def)
  next
    case (Challenge ch)
    have "may_turn d = may_turn c" if "on_challenge ch c = Inr d" for d
      using that
      by (auto simp: on_challenge_def bind_r_eq_Inr may_turn_def turns_sent_def say_defs split: if_splits)
    with h Challenge show ?thesis by (auto simp: bind_r_eq_Inr)
  next
    case (Challenge_r ch)
    have "may_turn d \<le> may_turn c" if "on_challenge_r ch c = Inr d" for d
      using that
      by (auto simp: on_challenge_r_def Let_def bind_r_eq_Inr may_turn_def turns_sent_def say_defs split: if_splits)
    with h Challenge_r show ?thesis by (auto simp: bind_r_eq_Inr intro: trans_le_add1)
  next
    case (Uchange u)
    with h have "on_uchange u c = Inr r" by simp
    with may_turn_same_game [OF on_uchange_game] show ?thesis by simp
  qed (use h in auto)
qed

lemma on_command_turns:
  assumes "on_command cs cmd c = Inr r"
  shows "may_turn (flow_state r) \<le> may_turn c"
  using assms
  by (cases cmd) (auto simp: on_command_def Let_def may_turn_def turns_sent_def say_defs case_prod_beta
      split: if_splits focusable_t.splits)

lemma handle_key_turns:
  assumes "handle_key cs key c = Inr r"
  shows "may_turn (flow_state r) \<le> may_turn c"
  using assms
proof (cases rule: handle_key_cases)
  case (command d cmd)
  with on_command_turns [of cs cmd d r] may_turn_same_game [of c d] show ?thesis by simp
next
  case (quiet d)
  with may_turn_same_game [of c d] show ?thesis by simp
qed (auto simp: may_turn_def turns_sent_def say_defs)

lemma ui_round_turns:
  assumes "ui_round cs e inp c = Inr r"
  shows "may_turn (flow_state r) \<le> may_turn c + sum_list (map asks_turn (fst inp))"
proof -
  have um: "may_turn (flow_state x) \<le> may_turn c + sum_list (map asks_turn (fst inp))"
    if "fold_flow handle_um (fst inp) c = Inr x" for x
    using that by (rule fold_flow_bound) (rule handle_um_turns)
  from assms show ?thesis
  proof (cases rule: ui_round_cases)
    case (leave c')
    with um show ?thesis by simp
  next
    case (go c1 c3)
    have "may_turn (flow_state r) \<le> may_turn c3 + sum_list (map (\<lambda>_. 0) (snd inp))"
      using go(3) by (rule fold_flow_bound) (simp add: handle_key_turns)
    with um [OF go(1)] may_turn_same_game [OF go(2)] show ?thesis by simp
  qed
qed



section \<open>Challenges between client and server\<close>

lemma key_y: "(121::int) = 121 \<or> (121::int) = 89" by simp

text \<open>
  C10: a request that the server relays to a client at rest, answered with \<open>y\<close>, starts the
  battle on the server: the client's reply is the one message it sends, and the server
  handles it without a fault and puts both users into the battle of that challenge.
\<close>

theorem yes_starts_battle:
  assumes "server_inv s" and "user_at i s = Some u1" and "user_at j s = Some u2"
    and "u_state u1 = UONLINE" and "u_state u2 = UONLINE"
    and "find_ch h s = Some pch" and "cheap s pch = Some ch" and "ch_state ch = ASKING"
    and "user1 ch = i" and "user2 ch = j"
    and "client_inv c" and "g_id (cl_gs c) = j" and "g_key (cl_gs c) = u_key u2" and "cl_waiting c = W_NONE"
    and "c_action q = C_START" and "c_id1 q = i"
  shows "\<exists>c1 c2 m s'. handle_um (Um_recv (relay_msg q h)) c = Inr (Go c1) \<and>
    handle_key cs 121 c1 = Inr (Go c2) \<and> cl_sent c2 = cl_sent c @ [m] \<and> cl_waiting c2 = W_NONE \<and>
    handle_entry (EMSG fd m) s = Inr s' \<and>
    lobby s' = ((players_of s)(i \<mapsto> (UBATTLING, h), j \<mapsto> (UBATTLING, h)),
      (duels_of s)(h \<mapsto> (i, j, STARTED)))"
proof -
  have "table_ok c" using assms(11) by (simp add: client_inv_def)
  then obtain n where n: "nickname_or (bytes ''<unknown>'') i c = Inr n"
    by (rule nickname_or_ok)
  let ?popup = "bytes ''You are being challenged by `'' @ n @ [39] @ bytes ''. Join battle? (Y/N)''"
  let ?c1 = "set_gs (\<lambda>gs. gs\<lparr>g_chid := h, g_opponent_id := i\<rparr>)
    (c\<lparr>cl_waiting := W_ACCEPT, cl_popup := Some ?popup\<rparr>)"
  let ?m = "reply_challenge C_ACCEPT h i j (u_key u2)"
  let ?c2 = "(send_out ?m ?c1)\<lparr>cl_popup := None, cl_waiting := W_NONE\<rparr>"
  let ?q = "\<lparr>c_id1 = i, c_id2 = j, c_key = u_key u2, c_chid = h, c_action = C_ACCEPT\<rparr>"
  obtain s' where s': "handle_challenge fd ?q s = Inr s'"
    "lobby s' = ((players_of s)(i \<mapsto> (UBATTLING, h), j \<mapsto> (UBATTLING, h)), (duels_of s)(h \<mapsto> (i, j, STARTED)))"
    using accept_starts [of s ?q u1 u2 pch ch fd] assms(1-10) by auto
  show ?thesis
  proof (rule exI [of _ ?c1], rule exI [of _ ?c2], rule exI [of _ ?m], rule exI [of _ s'], intro conjI)
    show "handle_um (Um_recv (relay_msg q h)) c = Inr (Go ?c1)"
      using assms(14-16) n by (simp add: handle_um_def relay_msg_def on_challenge_def)
    show "handle_key cs 121 ?c1 = Inr (Go ?c2)"
      using assms(12,13) by (simp add: handle_key_def set_gs_def send_out_def Let_def)
    show "handle_entry (EMSG fd ?m) s = Inr s'"
      using s'(1) by (simp add: handle_entry_def reply_challenge_def)
    show "lobby s' = ((players_of s)(i \<mapsto> (UBATTLING, h), j \<mapsto> (UBATTLING, h)),
        (duels_of s)(h \<mapsto> (i, j, STARTED)))" by (rule s'(2))
  qed (simp_all add: say_defs)
qed

theorem yes_starts_battle_witness:
  "\<exists>c1 c2 m s'. handle_um (Um_recv (relay_msg start_req 9)) lobby_client = Inr (Go c1) \<and>
    handle_key plain_curses 121 c1 = Inr (Go c2) \<and> cl_sent c2 = [m] \<and>
    handle_entry (EMSG 6 m) (scene UONLINE 9 (Some (duel 5 6 ASKING))) = Inr s' \<and>
    players_of s' 5 = Some (UBATTLING, 9) \<and> players_of s' 6 = Some (UBATTLING, 9)"
proof -
  let ?s = "scene UONLINE 9 (Some (duel 5 6 ASKING))"
  have "\<exists>c1 c2 m s'. handle_um (Um_recv (relay_msg start_req 9)) lobby_client = Inr (Go c1) \<and>
    handle_key plain_curses 121 c1 = Inr (Go c2) \<and> cl_sent c2 = cl_sent lobby_client @ [m] \<and>
    cl_waiting c2 = W_NONE \<and> handle_entry (EMSG 6 m) ?s = Inr s' \<and>
    lobby s' = ((players_of ?s)(5 \<mapsto> (UBATTLING, 9), 6 \<mapsto> (UBATTLING, 9)),
      (duels_of ?s)(9 \<mapsto> (5, 6, STARTED)))"
    by (rule yes_starts_battle [of ?s 5 "alice UONLINE 9" 6 "bob UONLINE 9" 9 2 "duel 5 6 ASKING"])
      (use lobby_client_ready in \<open>simp_all add: scene_inv ch_wf_duel user_at_def lobby_client_gs start_req_def
          ready_def\<close>)
  then show ?thesis by (auto simp: lobby_def lobby_client_gs)
qed

text \<open>
  C16: a request cannot be cancelled by a client that has had no opponent yet: the message
  names the id 0 as the other user instead of the one who was asked, the server answers
  that there is no such user, and the challenge stays open.
\<close>

theorem cancel_goes_astray:
  assumes "cl_waiting c = W_NONE" and "g_opponent_id (cl_gs c) = 0" and "i \<noteq> g_id (cl_gs c)"
    and "find_id 0 s = None"
  shows "\<exists>c1 c2 m1 m2 s' x r. on_command cs (Uc_chl_user i sc n) c = Inr (Go c1) \<and>
    handle_key cs key c1 = Inr (Go c2) \<and> cl_sent c2 = cl_sent c @ [m1, m2] \<and>
    handle_entry (EMSG fd m2) s = Inr s' \<and> lobby s' = lobby s \<and> out s' = out s @ [(fd, x)] \<and>
    m_body x = Challenge_r r \<and> cr_error r = NXID"
proof -
  let ?gs = "cl_gs c"
  let ?m1 = "reply_challenge C_START 0 (g_id ?gs) i (g_key ?gs)"
  let ?m2 = "reply_challenge C_CANCEL 0 (g_id ?gs) 0 (g_key ?gs)"
  let ?c1 = "(send_out ?m1 c)\<lparr>cl_waiting := W_CANCEL, cl_popup := Some (bytes ''Inviting `'' @ n @ [39] @
    bytes '' to battle (press any key to cancel)...'')\<rparr>"
  let ?c2 = "(send_out ?m2 ?c1)\<lparr>cl_popup := None, cl_waiting := W_NONE\<rparr>"
  let ?q = "\<lparr>c_id1 = g_id ?gs, c_id2 = 0, c_key = g_key ?gs, c_chid = 0, c_action = C_CANCEL\<rparr>"
  let ?x = "challenge_r_msg ?q NXID False"
  have "on_command cs (Uc_chl_user i sc n) c = Inr (Go ?c1)"
    using assms(3) by (simp add: on_command_def Let_def)
  moreover have "handle_key cs key ?c1 = Inr (Go ?c2)"
    using assms(2) by (simp add: handle_key_def send_out_def Let_def)
  moreover have "cl_sent ?c2 = cl_sent c @ [?m1, ?m2]" by (simp add: send_out_def)
  moreover have "handle_entry (EMSG fd ?m2) s = Inr (send_msg fd ?x s)"
    using assms(4) by (simp add: handle_entry_def reply_challenge_def handle_challenge_def split: option.split)
  moreover have "out (send_msg fd ?x s) = out s @ [(fd, ?x)]" "lobby (send_msg fd ?x s) = lobby s" by simp_all
  moreover have "\<exists>r. m_body ?x = Challenge_r r \<and> cr_error r = NXID" by (simp add: challenge_r_msg_def)
  ultimately show ?thesis by blast
qed

theorem cancel_goes_astray_witness:
  "\<exists>c1 c2 m1 m2 s'. on_command plain_curses (Uc_chl_user 5 0 [97]) lobby_client = Inr (Go c1) \<and>
    handle_key plain_curses 27 c1 = Inr (Go c2) \<and> cl_sent c2 = [m1, m2] \<and>
    handle_entry (EMSG 6 m2) (scene UONLINE 9 (Some (duel 6 5 ASKING))) = Inr s' \<and>
    duels_of s' 9 = Some (6, 5, ASKING)"
proof -
  have "duels_of (scene UONLINE 9 (Some (duel 6 5 ASKING))) 9 = Some (6, 5, ASKING)"
    by (simp add: duels_of_def)
  moreover have "(5::u16) \<noteq> g_id (cl_gs lobby_client)" by (simp add: lobby_client_gs)
  ultimately show ?thesis
    using cancel_goes_astray [of lobby_client 5 "scene UONLINE 9 (Some (duel 6 5 ASKING))" plain_curses 0 "[97]" 27 6]
    by (auto simp: lobby_client_gs lobby_def)
qed

section \<open>The turns of a battle\<close>

text \<open>
  The \<open>TURN_R\<close> message of the server puts the server's hit points of both sides into
  the client, its own and the opponent's, and either gives it the next turn, or ends the
  battle with the right announcement of the winner.
\<close>

theorem turn_r_shows_battle:
  "\<exists>d. handle_um (Um_recv (turn_r_msg ch w)) c = Inr (Go d) \<and>
    (let gs = cl_gs d; (own, opp) = (if g_is_user1 (cl_gs c) then (hp1 ch, hp2 ch) else (hp2 ch, hp1 ch))
     in g_hp gs = own \<and> g_opponent_hp gs = opp \<and> cl_state_updated d \<and>
       (case w of
          None \<Rightarrow> g_turn_no gs = turn_no ch \<and> \<not> g_acted gs
        | Some winner \<Rightarrow> g_acted gs \<and> g_turn_no gs = g_turn_no (cl_gs c) \<and>
            cl_battle_log d = cl_battle_log c @ [bytes ''Battle ended -- your '' @
              (if g_id (cl_gs c) = winner then bytes ''victory!'' else bytes ''defeat...'') @ [10]]))"
  by (simp add: handle_um_def turn_r_msg_def on_turn_r_def Let_def say_defs split: option.split)

end
