(* ===== verification/ClientLimits.thy ===== *)
theory ClientLimits imports ClientScenes ClientLogin begin

text \<open>
  The login screen, and what stops or misleads the client: keys it does not expect, and a
  server that goes away.
\<close>

section \<open>Logging in\<close>

lemma login_run_result:
  "login_inv s \<Longrightarrow> case login_run cs strerr inps s of
    Inr s' \<Rightarrow> login_inv s' | Inl st \<Rightarrow> \<exists>msg. st = Stop_exit (Exit 1 msg)"
proof (induction inps arbitrary: s)
  case Nil
  then show ?case by (simp add: login_run_def)
next
  case (Cons inp inps)
  from login_step_result [OF Cons.prems, of cs strerr inp] Cons.IH show ?case
    by (cases "login_step cs strerr inp s") (simp_all add: login_run_def)
qed


text \<open>What the receiving thread delivers, without the answer to the \<open>JOIN\<close>.\<close>

definition no_answer :: "message_t \<Rightarrow> bool" where
  "no_answer m = (case m_body m of Join_r _ \<Rightarrow> False | _ \<Rightarrow> True)"

definition no_message :: "login_in \<Rightarrow> bool" where
  "no_message inp = (case inp of Take _ \<Rightarrow> False | _ \<Rightarrow> True)"

lemma io_worker_in_end: "io_worker_in (map Inr ms @ [Inl err]) = map Um_recv ms @ [Um_disconn Thread_in err]"
  by (induction ms) simp_all

lemma login_run_append: "login_run cs strerr (xs @ ys) s = bind_r (login_run cs strerr xs s) (login_run cs strerr ys)"
  by (simp add: login_run_def [abs_def] fold_r_append)

lemma wait_for_answer:
  "l_state s = WAIT_MSG \<Longrightarrow> \<not> l_done s \<Longrightarrow> list_all no_answer ms \<Longrightarrow>
    \<exists>s'. login_run cs strerr (map Take (map Um_recv ms)) s = Inr s' \<and> l_state s' = WAIT_MSG \<and> \<not> l_done s'"
proof (induction ms arbitrary: s)
  case Nil
  then show ?case by (simp add: login_run_def)
next
  case (Cons m ms)
  let ?s1 = "login_message strerr (Um_recv m) s"
  have "l_state ?s1 = WAIT_MSG" "\<not> l_done ?s1"
    using Cons.prems by (auto simp: login_message_def no_answer_def split: msg_body_t.splits)
  with Cons.IH [of ?s1] Cons.prems show ?case by (simp add: login_run_def login_step_def)
qed

lemma wait_forever:
  "l_state s = WAIT_MSG \<Longrightarrow> \<not> l_done s \<Longrightarrow> list_all no_message inps \<Longrightarrow> login_run cs strerr inps s = Inr s"
  by (induction inps) (auto simp: login_run_def login_step_def no_message_def split: login_in.splits)

text \<open>
  C32: when the connection ends before the answer to the \<open>JOIN\<close>, the login screen says so and
  then waits forever: its only source of messages has ended, and no key is read in that
  state. It neither returns nor lets the user try again.
\<close>

theorem login_waits_forever:
  assumes "l_state s = WAIT_MSG" and "\<not> l_done s" and "list_all no_answer ms" and "list_all no_message inps"
  shows "\<exists>s'. login_run cs strerr (map Take (io_worker_in (map Inr ms @ [Inl err])) @ inps) s = Inr s' \<and>
    l_state s' = WAIT_MSG \<and> \<not> l_done s' \<and> \<not> l_connected s' \<and>
    l_info s' = take 255 (bytes ''Disconnected: '' @ strerr err)"
proof -
  obtain s1 where s1: "login_run cs strerr (map Take (map Um_recv ms)) s = Inr s1" "l_state s1 = WAIT_MSG" "\<not> l_done s1"
    using wait_for_answer [OF assms(1-3)] by blast
  let ?s2 = "login_message strerr (Um_disconn Thread_in err) s1"
  have s2: "login_run cs strerr [Take (Um_disconn Thread_in err)] s1 = Inr ?s2"
    using s1 by (simp add: login_run_def login_step_def)
  have w: "l_state ?s2 = WAIT_MSG" "\<not> l_done ?s2" using s1 by (simp_all add: login_message_def)
  have "login_run cs strerr (map Take (io_worker_in (map Inr ms @ [Inl err])) @ inps) s = Inr ?s2"
    unfolding io_worker_in_end map_append login_run_append s1(1) bind_r_Inr list.map s2
    by (rule wait_forever [OF w assms(4)])
  with w show ?thesis by (simp add: login_message_def)
qed

text \<open>A user who has typed a name, connected and sent the \<open>JOIN\<close>.\<close>

definition waiting_login :: login_t where
  "waiting_login = (login_init 0 client_args)\<lparr>l_state := WAIT_MSG, l_connected := True\<rparr>"

theorem login_waits_forever_witness:
  "\<exists>s'. login_run plain_curses (\<lambda>_. []) [Take (Um_disconn Thread_in 104), Key 27, Key 10, Nothing_read] waiting_login
      = Inr s' \<and> l_state s' = WAIT_MSG \<and> \<not> l_done s'"
proof -
  have "l_state waiting_login = WAIT_MSG" "\<not> l_done waiting_login"
    by (simp_all add: waiting_login_def login_init_def)
  from login_waits_forever [OF this, of "[]" "[Key 27, Key 10, Nothing_read]" plain_curses "\<lambda>_. []" 104]
  show ?thesis by (auto simp: no_message_def)
qed

section \<open>Keys\<close>

text \<open>
  A function key is cut to a byte: if that byte is a character of nicknames, it is typed.
  With the usual key codes the delete key types a \<open>J\<close>.
\<close>

lemma login_types_byte:
  assumes "login_inv s" and "c \<noteq> 10" and "\<not> is_bksp cs c"
    and "c \<notin> {KEY_DOWN cs, KEY_UP cs, KEY_LEFT cs, KEY_RIGHT cs}"
    and "is_nickchar (word_of_int c)" and "l_len s < 31"
  shows "take (l_len s + 1) (l_nick (login_key cs c s)) = take (l_len s) (l_nick s) @ [word_of_int c]"
    and "l_len (login_key cs c s) = l_len s + 1"
proof -
  have len: "length (l_nick s) = 32" using assms(1) by (simp add: login_inv_def nick_ok_def)
  have k: "login_key cs c s = s\<lparr>l_info := [], l_nick := (l_nick s)[l_len s := word_of_int c, l_len s + 1 := 0],
      l_len := l_len s + 1\<rparr>"
    using assms(2-6) by (simp add: login_key_def Let_def NICKNAME_LEN_def)
  show "l_len (login_key cs c s) = l_len s + 1" by (simp add: k)
  show "take (l_len s + 1) (l_nick (login_key cs c s)) = take (l_len s) (l_nick s) @ [word_of_int c]"
    using len assms(6) by (simp add: k take_Suc_conv_app_nth)
qed

lemma delete_types_J: "l_nick (login_key plain_curses 330 (login_init fd args)) = 74 # replicate 31 0"
proof -
  have b: "(word_of_int 330 :: byte) = 74" by simp
  have "is_nickchar 74" by (simp add: is_nickchar_iff word_le_nat_alt)
  then have "login_key plain_curses 330 s = s\<lparr>l_info := [], l_nick := (l_nick s)[l_len s := 74, l_len s + 1 := 0],
      l_len := l_len s + 1\<rparr>" if "l_len s = 0" for s
    using that unfolding login_key_def b Let_def by (simp add: is_bksp_def NICKNAME_LEN_def)
  from this [of "login_init fd args"] show ?thesis
    by (simp add: login_init_def NICKNAME_LEN_def numeral_eq_Suc)
qed



text \<open>
  A key code above 255 that the chat line does not know is passed to the functions of
  \<open>ctype.h\<close>, which are not defined there.
\<close>

lemma unknown_key_in_chat:
  assumes "cl_waiting c = W_NONE" and "cl_foci c ! cl_focus_idx c = F_form f hidden" and "255 < key"
    and "key \<notin> {KEY_DOWN cs, KEY_UP cs, KEY_LEFT cs, KEY_RIGHT cs, KEY_BACKSPACE cs, KEY_DC cs, KEY_BTAB cs}"
  shows "handle_key cs key c = Inl Undefined"
  using assms by (simp add: handle_key_def Let_def focus_handle_key_def form_key_def is_bksp_def text_key_def)

section \<open>Chat\<close>

definition rstrip :: "byte list \<Rightarrow> byte list" where
  "rstrip xs = rev (dropWhile isspace (rev xs))"

lemma strip_spaces_append:
  "strip_spaces (length xs) (xs @ zs) = rstrip xs @ replicate (length xs - length (rstrip xs)) 0 @ zs"
proof (induction xs arbitrary: zs rule: rev_induct)
  case Nil
  then show ?case by (simp add: rstrip_def)
next
  case (snoc x xs)
  show ?case
  proof (cases "isspace x")
    case True
    have "length (rstrip xs) \<le> length xs" by (metis rstrip_def length_dropWhile_le length_rev)
    then have "Suc (length xs) - length (rstrip xs) = Suc (length xs - length (rstrip xs))" by simp
    with True snoc.IH [of "0 # zs"] show ?thesis
      by (simp add: rstrip_def replicate_append_same flip: replicate_Suc) 
  next
    case False
    then show ?thesis by (simp add: rstrip_def)
  qed
qed

text \<open>
  The chat message is the content of the field, after its validation, without the white
  space at its end.
\<close>

theorem chat_text_stripped:
  assumes "0 \<notin> set (fo_text (form_driver cs REQ_VALIDATION f))"
    and "length (fo_text (form_driver cs REQ_VALIDATION f)) \<le> 127"
  shows "\<exists>sm. m_body (fst (chat_message cs gs f)) = Sendmsg sm \<and> sm_id sm = g_id gs \<and> sm_key sm = g_key gs \<and>
    cstr (sm_text sm) = rstrip (fo_text (form_driver cs REQ_VALIDATION f))"
proof -
  let ?t = "fo_text (form_driver cs REQ_VALIDATION f)"
  have t: "cstr ?t = ?t" using assms(1) by (rule cstr_id)
  let ?z = "zeros (127 - length ?t)"
  have "snprintf_s (zeros 128) 128 ?t = ?t @ 0 # ?z"
    using assms(2) t by (simp add: snprintf_s_def overlay_def zeros_def)
  then have s: "strip_spaces (length ?t) (snprintf_s (zeros 128) 128 ?t) =
      rstrip ?t @ replicate (length ?t - length (rstrip ?t)) 0 @ 0 # ?z"
    by (simp add: strip_spaces_append)
  have zs: "replicate m 0 @ 0 # z = 0 # (replicate m 0 @ z)" for m and z :: "byte list"
    by (induction m) simp_all
  have "0 \<notin> set (rstrip ?t)" using assms(1) by (auto simp: rstrip_def dest: set_dropWhileD)
  then have "cstr (strip_spaces (length ?t) (snprintf_s (zeros 128) 128 ?t)) = rstrip ?t"
    unfolding s zs by (rule cstr_terminated)
  then show ?thesis using t by (simp add: chat_message_def Let_def)
qed

end
