(* ===== verification/ClientLayout.thy ===== *)
theory ClientLayout imports ClientUi begin

text \<open>
  The layout of the screen: the constants at the head of \<open>client/client.c\<close>, that every
  window lies within its parent, and that texts are centred in it.
\<close>

section \<open>The constants\<close>

definition MAIN_WIDTH :: int where "MAIN_WIDTH = 80"
definition MAIN_HEIGHT :: int where "MAIN_HEIGHT = 24"
definition POPUP_WIDTH :: int where "POPUP_WIDTH = 60"
definition POPUP_HEIGHT :: int where "POPUP_HEIGHT = 8"
definition POPUP_Y :: int where "POPUP_Y = (MAIN_HEIGHT - POPUP_HEIGHT) div 2"
definition POPUP_X :: int where "POPUP_X = (MAIN_WIDTH - POPUP_WIDTH) div 2"
definition USER_LIST_WIDTH :: int where "USER_LIST_WIDTH = 20"
definition USER_LIST_HEIGHT :: int where "USER_LIST_HEIGHT = 16"
definition ARENA_WIDTH :: int where "ARENA_WIDTH = MAIN_WIDTH - USER_LIST_WIDTH"
definition ARENA_HEIGHT :: int where "ARENA_HEIGHT = 16"
definition ARENA_REL_Y :: int where "ARENA_REL_Y = 0"
definition ARENA_REL_X :: int where "ARENA_REL_X = 0 + USER_LIST_WIDTH"
definition MAIN_MENU_WIDTH :: int where "MAIN_MENU_WIDTH = 20"
definition MAIN_MENU_HEIGHT :: int where "MAIN_MENU_HEIGHT = MAIN_HEIGHT - ARENA_HEIGHT"
definition MAIN_MENU_REL_Y :: int where "MAIN_MENU_REL_Y = ARENA_REL_Y + ARENA_HEIGHT"
definition MAIN_MENU_REL_X :: int where "MAIN_MENU_REL_X = MAIN_WIDTH - MAIN_MENU_WIDTH"
definition CHAT_INPUT_HEIGHT :: int where "CHAT_INPUT_HEIGHT = 1"
definition CHAT_WIDTH :: int where "CHAT_WIDTH = MAIN_WIDTH - MAIN_MENU_WIDTH - 1"
definition CHAT_HEIGHT :: int where
  "CHAT_HEIGHT = MAIN_HEIGHT - max USER_LIST_HEIGHT ARENA_HEIGHT - CHAT_INPUT_HEIGHT"
definition CHAT_REL_Y :: int where
  "CHAT_REL_Y = max (ARENA_REL_Y + ARENA_HEIGHT) (0 + USER_LIST_HEIGHT)"
definition CHAT_INPUT_WIDTH :: int where "CHAT_INPUT_WIDTH = MAIN_WIDTH - MAIN_MENU_WIDTH"
definition CHAT_INPUT_REL_Y :: int where "CHAT_INPUT_REL_Y = CHAT_REL_Y + CHAT_HEIGHT"
definition USER_STATE_WIDTH :: int where "USER_STATE_WIDTH = 29"
definition USER_STATE_HEIGHT :: int where "USER_STATE_HEIGHT = 6"
definition OPPONENT_STATE_REL_X :: int where "OPPONENT_STATE_REL_X = ARENA_WIDTH - USER_STATE_WIDTH - 1"
definition BATTLE_MSG_HEIGHT :: int where "BATTLE_MSG_HEIGHT = 5"
definition BATTLE_MSG_WIDTH :: int where "BATTLE_MSG_WIDTH = ARENA_WIDTH - 2"
definition BATTLE_MSG_REL_Y :: int where "BATTLE_MSG_REL_Y = 1 + USER_STATE_HEIGHT"
definition BATTLE_ACTION_HEIGHT :: int where
  "BATTLE_ACTION_HEIGHT = ARENA_HEIGHT - USER_STATE_HEIGHT - BATTLE_MSG_HEIGHT - 2"
definition BATTLE_ACTION_WIDTH :: int where "BATTLE_ACTION_WIDTH = ARENA_WIDTH - 2"
definition BATTLE_ACTION_REL_Y :: int where "BATTLE_ACTION_REL_Y = BATTLE_MSG_REL_Y + BATTLE_MSG_HEIGHT"

lemmas layout_defs = MAIN_WIDTH_def MAIN_HEIGHT_def POPUP_WIDTH_def POPUP_HEIGHT_def POPUP_Y_def POPUP_X_def
  USER_LIST_WIDTH_def USER_LIST_HEIGHT_def ARENA_WIDTH_def ARENA_HEIGHT_def ARENA_REL_Y_def ARENA_REL_X_def
  MAIN_MENU_WIDTH_def MAIN_MENU_HEIGHT_def MAIN_MENU_REL_Y_def MAIN_MENU_REL_X_def CHAT_INPUT_HEIGHT_def
  CHAT_WIDTH_def CHAT_HEIGHT_def CHAT_REL_Y_def CHAT_INPUT_WIDTH_def CHAT_INPUT_REL_Y_def USER_STATE_WIDTH_def
  USER_STATE_HEIGHT_def OPPONENT_STATE_REL_X_def BATTLE_MSG_HEIGHT_def BATTLE_MSG_WIDTH_def BATTLE_MSG_REL_Y_def
  BATTLE_ACTION_HEIGHT_def BATTLE_ACTION_WIDTH_def BATTLE_ACTION_REL_Y_def

section \<open>The windows\<close>

text \<open>Lines, columns, and the position in the parent, as \<open>derwin\<close> takes them.\<close>

record window =
  w_lines :: int
  w_cols :: int
  w_y :: int
  w_x :: int

definition user_list_box :: window where
  "user_list_box = \<lparr>w_lines = USER_LIST_HEIGHT, w_cols = USER_LIST_WIDTH, w_y = 0, w_x = 0\<rparr>"

definition arena :: window where
  "arena = \<lparr>w_lines = ARENA_HEIGHT, w_cols = ARENA_WIDTH, w_y = ARENA_REL_Y, w_x = ARENA_REL_X\<rparr>"

definition main_menu_box :: window where
  "main_menu_box = \<lparr>w_lines = MAIN_MENU_HEIGHT, w_cols = MAIN_MENU_WIDTH, w_y = MAIN_MENU_REL_Y, w_x = MAIN_MENU_REL_X\<rparr>"

definition chat_box :: window where
  "chat_box = \<lparr>w_lines = CHAT_HEIGHT, w_cols = CHAT_WIDTH, w_y = CHAT_REL_Y, w_x = 1\<rparr>"

definition chat_input_win :: window where
  "chat_input_win = \<lparr>w_lines = CHAT_INPUT_HEIGHT, w_cols = CHAT_INPUT_WIDTH - 1, w_y = CHAT_INPUT_REL_Y, w_x = 1\<rparr>"

definition player_box :: window where
  "player_box = \<lparr>w_lines = USER_STATE_HEIGHT, w_cols = USER_STATE_WIDTH, w_y = 1, w_x = 1\<rparr>"

definition opponent_box :: window where
  "opponent_box = \<lparr>w_lines = USER_STATE_HEIGHT, w_cols = USER_STATE_WIDTH, w_y = 1, w_x = OPPONENT_STATE_REL_X\<rparr>"

definition battle_msg_box :: window where
  "battle_msg_box = \<lparr>w_lines = BATTLE_MSG_HEIGHT, w_cols = BATTLE_MSG_WIDTH, w_y = BATTLE_MSG_REL_Y, w_x = 1\<rparr>"

definition battle_act_box :: window where
  "battle_act_box = \<lparr>w_lines = BATTLE_ACTION_HEIGHT, w_cols = BATTLE_ACTION_WIDTH, w_y = BATTLE_ACTION_REL_Y, w_x = 1\<rparr>"

lemmas window_defs = user_list_box_def arena_def main_menu_box_def chat_box_def chat_input_win_def player_box_def
  opponent_box_def battle_msg_box_def battle_act_box_def

definition fits :: "int \<Rightarrow> int \<Rightarrow> window \<Rightarrow> bool" where
  "fits lines cols w \<longleftrightarrow> 0 < w_lines w \<and> 0 < w_cols w \<and> 0 \<le> w_y w \<and> 0 \<le> w_x w \<and>
     w_y w + w_lines w \<le> lines \<and> w_x w + w_cols w \<le> cols"

definition apart :: "window \<Rightarrow> window \<Rightarrow> bool" where
  "apart v w \<longleftrightarrow> w_y v + w_lines v \<le> w_y w \<or> w_y w + w_lines w \<le> w_y v \<or>
     w_x v + w_cols v \<le> w_x w \<or> w_x w + w_cols w \<le> w_x v"

definition laid_out :: "int \<Rightarrow> int \<Rightarrow> window list \<Rightarrow> bool" where
  "laid_out lines cols ws \<longleftrightarrow> list_all (fits lines cols) ws \<and> sorted_wrt apart ws"

text \<open>
  The windows of the main window and those of the arena lie in their parent without
  overlapping, so that no \<open>derwin\<close> of the start fails for its size.
\<close>

lemma windows_laid_out:
  "laid_out MAIN_HEIGHT MAIN_WIDTH [user_list_box, arena, main_menu_box, chat_box, chat_input_win]"
  "laid_out ARENA_HEIGHT ARENA_WIDTH [player_box, opponent_box, battle_msg_box, battle_act_box]"
  "fits (MAIN_HEIGHT + 2) (MAIN_WIDTH + 2) \<lparr>w_lines = POPUP_HEIGHT, w_cols = POPUP_WIDTH, w_y = POPUP_Y, w_x = POPUP_X\<rparr>"
  by (simp_all add: laid_out_def fits_def apart_def window_defs layout_defs)

text \<open>The chat form of the model has the width of its field.\<close>

lemma chat_field_width: "int (length (fo_text chat_input)) = CHAT_INPUT_WIDTH - 1"
  by (simp add: chat_input_def layout_defs)

end
