(* ===== verification/ClientChat.thy ===== *)
theory ClientChat imports ClientDuel ClientLimits begin

text \<open>
  Client and server together: a chat message on its way from the field of one client to
  the chat windows of all, and the passage from the login screen to the main screen.
\<close>

section \<open>Chat\<close>

lemma enter_in_form:
  assumes "cl_waiting c = W_NONE" and "cl_focus_idx c = 1" and "cl_foci c ! 1 = F_form f hid"
    and "1 < length (cl_foci c)"
    and "10 \<notin> {KEY_DOWN cs, KEY_UP cs, KEY_LEFT cs, KEY_RIGHT cs, KEY_DC cs, KEY_BTAB cs}"
    and "chat_message cs (cl_gs c) f = (m, f')"
  shows "handle_key cs 10 c = Inr (Go ((send_out m c)\<lparr>cl_foci := (cl_foci c)[1 := F_form f' hid]\<rparr>))"
proof -
  have upd: "(cl_foci c)[1 := F_form f hid] = cl_foci c" using assms(3) by (metis list_update_id)
  then have c: "c\<lparr>cl_foci := (cl_foci c)[1 := F_form f hid]\<rparr> = c" by simp
  have "focus_handle_key cs (F_form f hid) 10 = Inr (Some Uc_sendmsg, F_form f hid)"
    using assms(5) by (simp add: focus_handle_key_def form_key_def)
  then have "handle_key cs 10 c = on_command cs Uc_sendmsg c"
    using assms(1-3,5) c by (simp add: handle_key_def Let_def)
  with assms(3,6) show ?thesis by (simp add: on_command_def Let_def send_out_def)
qed

lemma on_sendmsg_directory:
  assumes "table_ok b" and "roster b (sm_id sm) = Some (nick, st, sc)"
  shows "on_sendmsg sm b = Inr (say_chat (nick @ (if sm_id sm = g_id (cl_gs b) then bytes '' (You)'' else []) @
    bytes '' said: '' @ cstr (sm_text sm) @ [10]) b)"
proof -
  obtain n where "nickname_or (bytes ''<unknown>'') (sm_id sm) b = Inr n" "n = nick"
    by (rule nickname_or_ok [OF assms(1), of "bytes ''<unknown>''" "sm_id sm"]) (use assms(2) in auto)
  then show ?thesis by (simp add: on_sendmsg_def)
qed

text \<open>
  C17: chat works from end to end. When a user presses Enter in the chat field, their
  client sends one message; the server relays it, without their key, to every user; and a
  client whose user list is the server's shows the author's nickname and the text of the field without the
  white space at its end.
\<close>

theorem chat_reaches_everyone:
  assumes "server_inv s" and "user_at i s = Some u"
    and "foci_ok (cl_foci a)" and "g_id (cl_gs a) = i" and "g_key (cl_gs a) = u_key u" and "cl_waiting a = W_NONE"
    and "cl_focus_idx a = 1" and "cl_foci a ! 1 = F_form f hid"
    and "10 \<notin> {KEY_DOWN cs, KEY_UP cs, KEY_LEFT cs, KEY_RIGHT cs, KEY_DC cs, KEY_BTAB cs}"
    and "fo_text (form_driver cs REQ_VALIDATION f) = t" and "0 \<notin> set t" and "length t \<le> 127"
    and "table_ok b" and "roster b = directory s"
  shows "\<exists>a' m m' sm b'. handle_key cs 10 a = Inr (Go a') \<and> cl_sent a' = cl_sent a @ [m] \<and>
    m_body m' = Sendmsg sm \<and> sm_key sm = 0 \<and>
    handle_entry (EMSG fd m) s =
      Inr (s\<lparr>out := out s @ map (\<lambda>p. (fd_of s p, m')) (user_by_id s)\<rparr>) \<and>
    handle_um (Um_recv m') b = Inr (Go b') \<and>
    cl_chat b' = cl_chat b @ [u_nickname u @ (if i = g_id (cl_gs b) then bytes '' (You)'' else []) @
      bytes '' said: '' @ rstrip t @ [10]]"
proof -
  note users = server_invD(1) [OF assms(1)]
  obtain p where p: "find_id i s = Some p" "uheap s p = Some u" "u_id u = i"
    using user_at_Some [OF assms(2)] by blast
  obtain m f' where m: "chat_message cs (cl_gs a) f = (m, f')" by fastforce
  obtain sm where sm: "m_body m = Sendmsg sm" "sm_id sm = i" "sm_key sm = u_key u" "cstr (sm_text sm) = rstrip t"
    using chat_text_stripped [of cs f "cl_gs a"] assms(4,5,10-12) m by auto
  let ?m' = "m\<lparr>m_body := Sendmsg (sm\<lparr>sm_key := 0\<rparr>)\<rparr>"
  have "1 < length (cl_foci a)" using assms(3) by (auto simp: foci_ok_def)
  note key = enter_in_form [OF assms(6-8) this assms(9) m]
  have "handle_sendmsg sm m s = Inr (s\<lparr>out := out s @ to_all s (-1) ?m'\<rparr>)"
    using handle_sendmsg_eq [OF users _ p(2)] p(1) sm(2,3) by simp
  then have srv: "handle_entry (EMSG fd m) s =
      Inr (s\<lparr>out := out s @ map (\<lambda>p. (fd_of s p, ?m')) (user_by_id s)\<rparr>)"
    using sm(1) by (simp add: handle_entry_def to_all_everyone [OF users])
  have "p \<in> set (user_by_id s)" using p(1,2) by (auto elim: find_id_SomeE)
  then have "roster b i = Some (server_info u)"
    using directory_eq [OF users _ p(2)] p(3) assms(14) by simp
  then have "roster b (sm_id (sm\<lparr>sm_key := 0\<rparr>)) = Some (u_nickname u, u_state u, u_score u)"
    using sm(2) by (simp add: server_info_def)
  note b = on_sendmsg_directory [OF assms(13) this]
  let ?b' = "say_chat (u_nickname u @ (if i = g_id (cl_gs b) then bytes '' (You)'' else []) @
      bytes '' said: '' @ rstrip t @ [10]) b"
  have "handle_um (Um_recv ?m') b = Inr (Go ?b')" using b sm by (simp add: handle_um_def)
  with key srv show ?thesis
    by (intro exI [of _ "(send_out m a)\<lparr>cl_foci := (cl_foci a)[1 := F_form f' hid]\<rparr>"]
        exI [where x = ?b'] exI [where x = m] exI [where x = ?m'] exI [where x = "sm\<lparr>sm_key := 0\<rparr>"] conjI)
      (auto simp: send_out_def say_chat_def)
qed


text \<open>bob, who has typed \<open>hi\<close>, and the server with alice and bob.\<close>

definition hi_form :: form_t where
  "hi_form = \<lparr>fo_text = bytes ''hi'' @ replicate 57 32, fo_pos = 2\<rparr>"

definition typing_client :: client_t where
  "typing_client = lobby_client\<lparr>cl_focus_idx := 1, cl_foci := [F_menu (menu_of []) True False,
     F_form hi_form False, F_menu battle_act_menu False False, F_menu main_menu False False]\<rparr>"

lemma rstrip_blanks: "rstrip (xs @ replicate n 32) = rstrip xs"
proof -
  have "isspace 32" by (simp add: isspace_def)
  then have "dropWhile isspace (replicate n 32 @ ys) = dropWhile isspace ys" for ys
    by (induction n) simp_all
  then show ?thesis by (simp add: rstrip_def)
qed

lemma lobby_directory: "directory (scene UONLINE 0 None) = roster lobby_client"
proof
  fix i :: u16
  consider "i = 5" | "i = 6" | "i \<noteq> 5" "i \<noteq> 6" by blast
  then show "directory (scene UONLINE 0 None) i = roster lobby_client i"
    by cases (simp_all add: directory_def lobby_client_roster server_info_def)
qed

theorem chat_reaches_everyone_witness:
  "\<exists>a' m m' sm b'. handle_key plain_curses 10 typing_client = Inr (Go a') \<and> cl_sent a' = [m] \<and>
    m_body m' = Sendmsg sm \<and> sm_key sm = 0 \<and>
    handle_entry (EMSG 6 m) (scene UONLINE 0 None) =
      Inr ((scene UONLINE 0 None)\<lparr>out := [(5, m'), (6, m')]\<rparr>) \<and>
    handle_um (Um_recv m') lobby_client = Inr (Go b') \<and>
    cl_chat b' = cl_chat lobby_client @ [bytes ''b (You) said: hi'' @ [10]]"
proof -
  let ?s = "scene UONLINE 0 None" and ?t = "bytes ''hi'' @ replicate 57 32"
  have t: "0 \<notin> set ?t" "length ?t \<le> 127" by (auto simp: bytes_def)
  have r: "rstrip ?t = bytes ''hi''" unfolding rstrip_blanks by (simp add: rstrip_def bytes_def isspace_def)
  have foci: "foci_ok (cl_foci typing_client)"
    by (simp add: foci_ok_def typing_client_def hi_form_def menu_ok_def menu_of_def battle_act_menu_def
        main_menu_def bytes_def)
  have "\<exists>a' m m' sm b'. handle_key plain_curses 10 typing_client = Inr (Go a') \<and>
    cl_sent a' = cl_sent typing_client @ [m] \<and>
    m_body m' = Sendmsg sm \<and> sm_key sm = 0 \<and>
    handle_entry (EMSG 6 m) ?s = Inr (?s\<lparr>out := out ?s @ map (\<lambda>p. (fd_of ?s p, m')) (user_by_id ?s)\<rparr>) \<and>
    handle_um (Um_recv m') lobby_client = Inr (Go b') \<and>
    cl_chat b' = cl_chat lobby_client @ [u_nickname (bob UONLINE 0) @
      (if 6 = g_id (cl_gs lobby_client) then bytes '' (You)'' else []) @ bytes '' said: '' @ rstrip ?t @ [10]]"
    by (rule chat_reaches_everyone [OF scene_inv _ foci _ _ _ _ _ _ _ t, where f = hi_form and hid = False])
      (use lobby_client_ready in \<open>simp_all add: user_at_def lobby_client_gs lobby_directory typing_client_def
          hi_form_def plain_curses_def ready_def client_inv_def\<close>)
  then show ?thesis by (simp add: fd_of_def lobby_client_gs typing_client_def r) (simp add: bytes_def)
qed


section \<open>From the login screen to the main screen\<close>

text \<open>The login screen ends with an answer that it has received.\<close>

definition joined :: "login_in list \<Rightarrow> login_t \<Rightarrow> bool" where
  "joined inps s \<longleftrightarrow> (l_state s = SUCCESS \<or> l_done s \<longrightarrow>
     (\<exists>m r. l_join s = Some m \<and> Take (Um_recv m) \<in> set inps \<and> m_body m = Join_r r \<and> jr_error r = ME_OK))"

lemma msg_dup_eq: "msg_dup m = m"
  by (cases m) (simp add: msg_dup_def make_msg_buf_def init_msg_buf_def)

lemma joined_step:
  assumes "joined inps s" and "login_step cs strerr inp s = Inr s'"
  shows "joined (inps @ [inp]) s'"
proof (cases "l_done s")
  case True
  with assms show ?thesis by (auto simp: joined_def login_step_def)
next
  case False
  show ?thesis
  proof (cases "l_state s")
    case WAIT_INPUT
    with assms False show ?thesis
      by (auto simp: joined_def login_step_def login_key_def Let_def split: login_in.splits if_splits)
  next
    case WAIT_MSG
    with assms False show ?thesis
      by (auto simp: joined_def login_step_def login_message_def msg_dup_eq
          split: login_in.splits ui_msg_t.splits msg_body_t.splits if_splits)
  next
    case TO_CONNECT
    with assms False show ?thesis
      by (auto simp: joined_def login_step_def login_connect_def bind_r_eq_Inr
          split: login_in.splits sum.splits prod.splits if_splits)
  qed (use assms False in
      \<open>auto simp: joined_def login_step_def split: login_in.splits sum.splits if_splits\<close>)
qed

lemma joined_run:
  "joined inps0 s \<Longrightarrow> login_run cs strerr inps s = Inr s' \<Longrightarrow> joined (inps0 @ inps) s'"
proof (induction inps arbitrary: s inps0)
  case Nil
  then show ?case by (simp add: login_run_def)
next
  case (Cons inp inps)
  then obtain s1 where s1: "login_step cs strerr inp s = Inr s1" "login_run cs strerr inps s1 = Inr s'"
    by (auto simp: login_run_def bind_r_eq_Inr)
  from Cons.IH [OF joined_step [OF Cons.prems(1) s1(1)] s1(2)] show ?case by simp
qed


text \<open>The keys \<open>b\<close> and Enter, a connection, and the answer of the server.\<close>

definition open_system :: os_t where
  "open_system = \<lparr>os_inet_aton = (\<lambda>a. Some 0), os_socket = 5, os_bind = (\<lambda>fd sin. False),
     os_listen = (\<lambda>fd n. False), os_connect = (\<lambda>fd sin. True), os_thread = (\<lambda>n. True),
     os_error = (\<lambda>f. [])\<rparr>"

definition login_inputs :: "login_in list" where
  "login_inputs = [Key 98, Key 10, Connect LittleEndian open_system, Nothing_read, Take (Um_recv join_answer), Nothing_read]"


end
