(* ===== verification/ClientThreads.thy ===== *)
theory ClientThreads imports ClientProps ClientDuel QueueCalls LibProps begin

text \<open>
  The client with its threads: the receiving thread, which reads messages from the
  connection and adds them to the queue of the user interface, and the user interface,
  which takes them in its rounds. Together with the server, on whose table the client's
  list of users is to follow.
\<close>

section \<open>What the rounds of the main loop leave of the table\<close>

definition same_table :: "client_t \<Rightarrow> client_t \<Rightarrow> bool" where
  "same_table c d \<longleftrightarrow> cl_heap d = cl_heap c \<and> cl_tree d = cl_tree c"

lemma same_table_refl [simp]: "same_table c c"
  by (simp add: same_table_def)

lemma same_table_trans: "same_table c d \<Longrightarrow> same_table d e \<Longrightarrow> same_table c e"
  by (simp add: same_table_def)

lemma same_table_roster: "same_table c d \<Longrightarrow> roster d = roster c"
  by (rule roster_cong) (simp_all add: same_table_def)

lemma refresh_list_table: "refresh_list cs e c = Inr d \<Longrightarrow> same_table c d"
  by (auto simp: refresh_list_def Let_def bind_r_eq_Inr same_table_def split: if_splits focusable_t.splits)

lemma draw_states_table: "draw_states c = Inr d \<Longrightarrow> same_table c d"
  by (auto simp: draw_states_def Let_def bind_r_eq_Inr same_table_def split: if_splits)

lemma move_focus_table: "same_table c (move_focus cs new c)"
  by (simp add: move_focus_def same_table_def case_prod_beta Let_def)

lemma on_command_table: "on_command cs cmd c = Inr r \<Longrightarrow> same_table c (flow_state r)"
  by (cases cmd)
    (auto simp: on_command_def Let_def same_table_def say_defs case_prod_beta split: if_splits focusable_t.splits)

lemma handle_key_table:
  assumes "handle_key cs key c = Inr r"
  shows "same_table c (flow_state r)"
proof (cases "cl_waiting c")
  case W_NONE
  have "same_table c (c\<lparr>cl_foci := fs\<rparr>)" for fs by (simp add: same_table_def)
  with assms W_NONE move_focus_table on_command_table same_table_trans show ?thesis
    by (fastforce simp: handle_key_def Let_def bind_r_eq_Inr split: if_splits option.splits)
qed (use assms in \<open>auto simp: handle_key_def Let_def same_table_def say_defs split: if_splits\<close>)

text \<open>The changes that the messages of a list make to the table.\<close>

definition changes_of :: "ui_msg_t list \<Rightarrow> uchange_user_t list" where
  "changes_of ums = concat (map um_changes ums)"

lemma changes_of_append [simp]: "changes_of (ums @ vms) = changes_of ums @ changes_of vms"
  by (simp add: changes_of_def)

lemma ui_round_roster:
  assumes "client_inv c" and "ui_round cs e inp c = Inr (Go d)"
  shows "roster d = fold apply_change (changes_of (fst inp)) (roster c)"
proof -
  obtain r1 where r1: "fold_flow handle_um (fst inp) c = Inr r1"
    "kept (concat (map um_changes (fst inp))) (list_ex (um_quits (g_id (cl_gs c))) (fst inp)) c r1"
    using handle_ums_ok [OF assms(1)] by blast
  from assms(2) r1(1) obtain c1 c2 c3 where c: "r1 = Go c1" "refresh_list cs e c1 = Inr c2"
    "draw_states c2 = Inr c3" "fold_flow (handle_key cs) (snd inp) c3 = Inr (Go d)"
    by (cases r1) (auto simp: ui_round_def bind_r_eq_Inr)
  have "same_table c1 c3" using refresh_list_table [OF c(2)] draw_states_table [OF c(3)] same_table_trans by blast
  moreover have "same_table c3 (flow_state (Go d))"
    by (rule fold_flow_invariant [OF c(4)]) (auto intro: same_table_trans handle_key_table)
  ultimately have "roster d = roster c1" using same_table_trans same_table_roster by force
  with r1(2) c(1) show ?thesis by (simp add: kept_def changes_of_def)
qed

lemma ui_rounds_roster:
  "ready c \<Longrightarrow> curses_ok cs \<Longrightarrow> list_all (\<lambda>inp. list_all (key_ok cs) (snd inp)) inps \<Longrightarrow>
    \<exists>r. fold_flow (ui_round cs e) inps c = Inr r \<and>
      (\<forall>d. r = Go d \<longrightarrow> roster d = fold apply_change (changes_of (concat (map fst inps))) (roster c))"
proof (induction inps arbitrary: c)
  case Nil
  then show ?case by (simp add: changes_of_def)
next
  case (Cons inp inps)
  obtain r where r: "ui_round cs e inp c = Inr r" "steady_flow r"
    using ui_round_ok [OF Cons.prems(1,2), of inp e] Cons.prems(3) by auto
  show ?case
  proof (cases r)
    case (Leave d)
    with r(1) show ?thesis by simp
  next
    case (Go d)
    with r(2) have "ready d" by (simp add: steady_ready)
    moreover have "roster d = fold apply_change (changes_of (fst inp)) (roster c)"
      using ui_round_roster [of c cs e inp d] r(1) Go Cons.prems(1) by (simp add: ready_def)
    ultimately show ?thesis using Cons.IH [of d] Cons.prems(2,3) r(1) Go by simp
  qed
qed

text \<open>A round may take its messages before.\<close>

lemma ui_round_split:
  assumes "fold_flow handle_um ums c = Inr (Go c1)"
  shows "fold_flow (ui_round cs e) ((ums, keys) # inps) c = fold_flow (ui_round cs e) (([], keys) # inps) c1"
  using assms by (simp add: ui_round_def)

section \<open>The receiving thread\<close>

text \<open>
  The loop of \<open>io_worker\<close> for \<open>IN\<close>: the results of \<open>msg_recv\<close> on the connection, each on a
  buffer with whatever the stack holds, up to the first failure with its \<open>errno\<close>.
\<close>

fun in_results :: "endian \<Rightarrow> (byte list \<times> int) list \<Rightarrow> socket \<Rightarrow> (int + message_t) list" where
  "in_results e [] s = []"
| "in_results e ((junk, err) # bufs) s =
     (case msg_recv e junk True s of
        (Some m, s') \<Rightarrow> Inr m # in_results e bufs s'
      | (None, s') \<Rightarrow> [Inl err])"

text \<open>What a list of messages is on the wire, and a connection on which it arrives in one piece.\<close>

definition wire :: "endian \<Rightarrow> message_t list \<Rightarrow> byte list" where
  "wire e ms = concat (map (\<lambda>m. the (msg_send_bytes e m)) ms)"

definition arriving :: "byte list \<Rightarrow> socket" where
  "arriving bs = (if bs = [] then [] else [Data bs])"

definition out_clean :: "message_t \<Rightarrow> bool" where
  "out_clean m \<longleftrightarrow> wf_message m \<and> tail_zero (m_body m)"

lemma send_bytes_not_Nil: "wf_message m \<Longrightarrow> \<exists>b bs. msg_send_bytes e m = Some (b # bs)"
  by (simp add: msg_send_bytes_wf be16_def)

lemma received_wire:
  "list_all out_clean ms \<Longrightarrow> list_all (\<lambda>(junk, err). 648 \<le> length junk) bufs \<Longrightarrow>
    \<exists>rest. io_worker_in (in_results e bufs (arriving (wire e ms))) =
      map Um_recv (take (length bufs) ms) @ rest \<and> (length bufs \<le> length ms \<longrightarrow> rest = [])"
proof (induction ms arbitrary: bufs)
  case Nil
  show ?case by (cases bufs) simp_all
next
  case (Cons m ms)
  show ?case
  proof (cases bufs)
    case Nil
    then show ?thesis by simp
  next
    case (Cons x bufs')
    obtain junk err where x: "x = (junk, err)" by (cases x)
    obtain b bs where bs: "msg_send_bytes e m = Some (b # bs)"
      using send_bytes_not_Nil [of m e] Cons.prems(1) by (auto simp: out_clean_def)
    have "msg_recv e junk True [Data ((b # bs) @ wire e ms)] = (Some m, arriving (wire e ms))"
      using msg_recv_send_same [OF _ _ _ bs, of junk True "wire e ms"] Cons.prems \<open>bufs = x # bufs'\<close> x
      by (auto simp: out_clean_def arriving_def)
    then have r: "in_results e bufs (arriving (wire e (m # ms))) = Inr m # in_results e bufs' (arriving (wire e ms))"
      using \<open>bufs = x # bufs'\<close> x bs by (simp add: wire_def arriving_def)
    from Cons.IH [of bufs'] Cons.prems \<open>bufs = x # bufs'\<close> show ?thesis
      by (simp add: r [unfolded \<open>bufs = x # bufs'\<close>])
  qed
qed

section \<open>The queue between the threads\<close>

definition QSIZE :: nat where "QSIZE = 4096"

text \<open>
  The thread 0 has called \<open>queue_add\<close> with the first of its messages, in order; the thread 1,
  the user interface, only takes, whether it waits (\<open>ui_login\<close>) or not (\<open>ui_main\<close>).
\<close>

definition client_program :: "endian \<Rightarrow> (byte list \<times> int) list \<Rightarrow> socket \<Rightarrow> ui_msg_t event list \<Rightarrow> bool" where
  "client_program e bufs s evs \<longleftrightarrow>
     (\<exists>k. calls_of 0 evs = map (\<lambda>um. Op_add um True) (take k (io_worker_in (in_results e bufs s)))) \<and>
     list_all (\<lambda>c. \<not> is_add c) (calls_of 1 evs)"

definition um_taken :: "ui_msg_t event list \<Rightarrow> ui_msg_t list" where
  "um_taken evs = map snd (taken evs)"

lemma um_taken_prefix:
  assumes "queue_run (threads_start cap junk 2) evs t" and "client_program e bufs s evs"
  shows "\<exists>k. um_taken evs = take k (io_worker_in (in_results e bufs s))"
proof -
  obtain k where k: "added_by 0 evs = take k (io_worker_in (in_results e bufs s))"
    using caller_added [OF assms(1), of 0] assms(2) by (fastforce simp: client_program_def)
  have "added_by 1 evs = []"
    using taker_adds_nothing [OF assms(1), of 1] assms(2) by (simp add: client_program_def)
  then have "fst x = 0" if "x \<in> set (added evs)" for x
    using added_index [OF assms(1), of "fst x" "snd x"] that
    by (force simp: added_by_def threads_start_def less_2_cases_iff filter_empty_conv)
  then have "map snd (added evs) = added_by 0 evs"
    unfolding added_by_def by (intro arg_cong [where f = "map snd"] filter_True [symmetric]) auto
  moreover obtain q where "replay evs (queue_create cap junk) = Some q"
    using sync_inv_run [OF assms(1) sync_inv_start] by blast
  ultimately have "take k (io_worker_in (in_results e bufs s)) = um_taken evs @ queue_list q"
    using replay_fifo [OF _ queue_create_ok] k by (fastforce simp: queue_create_list um_taken_def)
  then have "um_taken evs = take (length (um_taken evs)) (take k (io_worker_in (in_results e bufs s)))" by simp
  then show ?thesis by (metis take_take)
qed

text \<open>A client that has taken as many messages as were sent has taken what was sent.\<close>

lemma um_taken_all:
  assumes "queue_run (threads_start cap junk 2) evs t" and "client_program e bufs (arriving (wire e ms)) evs"
    and "list_all out_clean ms" and "list_all (\<lambda>(junk, err). 648 \<le> length junk) bufs"
    and "length (um_taken evs) = length ms"
  shows "um_taken evs = map Um_recv ms"
proof -
  obtain k where k: "um_taken evs = take k (io_worker_in (in_results e bufs (arriving (wire e ms))))"
    using um_taken_prefix [OF assms(1,2)] by blast
  obtain rest where rest: "io_worker_in (in_results e bufs (arriving (wire e ms))) =
      map Um_recv (take (length bufs) ms) @ rest" "length bufs \<le> length ms \<longrightarrow> rest = []"
    using received_wire [OF assms(3,4)] by blast
  show ?thesis
  proof (cases "length bufs < length ms")
    case True
    with k rest have "length (um_taken evs) \<le> length bufs" by simp
    with True assms(5) show ?thesis by simp
  next
    case False
    then have "um_taken evs = take k (map Um_recv ms @ rest)" using k rest(1) by simp
    with assms(5) show ?thesis by (auto simp: min_def split: if_splits)
  qed
qed

section \<open>From the server's table to the client's\<close>

lemma server_tells:
  assumes "uheap s = Map.empty" and "cheap s = Map.empty" and "out s = []"
    and "list_all entry_ok es" and "server_run es (model_init s) = Inr s'"
    and "find_id i s' = Some p" and "uheap s' p = Some u"
  shows "fold apply_change (news (inbox (u_fd u) (out s'))) Map.empty = directory s'"
    and "stays i (inbox (u_fd u) (out s'))" and "list_all out_clean (inbox (u_fd u) (out s'))"
proof -
  have init: "server_inv (model_init s)" by (rule server_inv_init [OF assms(1-3)])
  have inv: "server_inv s'" using server_run_safe [OF init assms(4)] assms(5) by (simp add: safe_resultD)
  have sync: "in_sync s'" by (rule server_run_in_sync [OF init in_sync_init assms(4,5)])
  have "p \<in> set (user_by_id s')" "u_id u = i" using assms(6,7) by (auto elim: find_id_SomeE)
  with sync assms(7) show "fold apply_change (news (inbox (u_fd u) (out s'))) Map.empty = directory s'"
    and "stays i (inbox (u_fd u) (out s'))" by (auto simp: in_sync_def)
  have "list_all out_clean (fold (inbox_add fd) ms acc)"
    if "list_all out_ok ms" "list_all out_clean acc" for fd ms acc
    using that by (induction ms arbitrary: acc) (auto simp: out_ok_def out_clean_def)
  with server_invD(5) [OF inv] show "list_all out_clean (inbox (u_fd u) (out s'))"
    by (simp add: inbox_def outs_ok_def)
qed

lemma changes_of_recv: "changes_of (map Um_recv ms) = news ms"
  unfolding changes_of_def by (rule um_changes_recv)

lemma stays_prefix: "map Um_recv ms = ums @ vms \<Longrightarrow> stays i ms \<Longrightarrow> \<not> list_ex (um_quits i) ums"
  using um_quits_recv [of i ms] by simp


text \<open>Bob joins the empty server; his client takes the one message that it is sent.\<close>

lemma own_entry:
  assumes "fold apply_change (news ms) Map.empty = directory s" and "server_inv s"
    and "find_id i s = Some p" and "uheap s p = Some u"
  shows "fold apply_change (changes_of (map Um_recv ms)) Map.empty i \<noteq> None"
proof -
  from assms(3,4) have p: "p \<in> set (user_by_id s)" "u_id u = i" by (auto elim: find_id_SomeE)
  show ?thesis
    using directory_eq [OF server_invD(1) [OF assms(2)] p(1) assms(4)] p(2) assms(1) by (simp add: changes_of_recv)
qed

lemma one_message_program:
  assumes "out_clean m"
  shows "client_program e [(zeros 648, 0)] (arriving (wire e [m])) (handover_events (Um_recv m))"
proof -
  obtain rest where "io_worker_in (in_results e [(zeros 648, 0)] (arriving (wire e [m]))) = Um_recv m # rest"
    using received_wire [of "[m]" "[(zeros 648, 0)]" e] assms by auto
  then have "calls_of 0 (handover_events (Um_recv m)) = map (\<lambda>um. Op_add um True)
      (take 1 (io_worker_in (in_results e [(zeros 648, 0)] (arriving (wire e [m])))))"
    by (simp add: handover_events_def)
  then show ?thesis unfolding client_program_def by (rule conjI [OF exI]) (simp add: handover_events_def)
qed


end
