(* ===== verification/ClientScreen.thy ===== *)
theory ClientScreen imports ClientLayout ClientConnect begin

text \<open>
  The windows of the client: which calls of curses \<open>ui\<close>, \<open>ui_init\<close>, \<open>ui_login\<close> and \<open>ui_main\<close>
  make to build and release the screen, in their order and with the tests of their
  results. What curses answers is a parameter.
\<close>

section \<open>Calls of curses\<close>

datatype pane =
    P_root | P_login | P_main | P_popup | P_popup_sub | P_arena
  | P_user_list | P_user_list_sub | P_main_menu | P_main_menu_sub
  | P_player | P_player_sub | P_opponent | P_opponent_sub
  | P_battle_msg | P_battle_msg_sub | P_battle_act | P_battle_act_sub
  | P_chat | P_chat_sub | P_chat_input

datatype widget = User_list_menu | Main_menu | Battle_act_menu | Chat_form

text \<open>\<open>Post\<close>, \<open>Unpost\<close> and \<open>Free\<close> are the functions for menus or forms; panels are named by their window.\<close>

datatype global_call = Initscr | Cbreak | Noecho | Curs_set bool | Refresh | Clear | Update_panels | Doupdate

datatype pane_call =
    Keypad | Nodelay bool | Scrollok | Idlok | Box | Wmove int int | Wclrtoeol | Wclear | Wprintw cstring
  | Touchwin | Wrefresh | New_panel | Hide_panel | Show_panel | Del_panel

datatype widget_call =
    Set_mark "string option" | Opts_off string | Set_format int int | Set_items nat | Set_field_back
  | Set_userptr user_cmd_t

datatype curses_call =
    Global global_call
  | Newwin pane window | Derwin pane pane window | Delwin pane
  | On pane pane_call
  | New_item widget "string option" | New_field widget int int | New_widget widget
  | With widget widget_call | Set_win widget pane | Set_sub widget pane
  | Post widget | Unpost widget | Free widget

text \<open>
  What the program does with a result: nothing, \<open>assert\<close>, or \<open>ppanic\<close>. An assertion that
  follows a call later stands with the call.
\<close>

datatype check = Ignored | Asserted | Or_ppanic string

type_synonym calls = "(curses_call \<times> check) list"

definition plain :: "curses_call list \<Rightarrow> calls" where
  "plain cs = map (\<lambda>c. (c, Ignored)) cs"

text \<open>
  \<open>ok tr c\<close> tells whether the call \<open>c\<close> succeeds after the calls \<open>tr\<close>; \<open>err\<close> is the text of \<open>errno\<close>.
\<close>

fun run_calls :: "(curses_call list \<Rightarrow> curses_call \<Rightarrow> bool) \<Rightarrow> cstring \<Rightarrow> calls \<Rightarrow> curses_call list
    \<Rightarrow> stop + curses_call list" where
  "run_calls ok err [] tr = Inr tr"
| "run_calls ok err ((c, Ignored) # r) tr = run_calls ok err r (tr @ [c])"
| "run_calls ok err ((c, Asserted) # r) tr =
     (if ok tr c then run_calls ok err r (tr @ [c]) else Inl (Stop_fault AssertFailed))"
| "run_calls ok err ((c, Or_ppanic msg) # r) tr =
     (if ok tr c then run_calls ok err r (tr @ [c]) else Inl (Stop_exit (ppanic (bytes msg) err)))"

section \<open>Texts in the middle\<close>

text \<open>\<open>cols\<close> is the width of the window, and \<open>vsnprintf\<close> returns the length of the whole text.\<close>

definition print_centered :: "int \<Rightarrow> pane \<Rightarrow> int \<Rightarrow> bool \<Rightarrow> cstring \<Rightarrow> curses_call list" where
  "print_centered cols win y clear text =
     (if clear then [On win (Wmove y 0), On win Wclrtoeol] else []) @
     [On win (Wmove y (centered_lpad (of_int cols) (of_nat (length text)))), On win (Wprintw (printed 256 text))]"

definition title_string :: "string list" where "title_string = [''J A N K E N'']"

definition please_login :: string where "please_login = ''Enter nickname to login:''"

text \<open>\<open>y\<close> is the row of the cursor after the title.\<close>

definition draw_login_scr :: "int \<Rightarrow> curses_call list" where
  "draw_login_scr y =
     (let title_width = foldl (\<lambda>m s. max m (length s)) 0 title_string;
          lpad = centered_lpad (of_int MAIN_WIDTH) (of_nat title_width); tpad = MAIN_HEIGHT div 4
      in concat (map (\<lambda>s. [On P_login (Wmove tpad lpad), On P_login (Wprintw (bytes s))]) title_string) @
         print_centered MAIN_WIDTH P_login (y + 2) True (bytes please_login))"

section \<open>The screens\<close>

text \<open>The window \<open>root\<close>, which is deleted first when there is one.\<close>

definition ui_init :: "bool \<Rightarrow> calls" where
  "ui_init again =
     plain (if again then [Delwin P_root] else []) @
     [(Newwin P_root \<lparr>w_lines = MAIN_HEIGHT + 2, w_cols = MAIN_WIDTH + 2, w_y = 0, w_x = 0\<rparr>, Or_ppanic ''newwin()'')] @
     plain [On P_root Box, Global Refresh, On P_root Wrefresh] @
     [(Global Noecho, Or_ppanic ''noecho()''), (Global (Curs_set False), Ignored)]"

text \<open>
  The login screen: its window, what a round draws, and its end. \<open>y\<close> and \<open>nick_y\<close> are rows
  of the cursor.
\<close>

definition login_open :: "int \<Rightarrow> calls" where
  "login_open y =
     [(Derwin P_login P_root \<lparr>w_lines = MAIN_HEIGHT, w_cols = MAIN_WIDTH, w_y = 1, w_x = 1\<rparr>, Asserted),
      (On P_login Keypad, Or_ppanic ''keypad()'')] @
     plain ([On P_login (Nodelay False), Global (Curs_set True)] @ draw_login_scr y)"

definition login_draw :: "int \<Rightarrow> cstring \<times> cstring \<Rightarrow> calls" where
  "login_draw nick_y texts =
     (case texts of (info, nick) \<Rightarrow>
        plain (print_centered MAIN_WIDTH P_login (nick_y + 2) True info @
               print_centered MAIN_WIDTH P_login nick_y True nick @ [On P_root Touchwin, On P_login Wrefresh]))"

definition login_close :: calls where
  "login_close = plain [Global Refresh, On P_root Touchwin, On P_login Wclear, On P_login Wrefresh, Delwin P_login]"

definition derwin_with_box :: "pane \<Rightarrow> pane \<Rightarrow> pane \<Rightarrow> window \<Rightarrow> string option \<Rightarrow> calls" where
  "derwin_with_box parent boxwin subwin r title =
     [(Derwin boxwin parent r, Asserted), (On boxwin Box, Ignored)] @
     (case title of
        None \<Rightarrow> []
      | Some t \<Rightarrow> plain (print_centered (w_cols r) boxwin 0 False (bytes t) @ [On parent Touchwin, On boxwin Wrefresh])) @
     [(Derwin subwin boxwin \<lparr>w_lines = w_lines r - 2, w_cols = w_cols r - 2, w_y = 1, w_x = 1\<rparr>, Asserted)]"

definition popup :: window where
  "popup = \<lparr>w_lines = POPUP_HEIGHT, w_cols = POPUP_WIDTH, w_y = POPUP_Y, w_x = POPUP_X\<rparr>"

definition open_main :: calls where
  "open_main =
     [(Global (Curs_set False), Ignored),
      (Derwin P_main P_root \<lparr>w_lines = MAIN_HEIGHT, w_cols = MAIN_WIDTH, w_y = 1, w_x = 1\<rparr>, Asserted),
      (On P_main Keypad, Or_ppanic ''keypad()''), (On P_main (Nodelay True), Or_ppanic ''nodelay()''),
      (Newwin P_popup popup, Asserted),
      (Derwin P_popup_sub P_popup \<lparr>w_lines = POPUP_HEIGHT - 2, w_cols = POPUP_WIDTH - 2, w_y = 1, w_x = 1\<rparr>, Asserted)] @
     plain (On P_popup Box # print_centered POPUP_WIDTH P_popup 0 False (bytes ''Message'')) @
     [(On P_root New_panel, Asserted), (On P_popup New_panel, Asserted)] @
     plain [On P_popup Hide_panel, Global Update_panels, Global Doupdate]"

definition open_arena :: calls where
  "open_arena =
     [(Derwin P_arena P_main arena, Asserted)] @
     plain (On P_arena Box # print_centered ARENA_WIDTH P_arena 0 False (bytes ''Battle'') @
            [On P_main Touchwin, On P_arena Wrefresh])"

definition open_user_list :: calls where
  "open_user_list =
     derwin_with_box P_main P_user_list P_user_list_sub user_list_box (Some ''Users'') @
     [(New_widget User_list_menu, Asserted)] @
     plain [With User_list_menu (Set_mark (Some ''>'')), With User_list_menu (Opts_off ''O_NONCYCLIC''),
            Set_win User_list_menu P_user_list, Set_sub User_list_menu P_user_list_sub,
            With User_list_menu (Set_format (USER_LIST_HEIGHT - 2) (USER_LIST_WIDTH - 2))]"

definition open_main_menu :: calls where
  "open_main_menu =
     plain (map (New_item Main_menu) [Some ''Sort By Name'', Some ''Sort By Score'', Some ''Quit'', None]) @
     [(New_widget Main_menu, Asserted), (With Main_menu (Opts_off ''O_NONCYCLIC''), Ignored)] @
     derwin_with_box P_main P_main_menu P_main_menu_sub main_menu_box None @
     plain [With Main_menu (Set_mark (Some ''*'')), Set_win Main_menu P_main_menu, Set_sub Main_menu P_main_menu_sub,
            Post Main_menu, On P_main Touchwin, On P_main_menu Wrefresh]"

definition open_battle :: calls where
  "open_battle =
     derwin_with_box P_arena P_player P_player_sub player_box (Some ''Player'') @
     derwin_with_box P_arena P_opponent P_opponent_sub opponent_box (Some ''Opponent'') @
     derwin_with_box P_arena P_battle_msg P_battle_msg_sub battle_msg_box None @
     plain [On P_battle_msg_sub Scrollok, On P_battle_msg_sub Idlok] @
     derwin_with_box P_arena P_battle_act P_battle_act_sub battle_act_box (Some ''Actions'') @
     plain (map (New_item Battle_act_menu) [Some ''Rock'', Some ''Paper'', Some ''Scissors'', None] @
       [New_widget Battle_act_menu, Set_win Battle_act_menu P_battle_act, Set_sub Battle_act_menu P_battle_act_sub,
        With Battle_act_menu (Set_mark None), With Battle_act_menu (Opts_off ''O_NONCYCLIC''),
        With Battle_act_menu (Opts_off ''O_ROWMAJOR''), With Battle_act_menu (Set_format 2 5), Post Battle_act_menu,
        On P_battle_act Touchwin, On P_battle_act_sub Wrefresh])"

definition open_chat :: calls where
  "open_chat =
     derwin_with_box P_main P_chat P_chat_sub chat_box (Some ''Chat'') @
     plain [On P_chat_sub Scrollok, On P_chat_sub Idlok, New_field Chat_form 1 (CHAT_INPUT_WIDTH - 1)] @
     [(New_widget Chat_form, Asserted)] @
     plain [Derwin P_chat_input P_main chat_input_win, With Chat_form Set_field_back, With Chat_form (Opts_off ''O_AUTOSKIP''),
            Set_sub Chat_form P_chat_input, With Chat_form (Set_userptr Uc_sendmsg), Post Chat_form,
            On P_main Touchwin, On P_chat_input Wrefresh]"

definition ui_main_open :: calls where
  "ui_main_open = open_main @ open_arena @ open_user_list @ open_main_menu @ open_battle @ open_chat"

text \<open>What \<open>ui_main\<close> draws when the list of users has changed, and the popup it shows.\<close>

definition user_list_draw :: "nat \<Rightarrow> calls" where
  "user_list_draw cnt =
     plain ([Unpost User_list_menu, With User_list_menu (Set_items cnt), On P_user_list Box] @
       print_centered USER_LIST_WIDTH P_user_list 0 False (bytes ''Users ('' @ dec_nat cnt @ [41]) @
       [Post User_list_menu, On P_main Touchwin, On P_user_list Wrefresh])"

definition show_popup :: "cstring \<Rightarrow> calls" where
  "show_popup text =
     plain (On P_popup_sub Wclear # print_centered (POPUP_WIDTH - 2) P_popup_sub 3 False text @
       [On P_popup Touchwin, On P_popup_sub Wrefresh, On P_popup Show_panel, Global Update_panels, Global Doupdate])"

text \<open>The end of \<open>ui_main\<close>.\<close>

definition ui_main_close :: calls where
  "ui_main_close =
     plain ([Free Main_menu, Free User_list_menu, Free Battle_act_menu, On P_popup Del_panel, On P_root Del_panel,
             Free Chat_form] @
       map Delwin [P_battle_act_sub, P_battle_act, P_player_sub, P_player, P_battle_msg_sub, P_battle_msg,
         P_opponent_sub, P_opponent, P_battle_act_sub, P_battle_act, P_arena, P_chat_sub, P_chat_input,
         P_main_menu_sub, P_main_menu, P_user_list_sub, P_user_list, P_popup_sub, P_popup, P_main] @
       [Global Clear, Global Refresh])"

text \<open>\<open>ui\<close> up to the main screen.\<close>

definition ui_open :: "int \<Rightarrow> int \<Rightarrow> (cstring \<times> cstring) list \<Rightarrow> calls" where
  "ui_open y nick_y rounds =
     [(Global Initscr, Or_ppanic ''initscr()''), (Global Cbreak, Or_ppanic ''cbreak()'')] @ ui_init False @
     login_open y @ concat (map (login_draw nick_y) rounds) @ login_close @ ui_main_open"

section \<open>The rules of curses\<close>

text \<open>
  What its manual says about the calls: a window, a menu or a form is used only while it
  exists; a derived window lies in its parent; a window is deleted once, after the windows
  derived from it; a menu or form is posted when it is not, and freed when it is not
  posted. The screen keeps the windows with their parents and the widgets with whether
  they are posted.
\<close>

record screen_t =
  sc_panes :: "(pane \<times> pane option \<times> window) list"
  sc_widgets :: "(widget \<times> bool) list"

definition no_screen :: screen_t where "no_screen = \<lparr>sc_panes = [], sc_widgets = []\<rparr>"

definition exists_pane :: "screen_t \<Rightarrow> pane \<Rightarrow> bool" where
  "exists_pane sc p \<longleftrightarrow> map_of (sc_panes sc) p \<noteq> None"

definition exists_widget :: "screen_t \<Rightarrow> widget \<Rightarrow> bool" where
  "exists_widget sc w \<longleftrightarrow> map_of (sc_widgets sc) w \<noteq> None"

fun obeys :: "curses_call \<Rightarrow> screen_t \<Rightarrow> bool" where
  "obeys (Global g) sc = True"
| "obeys (Newwin p r) sc = (0 < w_lines r \<and> 0 < w_cols r)"
| "obeys (Derwin p parent r) sc =
     (case map_of (sc_panes sc) parent of None \<Rightarrow> False | Some (_, v) \<Rightarrow> fits (w_lines v) (w_cols v) r)"
| "obeys (Delwin p) sc = (exists_pane sc p \<and> list_all (\<lambda>(q, parent, r). parent \<noteq> Some p) (sc_panes sc))"
| "obeys (On p c) sc = exists_pane sc p"
| "obeys (New_item w name) sc = True"
| "obeys (New_field w rows cols) sc = True"
| "obeys (New_widget w) sc = True"
| "obeys (With w c) sc = exists_widget sc w"
| "obeys (Set_win w p) sc = (exists_widget sc w \<and> exists_pane sc p)"
| "obeys (Set_sub w p) sc = (exists_widget sc w \<and> exists_pane sc p)"
| "obeys (Post w) sc = (map_of (sc_widgets sc) w = Some False)"
| "obeys (Unpost w) sc = exists_widget sc w"
| "obeys (Free w) sc = (map_of (sc_widgets sc) w = Some False)"

fun effect :: "curses_call \<Rightarrow> screen_t \<Rightarrow> screen_t" where
  "effect (Newwin p r) sc = sc\<lparr>sc_panes := (p, None, r) # sc_panes sc\<rparr>"
| "effect (Derwin p parent r) sc = sc\<lparr>sc_panes := (p, Some parent, r) # sc_panes sc\<rparr>"
| "effect (Delwin p) sc = sc\<lparr>sc_panes := filter (\<lambda>(q, r). q \<noteq> p) (sc_panes sc)\<rparr>"
| "effect (New_widget w) sc = sc\<lparr>sc_widgets := (w, False) # sc_widgets sc\<rparr>"
| "effect (Post w) sc = sc\<lparr>sc_widgets := (w, True) # filter (\<lambda>(v, b). v \<noteq> w) (sc_widgets sc)\<rparr>"
| "effect (Unpost w) sc = sc\<lparr>sc_widgets := (w, False) # filter (\<lambda>(v, b). v \<noteq> w) (sc_widgets sc)\<rparr>"
| "effect (Free w) sc = sc\<lparr>sc_widgets := filter (\<lambda>(v, b). v \<noteq> w) (sc_widgets sc)\<rparr>"
| "effect _ sc = sc"

text \<open>The calls that break the rules, which are passed over, and the screen behind all calls.\<close>

fun watch :: "curses_call list \<Rightarrow> screen_t \<Rightarrow> curses_call list \<times> screen_t" where
  "watch [] sc = ([], sc)"
| "watch (c # cs) sc =
     (if obeys c sc then watch cs (effect c sc)
      else case watch cs sc of (bad, sc') \<Rightarrow> (c # bad, sc'))"

lemma watch_append:
  "watch (cs @ ds) sc = (case watch cs sc of (bad, sc') \<Rightarrow>
     case watch ds sc' of (bad', sc'') \<Rightarrow> (bad @ bad', sc''))"
  by (induction cs arbitrary: sc) (auto split: prod.split)

lemma watch_good: "watch cs sc = ([], sc') \<Longrightarrow> watch (cs @ ds) sc = watch ds sc'"
  by (simp add: watch_append split: prod.split)

text \<open>A system on which no call fails that obeys the rules.\<close>

definition obliging :: "(curses_call list \<Rightarrow> curses_call \<Rightarrow> bool) \<Rightarrow> bool" where
  "obliging ok \<longleftrightarrow> (\<forall>tr c. obeys c (snd (watch tr no_screen)) \<longrightarrow> ok tr c)"

lemma run_obliging:
  assumes "obliging ok"
  shows "watch tr no_screen = ([], sc) \<Longrightarrow> fst (watch (map fst prog) sc) = [] \<Longrightarrow>
    run_calls ok err prog tr = Inr (tr @ map fst prog)"
proof (induction prog arbitrary: tr sc)
  case Nil
  then show ?case by simp
next
  case (Cons x prog)
  obtain c ch where x: "x = (c, ch)" by (cases x)
  from Cons.prems(2) x have c: "obeys c sc" "fst (watch (map fst prog) (effect c sc)) = []"
    by (auto split: if_splits prod.splits)
  have "watch (tr @ [c]) no_screen = ([], effect c sc)"
    using Cons.prems(1) c(1) by (simp add: watch_append)
  note ih = Cons.IH [OF this c(2)]
  have "ok tr c" using assms c(1) Cons.prems(1) by (simp add: obliging_def)
  with ih x show ?case by (cases ch) simp_all
qed

section \<open>Building the screen and leaving it\<close>

lemma map_fst_plain [simp]: "map fst (plain cs) = cs"
  by (simp add: plain_def o_def)

lemmas open_defs = ui_init_def login_open_def login_close_def draw_login_scr_def title_string_def
  print_centered_def derwin_with_box_def open_main_def open_arena_def open_user_list_def
  open_main_menu_def open_battle_def open_chat_def user_list_draw_def show_popup_def popup_def

lemmas watch_simps = obeys.simps effect.simps exists_pane_def exists_widget_def fits_def

text \<open>The screen before the login window, with it, and the whole.\<close>

definition root_pane :: "pane \<times> pane option \<times> window" where
  "root_pane = (P_root, None, \<lparr>w_lines = 26, w_cols = 82, w_y = 0, w_x = 0\<rparr>)"

definition login_pane :: "pane \<times> pane option \<times> window" where
  "login_pane = (P_login, Some P_root, \<lparr>w_lines = 24, w_cols = 80, w_y = 1, w_x = 1\<rparr>)"

lemma watch_start:
  "watch ([Global Initscr, Global Cbreak] @ map fst (ui_init False) @ map fst (login_open y)) no_screen =
    ([], \<lparr>sc_panes = [login_pane, root_pane], sc_widgets = []\<rparr>)"
  by (simp add: open_defs watch_simps no_screen_def root_pane_def login_pane_def MAIN_HEIGHT_def MAIN_WIDTH_def)

lemma watch_draw: "list_all (\<lambda>c. obeys c sc \<and> effect c sc = sc) cs \<Longrightarrow> watch cs sc = ([], sc)"
  by (induction cs) simp_all

lemma watch_login:
  "watch (map fst (concat (map (login_draw nick_y) rounds))) \<lparr>sc_panes = [login_pane, root_pane], sc_widgets = []\<rparr> =
    ([], \<lparr>sc_panes = [login_pane, root_pane], sc_widgets = []\<rparr>)"
  by (rule watch_draw, induction rounds)
    (auto simp: login_draw_def print_centered_def watch_simps root_pane_def login_pane_def)

definition root_screen :: screen_t where
  "root_screen = \<lparr>sc_panes = [root_pane], sc_widgets = []\<rparr>"

lemma watch_login_close:
  "watch (map fst login_close) \<lparr>sc_panes = [login_pane, root_pane], sc_widgets = []\<rparr> = ([], root_screen)"
  by (simp add: login_close_def watch_simps root_pane_def login_pane_def root_screen_def)

definition main_screen :: screen_t where
  "main_screen = snd (watch (map fst ui_main_open) root_screen)"

lemma watch_main: "fst (watch (map fst ui_main_open) root_screen) = []"
  by code_simp

lemma watch_close:
  "fst (watch (map fst (user_list_draw cnt @ show_popup text @ ui_main_close @ ui_init True)) main_screen) =
    [Free Main_menu, Free User_list_menu, Free Battle_act_menu, Free Chat_form,
     Delwin P_battle_act_sub, Delwin P_battle_act, Delwin P_main, Delwin P_root]"
  by code_simp

section \<open>Properties\<close>

text \<open>Windows with the same parent do not overlap.\<close>

definition no_overlap :: "screen_t \<Rightarrow> bool" where
  "no_overlap sc \<longleftrightarrow>
     sorted_wrt (\<lambda>(p, v, r) (q, w, r'). v \<noteq> w \<or> v = None \<or> apart r r') (sc_panes sc)"

lemma main_screen_tiled: "no_overlap main_screen"
  by code_simp

lemma watch_open: "watch (map fst (ui_open y nick_y rounds)) no_screen = ([], main_screen)"
proof -
  have "map fst (ui_open y nick_y rounds) =
    ([Global Initscr, Global Cbreak] @ map fst (ui_init False) @ map fst (login_open y)) @
    (map fst (concat (map (login_draw nick_y) rounds)) @ (map fst login_close @ map fst ui_main_open))"
    by (simp add: ui_open_def)
  moreover have "watch (map fst ui_main_open) root_screen = ([], main_screen)"
    unfolding main_screen_def using watch_main by (metis prod.collapse)
  ultimately show ?thesis
    by (simp only: watch_good [OF watch_start] watch_good [OF watch_login] watch_good [OF watch_login_close])
qed



text \<open>
  Where \<open>print_centered\<close> puts a text: the difference is halved in an unsigned type, but the
  result is the rounded half of the signed one; a text that is longer than the window gets
  a negative column, at which \<open>wmove\<close> fails.
\<close>

lemma sint_int: "- (2 ^ 31) \<le> i \<Longrightarrow> i < 2 ^ 31 \<Longrightarrow> sint (word_of_int i :: u32) = i"
  by (simp add: signed_of_int signed_take_bit_int_eq_self)

lemma half_wraps: "((d :: int) mod 2 ^ 64 div 2) mod 2 ^ 32 = (d div 2) mod 2 ^ 32"
proof -
  let ?r = "d mod 2 ^ 64" and ?q = "d div 2 ^ 64"
  have d: "?r + 2 * (2 ^ 63 * ?q) = d" using mod_mult_div_eq [of d "2 ^ 64"] by simp
  have "d div 2 = (?r + 2 * (2 ^ 63 * ?q)) div 2" unfolding d by simp
  also have "\<dots> = ?r div 2 + 2 ^ 63 * ?q" by (subst div_mult_self2) simp_all
  also have "\<dots> = ?r div 2 + 2 ^ 32 * (2 ^ 31 * ?q)" by simp
  finally show ?thesis by (metis mod_mult_self2)
qed

lemma centered_lpad_eq:
  assumes "0 \<le> cols" and "cols < 2 ^ 31" and "len < 2 ^ 31"
  shows "centered_lpad (of_int cols) (of_nat len) = (cols - int len) div 2"
proof -
  let ?d = "cols - int len"
  have "(scast (of_int cols :: u32) :: 64 word) = word_of_int cols"
    using sint_int [of cols] assms(1,2) by (simp add: scast_eq)
  then have diff: "(scast (of_int cols :: u32) - of_nat len :: 64 word) = word_of_int ?d" by simp
  have "uint ((word_of_int ?d :: 64 word) div 2) = ?d mod 2 ^ 64 div 2"
    unfolding uint_div_distrib uint_word_of_int by simp
  then have "uint (ucast ((word_of_int ?d :: 64 word) div 2) :: u32) = (?d mod 2 ^ 64 div 2) mod 2 ^ 32"
    unfolding unsigned_ucast_eq take_bit_eq_mod by simp
  also have "\<dots> = uint (word_of_int (?d div 2) :: u32)"
    unfolding half_wraps by (simp add: uint_word_of_int)
  finally have "(ucast ((word_of_int ?d :: 64 word) div 2) :: u32) = word_of_int (?d div 2)"
    by (simp add: word_uint_eq_iff)
  moreover have "sint (word_of_int (?d div 2) :: u32) = ?d div 2"
    using assms by (intro sint_int) auto
  ultimately show ?thesis unfolding centered_lpad_def diff by simp
qed

text \<open>The challenge of a user whose nickname has more than 8 characters.\<close>

lemma popup_out_of_place:
  assumes "8 < length nick" and "length nick \<le> 31"
  shows "\<exists>col < 0. On P_popup_sub (Wmove 3 col) \<in> set (map fst (show_popup
    (bytes ''You are being challenged by `'' @ nick @ [39] @ bytes ''. Join battle? (Y/N)'')))"
proof -
  have "centered_lpad (of_int 58) (of_nat (50 + length nick)) < 0"
    using assms centered_lpad_eq [of 58 "50 + length nick"] by simp
  then show ?thesis
    by (intro exI [of _ "centered_lpad (of_int 58) (of_nat (50 + length nick))"])
      (simp add: show_popup_def print_centered_def POPUP_WIDTH_def bytes_def ac_simps)
qed

end
