(* ===== verification/Spec2Isabelle.thy ===== *)
theory Spec2Isabelle imports ServerThreads ArgProps ClientProps ClientDuel ClientLimits ClientLayout ClientChat ClientThreads ClientScreen begin

text \<open>
  Placeholder of the header.
\<close>

end
